(* ===== verification/Prelude.thy ===== *)
theory Prelude
  imports Main "HOL-Library.Word" "HOL-Library.AList" "HOL-Library.Multiset"
begin

text \<open>
  Shared ground of the development: the JavaScript values the client code computes with.
  Numbers that the code combines with bitwise operators are integers whose operands are cut to
  32 bits (\<open>js_and\<close>, \<open>js_or\<close>, \<open>js_shl\<close>, \<open>js_shr\<close>); a \<open>Uint8Array\<close> is a list of
  8-bit words with the range checks of the typed array methods; an object used as a dictionary
  (\<open>Record<string, V>\<close>) is an association list in insertion order; an exception is the left
  injection of a sum. The theory also holds the two interfaces every component is a client of:
  a dictionary (\<open>js_record\<close>) and a state machine with an invariant (\<open>machine\<close>).
\<close>

unbundle bit_operations_syntax

named_theorems js_defs \<open>the JavaScript operators and typed array methods\<close>
named_theorems obj_simps \<open>reading an object after writing it\<close>

section \<open>Errors\<close>

datatype js_error = RangeError | TypeError | SyntaxError | EncoderError string | PeerError

text \<open>A sequence of statements stops at the first one that throws.\<close>

fun andThen :: "js_error + 'a \<Rightarrow> ('a \<Rightarrow> js_error + 'b) \<Rightarrow> js_error + 'b" where
  "andThen (Inl e) f = Inl e"
| "andThen (Inr a) f = f a"

text \<open>A loop over a list whose body changes a world and may throw.\<close>

fun for_each :: "('a \<Rightarrow> 'w \<Rightarrow> js_error option \<times> 'w) \<Rightarrow> 'a list \<Rightarrow> 'w \<Rightarrow> js_error option \<times> 'w" where
  "for_each f [] w = (None, w)"
| "for_each f (x # xs) w = (case f x w of (Some e, w) \<Rightarrow> (Some e, w) | (None, w) \<Rightarrow> for_each f xs w)"

lemma for_each_total:
  "(\<And>x w. x \<in> set xs \<Longrightarrow> f x w = (None, g x w)) \<Longrightarrow> for_each f xs w = (None, fold g xs w)"
  by (induction xs arbitrary: w) simp_all

lemma for_each_keeps:
  "(\<And>x w. x \<in> set xs \<Longrightarrow> P w \<Longrightarrow> P (snd (f x w))) \<Longrightarrow> P w \<Longrightarrow> P (snd (for_each f xs w))"
proof (induction xs arbitrary: w)
  case (Cons x xs)
  from Cons.prems(1) [of x w] Cons.prems(2) have "P (snd (f x w))" by simp
  moreover obtain e w' where "f x w = (e, w')" by fastforce
  ultimately show ?case using Cons.IH [of w'] Cons.prems(1) by (cases e) simp_all
qed simp

section \<open>Bitwise operators on numbers\<close>

type_synonym byte = "8 word"

definition to_int32 :: "int \<Rightarrow> 32 word" where
  "to_int32 x = word_of_int x"

definition js_and :: "int \<Rightarrow> int \<Rightarrow> int" where
  [js_defs]: "js_and a b = sint (to_int32 a AND to_int32 b)"

definition js_or :: "int \<Rightarrow> int \<Rightarrow> int" where
  [js_defs]: "js_or a b = sint (to_int32 a OR to_int32 b)"

definition js_shl :: "int \<Rightarrow> nat \<Rightarrow> int" where
  [js_defs]: "js_shl a n = sint (push_bit n (to_int32 a))"

definition js_shr :: "int \<Rightarrow> nat \<Rightarrow> int" where
  [js_defs]: "js_shr a n = sint (signed_drop_bit n (to_int32 a))"

declare to_int32_def [js_defs]

text \<open>A store into a \<open>Uint8Array\<close> keeps the number modulo 256; a load beyond the end is
  \<open>undefined\<close>, which every bitwise operator reads as 0.\<close>

definition u8 :: "int \<Rightarrow> byte" where
  [js_defs]: "u8 x = word_of_int x"

definition load :: "byte list \<Rightarrow> nat \<Rightarrow> int" where
  "load bs i = (if i < length bs then uint (bs ! i) else 0)"

lemma load_append_left [simp]: "i < length bs \<Longrightarrow> load (bs @ cs) i = load bs i"
  by (simp add: load_def nth_append)

lemma load_bounds: "0 \<le> load bs i \<and> load bs i < 256"
  using uint_bounded [of "bs ! i"] by (simp add: load_def)

section \<open>Typed array methods\<close>

text \<open>\<open>new Uint8Array(n)\<close>, \<open>dst.set(src, off)\<close> and \<open>src.slice(a, b)\<close> for
  \<open>0 \<le> a\<close> and \<open>0 \<le> b\<close>. The first two throw a \<open>RangeError\<close>.\<close>

definition new_u8 :: "int \<Rightarrow> js_error + byte list" where
  "new_u8 n = (if n < 0 then Inl RangeError else Inr (replicate (nat n) 0))"

definition ta_set :: "byte list \<Rightarrow> byte list \<Rightarrow> int \<Rightarrow> js_error + byte list" where
  "ta_set dst src off =
     (if off < 0 \<or> off + int (length src) > int (length dst) then Inl RangeError
      else Inr (take (nat off) dst @ src @ drop (nat off + length src) dst))"

definition js_slice :: "nat \<Rightarrow> nat \<Rightarrow> 'a list \<Rightarrow> 'a list" where
  "js_slice a b xs = take (b - a) (drop a xs)"

lemma length_js_slice [simp]: "length (js_slice a b xs) = min (b - a) (length xs - a)"
  by (simp add: js_slice_def min.commute)

lemma ta_set_length: "ta_set dst src off = Inr r \<Longrightarrow> length r = length dst"
  by (auto simp: ta_set_def split: if_splits)

lemma ta_set_nth:
  assumes "ta_set dst src off = Inr r" and "i < length dst"
  shows "r ! i = (if nat off \<le> i \<and> i < nat off + length src then src ! (i - nat off) else dst ! i)"
  using assms by (auto simp: ta_set_def nth_append split: if_splits)

lemma ta_set_Inr_iff:
  "(\<exists>r. ta_set dst src off = Inr r) \<longleftrightarrow> 0 \<le> off \<and> off + int (length src) \<le> int (length dst)"
  by (auto simp: ta_set_def)

section \<open>Objects used as dictionaries\<close>

type_synonym 'v obj = "(string \<times> 'v) list"

abbreviation oget :: "'v obj \<Rightarrow> string \<Rightarrow> 'v option" where
  "oget \<equiv> map_of"

abbreviation oset :: "string \<Rightarrow> 'v \<Rightarrow> 'v obj \<Rightarrow> 'v obj" where
  "oset \<equiv> AList.update"

abbreviation odel :: "string \<Rightarrow> 'v obj \<Rightarrow> 'v obj" where
  "odel \<equiv> AList.delete"

definition omit :: "'v obj \<Rightarrow> string list \<Rightarrow> 'v obj" where
  "omit ob ks = filter (\<lambda>(k, _). k \<notin> set ks) ob"

abbreviation okeys :: "'v obj \<Rightarrow> string list" where
  "okeys \<equiv> map fst"

definition wf_obj :: "'v obj \<Rightarrow> bool" where
  "wf_obj ob \<longleftrightarrow> distinct (okeys ob)"

lemma oget_oset [obj_simps, simp]: "oget (oset k v ob) k' = (if k' = k then Some v else oget ob k')"
  by (simp add: update_conv)

lemma oget_odel [obj_simps, simp]: "oget (odel k ob) k' = (if k' = k then None else oget ob k')"
  by (simp add: delete_conv)

lemma oget_omit [obj_simps, simp]:
  "oget (omit ob ks) k = (if k \<in> set ks then None else oget ob k)"
  by (induction ob) (auto simp: omit_def)

lemma okeys_omit: "okeys (omit ob ks) = filter (\<lambda>k. k \<notin> set ks) (okeys ob)"
  by (induction ob) (auto simp: omit_def)

lemma wf_obj_Nil [simp]: "wf_obj []"
  by (simp add: wf_obj_def)

lemma wf_obj_oset [simp]: "wf_obj ob \<Longrightarrow> wf_obj (oset k v ob)"
  by (simp add: wf_obj_def distinct_update)

lemma wf_obj_odel [simp]: "wf_obj ob \<Longrightarrow> wf_obj (odel k ob)"
  by (simp add: wf_obj_def distinct_delete)

lemma wf_obj_omit [simp]: "wf_obj ob \<Longrightarrow> wf_obj (omit ob ks)"
  by (simp add: wf_obj_def okeys_omit)

lemma oget_Some_iff: "wf_obj ob \<Longrightarrow> oget ob k = Some v \<longleftrightarrow> (k, v) \<in> set ob"
  by (simp add: wf_obj_def)

lemma oget_None_iff: "oget ob k = None \<longleftrightarrow> k \<notin> set (okeys ob)"
  by (simp add: map_of_eq_None_iff)

text \<open>
  The dictionary interface. \<open>last_with\<close> says what a sequence of writes leaves behind: the last
  element with the key. Both \<open>keyBy\<close> of the streams reducer and the \<open>reduce\<close> of the
  encryption worker are instances of \<open>put_all\<close>.
\<close>

fun last_with :: "('e \<Rightarrow> 'k) \<Rightarrow> 'k \<Rightarrow> 'e list \<Rightarrow> 'e option" where
  "last_with key k [] = None"
| "last_with key k (e # es) =
     (case last_with key k es of Some e' \<Rightarrow> Some e' | None \<Rightarrow> (if key e = k then Some e else None))"

lemma last_with_Some: "last_with key k es = Some e \<Longrightarrow> e \<in> set es \<and> key e = k"
  by (induction es) (auto split: option.splits if_splits)

lemma last_with_None: "last_with key k es = None \<longleftrightarrow> (\<forall>e \<in> set es. key e \<noteq> k)"
  by (induction es) (auto split: option.splits if_splits)

lemma last_with_distinct:
  "distinct (map key es) \<Longrightarrow> e \<in> set es \<Longrightarrow> last_with key (key e) es = Some e"
proof (induction es)
  case Nil
  then show ?case by simp
next
  case (Cons x xs)
  then show ?case
    by (cases "last_with key (key e) xs") (auto 0 4 dest!: last_with_Some simp: image_iff)
qed

locale js_record =
  fixes get :: "'m \<Rightarrow> 'k \<Rightarrow> 'v option"
    and put :: "'k \<Rightarrow> 'v \<Rightarrow> 'm \<Rightarrow> 'm"
    and del :: "'k \<Rightarrow> 'm \<Rightarrow> 'm"
    and invar :: "'m \<Rightarrow> bool"
  assumes get_put: "get (put k v m) k' = (if k' = k then Some v else get m k')"
    and get_del: "get (del k m) k' = (if k' = k then None else get m k')"
    and invar_put: "invar m \<Longrightarrow> invar (put k v m)"
    and invar_del: "invar m \<Longrightarrow> invar (del k m)"
begin

lemma get_put_all:
  "get (fold (\<lambda>e. put (key e) (val e)) es m) k =
     (case last_with key k es of Some e \<Rightarrow> Some (val e) | None \<Rightarrow> get m k)"
  by (induction es arbitrary: m) (auto simp: get_put split: option.splits)

lemma invar_put_all: "invar m \<Longrightarrow> invar (fold (\<lambda>e. put (key e) (val e)) es m)"
  by (induction es arbitrary: m) (auto simp: invar_put)

lemma get_del_all: "get (fold del ks m) k = (if k \<in> set ks then None else get m k)"
  by (induction ks arbitrary: m) (auto simp: get_del)

lemma invar_del_all: "invar m \<Longrightarrow> invar (fold del ks m)"
  by (induction ks arbitrary: m) (auto simp: invar_del)

end

interpretation ob: js_record oget oset odel wf_obj
  by unfold_locales simp_all

section \<open>State machines with an invariant\<close>

text \<open>
  Every stateful part of the client is a function from a state and an event to the next state.
  The interface names the step, the events the environment may produce in a state and the
  invariant; what it gives back is the invariant along every run.
\<close>

fun admissible :: "('s \<Rightarrow> 'e \<Rightarrow> 's) \<Rightarrow> ('s \<Rightarrow> 'e \<Rightarrow> bool) \<Rightarrow> 's \<Rightarrow> 'e list \<Rightarrow> bool" where
  "admissible step ok s [] \<longleftrightarrow> True"
| "admissible step ok s (e # es) \<longleftrightarrow> ok s e \<and> admissible step ok (step s e) es"

lemma admissible_all [simp]: "admissible step (\<lambda>_. ok) s es \<longleftrightarrow> list_all ok es"
  by (induction es arbitrary: s) auto

abbreviation run :: "('s \<Rightarrow> 'e \<Rightarrow> 's) \<Rightarrow> 's \<Rightarrow> 'e list \<Rightarrow> 's" where
  "run step s es \<equiv> foldl step s es"

locale machine =
  fixes step :: "'s \<Rightarrow> 'e \<Rightarrow> 's"
    and ok :: "'s \<Rightarrow> 'e \<Rightarrow> bool"
    and inv :: "'s \<Rightarrow> bool"
  assumes step_inv: "inv s \<Longrightarrow> ok s e \<Longrightarrow> inv (step s e)"
begin

lemma run_inv: "inv s \<Longrightarrow> admissible step ok s es \<Longrightarrow> inv (run step s es)"
  by (induction es arbitrary: s) (auto simp: step_inv)

end

section \<open>Lists\<close>

lemma take_js_slice: "a \<le> b \<Longrightarrow> take a xs @ js_slice a b xs = take b xs"
  by (metis le_add_diff_inverse js_slice_def take_add)

lemma fold_establish:
  assumes "\<And>x s. x \<in> set xs \<Longrightarrow> P x (f x s)" and "\<And>x y s. P y s \<Longrightarrow> P y (f x s)"
    and "y \<in> set xs \<or> P y s"
  shows "P y (fold f xs s)"
  using assms
proof (induction xs arbitrary: s)
  case (Cons x xs)
  then have "y \<in> set xs \<or> P y (f x s)" by auto
  with Cons show ?case by simp
qed simp

lemma fold_keeps: "(\<And>x w. g (f x w) = g w) \<Longrightarrow> g (fold f xs w) = g w"
  by (induction xs arbitrary: w) simp_all

lemma find_Some_in: "List.find P xs = Some x \<Longrightarrow> x \<in> set xs \<and> P x"
  by (auto simp: find_Some_iff in_set_conv_nth)

lemma find_None_all: "List.find P xs = None \<longleftrightarrow> (\<forall>x \<in> set xs. \<not> P x)"
  by (auto simp: find_None_iff)

lemma mset_map_reorder:
  "mset ys = mset (map f xs) \<Longrightarrow> \<exists>zs. ys = map f zs \<and> mset zs = mset xs"
proof (induction ys arbitrary: xs)
  case Nil
  then show ?case by simp
next
  case (Cons y ys)
  have "y \<in># mset (map f xs)" using Cons.prems [symmetric] by simp
  then obtain x where x: "x \<in> set xs" "y = f x" by auto
  have xs: "mset xs = add_mset x (mset (remove1 x xs))"
    using x(1) by simp
  have "add_mset y (mset ys) = add_mset (f x) (image_mset f (mset (remove1 x xs)))"
    using Cons.prems by (simp only: mset.simps mset_map xs image_mset_add_mset)
  then have "mset ys = mset (map f (remove1 x xs))"
    using x(2) by (simp only: mset_map add_mset_add_mset_same_iff)
  from Cons.IH [OF this] obtain zs where zs: "ys = map f zs" "mset zs = mset (remove1 x xs)"
    by blast
  have "y # ys = map f (x # zs)" using zs(1) x(2) by simp
  moreover have "mset (x # zs) = mset xs" by (simp only: mset.simps zs(2) xs)
  ultimately show ?case by (intro exI conjI)
qed

end
