(* ===== verification/Header.thy ===== *)
theory Header
  imports Prelude
begin

text \<open>
  The 16-byte chunk header of \<open>codec/header.ts\<close>: \<open>encodeHeader\<close> and
  \<open>decodeHeader\<close> with the 32-bit bitwise operators of the source, the big-endian layout the
  comment in the file draws as their specification, the round trips and the bounds. The
  interface \<open>header_codec\<close> is what the chunk codec relies on.
\<close>

section \<open>Model\<close>

definition headerSizeBytes :: nat where
  "headerSizeBytes = 16"

record header =
  messageId :: int
  chunkNum :: int
  totalChunks :: int
  senderIdSizeBytes :: int
  chunkSizeBytes :: int
  totalSizeBytes :: int

definition encodeHeader :: "header \<Rightarrow> byte list" where
  "encodeHeader header =
    [u8 (js_shr (js_and (messageId header) 0xFF00) 8),
     u8 (js_and (messageId header) 0x00FF),
     u8 (js_shr (js_and (chunkNum header) 0xFF00) 8),
     u8 (js_and (chunkNum header) 0x00FF),
     u8 (js_shr (js_and (totalChunks header) 0xFF00) 8),
     u8 (js_and (totalChunks header) 0x00FF),
     u8 (js_shr (js_and (senderIdSizeBytes header) 0xFF00) 8),
     u8 (js_and (senderIdSizeBytes header) 0x00FF),
     u8 (js_shr (js_and (chunkSizeBytes header) 0x7F000000) 24),
     u8 (js_shr (js_and (chunkSizeBytes header) 0x00FF0000) 16),
     u8 (js_shr (js_and (chunkSizeBytes header) 0x0000FF00) 8),
     u8 (js_and (chunkSizeBytes header) 0x000000FF),
     u8 (js_shr (js_and (totalSizeBytes header) 0x7F000000) 24),
     u8 (js_shr (js_and (totalSizeBytes header) 0x00FF0000) 16),
     u8 (js_shr (js_and (totalSizeBytes header) 0x0000FF00) 8),
     u8 (js_and (totalSizeBytes header) 0x000000FF)]"

definition decodeHeader :: "byte list \<Rightarrow> header" where
  "decodeHeader data =
    \<lparr>messageId = js_or (js_shl (load data 0) 8) (load data 1),
     chunkNum = js_or (js_shl (load data 2) 8) (load data 3),
     totalChunks = js_or (js_shl (load data 4) 8) (load data 5),
     senderIdSizeBytes = js_or (js_shl (load data 6) 8) (load data 7),
     chunkSizeBytes =
       js_or (js_or (js_or (js_shl (load data 8) 24) (js_shl (load data 9) 16))
         (js_shl (load data 10) 8)) (load data 11),
     totalSizeBytes =
       js_or (js_or (js_or (js_shl (load data 12) 24) (js_shl (load data 13) 16))
         (js_shl (load data 14) 8)) (load data 15)\<rparr>"

section \<open>The operators byte by byte\<close>

lemma masks:
  "(255::int) = mask 8" "(65280::int) = push_bit 8 (mask 8)"
  "(16711680::int) = push_bit 16 (mask 8)" "(2130706432::int) = push_bit 24 (mask 7)"
  by (simp_all add: mask_numeral)

lemma u8_low: "u8 (js_and x 255) = word_of_int x"
  unfolding masks by (rule bit_word_eqI) (auto simp: js_defs bit_simps)

lemma u8_shr8: "u8 (js_shr (js_and x 65280) 8) = word_of_int (drop_bit 8 x)"
  unfolding masks by (rule bit_word_eqI) (auto simp: js_defs bit_simps)

lemma u8_shr16: "u8 (js_shr (js_and x 16711680) 16) = word_of_int (drop_bit 16 x)"
  unfolding masks by (rule bit_word_eqI) (auto simp: js_defs bit_simps)

lemma u8_shr24: "u8 (js_shr (js_and x 2130706432) 24) = word_of_int (take_bit 7 (drop_bit 24 x))"
  unfolding masks by (rule bit_word_eqI) (auto simp: js_defs bit_simps min_def)

lemmas u8_bytes = u8_low u8_shr8 u8_shr16 u8_shr24

lemma or_shl8: "js_or (js_shl (uint (a::byte)) 8) (uint (b::byte)) = concat_bit 8 (uint b) (uint a)"
  by (rule bit_eqI) (auto simp: js_defs bit_simps min_def dest: bit_imp_le_length)

lemma or_shl32:
  "js_or (js_or (js_or (js_shl (uint (a::byte)) 24) (js_shl (uint (b::byte)) 16))
     (js_shl (uint (c::byte)) 8)) (uint (d::byte)) =
   signed_take_bit 31
     (concat_bit 8 (uint d) (concat_bit 8 (uint c) (concat_bit 8 (uint b) (uint a))))"
  by (rule bit_eqI) (auto simp: js_defs bit_simps min_def dest: bit_imp_le_length)

section \<open>The layout as a specification\<close>

text \<open>The comment of \<open>header.ts\<close> draws each field as a big-endian number; \<open>be\<close> reads
  such a number off a list of bytes.\<close>

definition be :: "byte list \<Rightarrow> int" where
  "be bs = foldl (\<lambda>acc b. 256 * acc + uint b) 0 bs"

lemma concat_bit8: "concat_bit 8 (uint (b::byte)) x = 256 * x + uint b"
  by (simp add: concat_bit_eq push_bit_eq_mult take_bit_int_eq_self uint_bounded [of b, simplified])

lemma be_2: "be [a, b] = concat_bit 8 (uint b) (uint a)"
  by (simp add: be_def concat_bit8)

lemma be_4: "be [a, b, c, d] =
    concat_bit 8 (uint d) (concat_bit 8 (uint c) (concat_bit 8 (uint b) (uint a)))"
  by (simp add: be_def concat_bit8)

lemma be_bytes16: "be [word_of_int (drop_bit 8 x), word_of_int x] = take_bit 16 x"
  unfolding be_2 by (rule bit_eqI) (auto simp: bit_simps)

lemma be_bytes31:
  "be [word_of_int (take_bit 7 (drop_bit 24 x)), word_of_int (drop_bit 16 x),
       word_of_int (drop_bit 8 x), word_of_int x] = take_bit 31 x"
  unfolding be_4 by (rule bit_eqI) (auto simp: bit_simps)

lemma load_nth: "i < length bs \<Longrightarrow> load bs i = uint (bs ! i)"
  by (simp add: load_def)

lemma decodeHeader_eq:
  assumes "16 \<le> length bs"
  shows "decodeHeader bs =
    \<lparr>messageId = be [bs ! 0, bs ! 1], chunkNum = be [bs ! 2, bs ! 3],
     totalChunks = be [bs ! 4, bs ! 5], senderIdSizeBytes = be [bs ! 6, bs ! 7],
     chunkSizeBytes = signed_take_bit 31 (be [bs ! 8, bs ! 9, bs ! 10, bs ! 11]),
     totalSizeBytes = signed_take_bit 31 (be [bs ! 12, bs ! 13, bs ! 14, bs ! 15])\<rparr>"
proof -
  have "0 < length bs" using assms by linarith
  then show ?thesis
    using assms by (simp add: decodeHeader_def load_nth or_shl8 or_shl32 be_2 be_4)
qed

lemma encodeHeader_eq:
  "encodeHeader h =
    [word_of_int (drop_bit 8 (messageId h)), word_of_int (messageId h),
     word_of_int (drop_bit 8 (chunkNum h)), word_of_int (chunkNum h),
     word_of_int (drop_bit 8 (totalChunks h)), word_of_int (totalChunks h),
     word_of_int (drop_bit 8 (senderIdSizeBytes h)), word_of_int (senderIdSizeBytes h),
     word_of_int (take_bit 7 (drop_bit 24 (chunkSizeBytes h))),
     word_of_int (drop_bit 16 (chunkSizeBytes h)),
     word_of_int (drop_bit 8 (chunkSizeBytes h)), word_of_int (chunkSizeBytes h),
     word_of_int (take_bit 7 (drop_bit 24 (totalSizeBytes h))),
     word_of_int (drop_bit 16 (totalSizeBytes h)),
     word_of_int (drop_bit 8 (totalSizeBytes h)), word_of_int (totalSizeBytes h)]"
  by (simp add: encodeHeader_def u8_bytes)

lemma length_encodeHeader [simp]: "length (encodeHeader h) = headerSizeBytes"
  by (simp add: encodeHeader_def headerSizeBytes_def)

lemma signed_take_bit_31 [simp]: "signed_take_bit 31 (take_bit 31 x) = take_bit 31 (x::int)"
  by (rule bit_eqI) (auto simp: bit_simps min_def)

section \<open>Round trips and bounds\<close>

definition truncate :: "header \<Rightarrow> header" where
  "truncate h =
    \<lparr>messageId = messageId h mod 2 ^ 16, chunkNum = chunkNum h mod 2 ^ 16,
     totalChunks = totalChunks h mod 2 ^ 16, senderIdSizeBytes = senderIdSizeBytes h mod 2 ^ 16,
     chunkSizeBytes = chunkSizeBytes h mod 2 ^ 31, totalSizeBytes = totalSizeBytes h mod 2 ^ 31\<rparr>"

definition valid_header :: "header \<Rightarrow> bool" where
  "valid_header h \<longleftrightarrow>
     0 \<le> messageId h \<and> messageId h < 2 ^ 16 \<and> 0 \<le> chunkNum h \<and> chunkNum h < 2 ^ 16 \<and>
     0 \<le> totalChunks h \<and> totalChunks h < 2 ^ 16 \<and>
     0 \<le> senderIdSizeBytes h \<and> senderIdSizeBytes h < 2 ^ 16 \<and>
     0 \<le> chunkSizeBytes h \<and> chunkSizeBytes h < 2 ^ 31 \<and>
     0 \<le> totalSizeBytes h \<and> totalSizeBytes h < 2 ^ 31"

lemma decode_encode_header: "decodeHeader (encodeHeader h @ rest) = truncate h"
proof -
  have "decodeHeader (encodeHeader h @ rest) =
    \<lparr>messageId = take_bit 16 (messageId h), chunkNum = take_bit 16 (chunkNum h),
     totalChunks = take_bit 16 (totalChunks h),
     senderIdSizeBytes = take_bit 16 (senderIdSizeBytes h),
     chunkSizeBytes = take_bit 31 (chunkSizeBytes h),
     totalSizeBytes = take_bit 31 (totalSizeBytes h)\<rparr>"
    by (subst decodeHeader_eq)
      (simp_all add: encodeHeader_eq nth_append be_bytes16 be_bytes31)
  then show ?thesis
    by (simp add: truncate_def take_bit_eq_mod)
qed

lemma truncate_valid [simp]: "valid_header h \<Longrightarrow> truncate h = h"
  by (cases h) (simp add: valid_header_def truncate_def)

text \<open>
  C27. The header codec loses exactly what the layout has no room for: decoding an encoded header,
  whatever bytes follow it, gives the header with each 16-bit field modulo \<open>2^16\<close> and each
  size modulo \<open>2^31\<close>.
\<close>

theorem decodeHeader_encodeHeader:
  "decodeHeader (encodeHeader h @ rest) =
    \<lparr>messageId = messageId h mod 2 ^ 16, chunkNum = chunkNum h mod 2 ^ 16,
     totalChunks = totalChunks h mod 2 ^ 16, senderIdSizeBytes = senderIdSizeBytes h mod 2 ^ 16,
     chunkSizeBytes = chunkSizeBytes h mod 2 ^ 31, totalSizeBytes = totalSizeBytes h mod 2 ^ 31\<rparr>"
  by (simp only: decode_encode_header truncate_def)

lemma be_bounds: "0 \<le> be [a, b] \<and> be [a, b] < 2 ^ 16"
  using uint_bounded [of a] uint_bounded [of b] by (simp add: be_def)

lemma js_or_bounds: "- (2 ^ 31) \<le> js_or x y \<and> js_or x y < 2 ^ 31"
  using sint_ge [of "to_int32 x OR to_int32 y"] sint_lt [of "to_int32 x OR to_int32 y"]
  by (simp add: js_or_def)

lemma or_shl8_bounds:
  "0 \<le> js_or (js_shl (load bs i) 8) (load bs j) \<and> js_or (js_shl (load bs i) 8) (load bs j) < 2 ^ 16"
proof -
  have w: "load bs k = uint (word_of_int (load bs k) :: byte)" for k
    using load_bounds [of bs k] by (simp add: uint_word_of_int)
  show ?thesis
    by (subst (1 2) w [of i], subst (1 2) w [of j]) (simp only: or_shl8 be_2 [symmetric] be_bounds)
qed

text \<open>
  On any input, a short one included, the decoded 16-bit fields are between 0 and 65535 and
  the two sizes are 32-bit signed numbers: a byte 8 or 12 above 127 gives a negative size.
\<close>

lemma decodeHeader_bounds:
  "0 \<le> messageId (decodeHeader bs) \<and> messageId (decodeHeader bs) < 2 ^ 16 \<and>
   0 \<le> chunkNum (decodeHeader bs) \<and> chunkNum (decodeHeader bs) < 2 ^ 16 \<and>
   0 \<le> totalChunks (decodeHeader bs) \<and> totalChunks (decodeHeader bs) < 2 ^ 16 \<and>
   0 \<le> senderIdSizeBytes (decodeHeader bs) \<and> senderIdSizeBytes (decodeHeader bs) < 2 ^ 16 \<and>
   - (2 ^ 31) \<le> chunkSizeBytes (decodeHeader bs) \<and> chunkSizeBytes (decodeHeader bs) < 2 ^ 31 \<and>
   - (2 ^ 31) \<le> totalSizeBytes (decodeHeader bs) \<and> totalSizeBytes (decodeHeader bs) < 2 ^ 31"
  unfolding decodeHeader_def by (simp only: header.simps or_shl8_bounds js_or_bounds simp_thms)

lemma word_be_2: "word_of_int (be [a, b]) = b" "word_of_int (drop_bit 8 (be [a, b])) = a"
  unfolding be_2 by (rule bit_word_eqI, auto simp: bit_simps)+

lemma word_be_4:
  assumes "\<not> bit a 7"
  shows "word_of_int (signed_take_bit 31 (be [a, b, c, d])) = d"
    "word_of_int (drop_bit 8 (signed_take_bit 31 (be [a, b, c, d]))) = c"
    "word_of_int (drop_bit 16 (signed_take_bit 31 (be [a, b, c, d]))) = b"
    "word_of_int (take_bit 7 (drop_bit 24 (signed_take_bit 31 (be [a, b, c, d])))) = a"
  unfolding be_4
  by (rule bit_word_eqI, use assms in \<open>auto simp: bit_simps min_def less_Suc_eq numeral_eq_Suc\<close>)+

text \<open>
  Every 16 bytes with the two reserved bits of the layout clear are the encoding of what they
  decode to: the header format has no second encoding of a header.
\<close>

lemma encodeHeader_decodeHeader:
  assumes "length bs = 16" and "\<not> bit (bs ! 8) 7" and "\<not> bit (bs ! 12) 7"
  shows "encodeHeader (decodeHeader bs) = bs"
proof -
  have "[0..<16] = [0, 1, 2, 3, 4, 5, 6, 7, 8, 9, 10, 11, 12, 13, 14, 15]"
    by code_simp
  moreover have "bs = map ((!) bs) [0..<16]"
    using map_nth [of bs] assms(1) by simp
  ultimately have "bs = [bs ! 0, bs ! 1, bs ! 2, bs ! 3, bs ! 4, bs ! 5, bs ! 6, bs ! 7,
      bs ! 8, bs ! 9, bs ! 10, bs ! 11, bs ! 12, bs ! 13, bs ! 14, bs ! 15]"
    by (simp only: list.map)
  then show ?thesis
    using assms(1) word_be_4 [OF assms(2)] word_be_4 [OF assms(3)]
    by (simp only: encodeHeader_eq decodeHeader_eq header.simps word_be_2 order_refl)
qed

section \<open>What the chunk codec relies on\<close>

locale header_codec =
  fixes enc :: "'h \<Rightarrow> 'b list"
    and dec :: "'b list \<Rightarrow> 'h"
    and size :: nat
    and valid :: "'h \<Rightarrow> bool"
  assumes length_enc: "length (enc h) = size"
    and dec_enc: "valid h \<Longrightarrow> dec (enc h @ rest) = h"
begin

lemma enc_inj: "valid h \<Longrightarrow> valid h' \<Longrightarrow> enc h = enc h' \<Longrightarrow> h = h'"
  by (metis dec_enc)

lemma packet_header: "valid h \<Longrightarrow> dec (enc h @ sid @ payload) = h"
  by (rule dec_enc)

lemma packet_sender: "js_slice size (size + length sid) (enc h @ sid @ payload) = sid"
  by (simp add: js_slice_def length_enc)

lemma packet_payload: "drop (size + length sid) (enc h @ sid @ payload) = payload"
  by (simp add: length_enc)

lemmas packet = packet_header packet_sender packet_payload

end

interpretation hdr: header_codec encodeHeader decodeHeader headerSizeBytes valid_header
  by unfold_locales (simp_all add: decode_encode_header)

end
