(* ===== verification/Encoder.thy ===== *)
theory Encoder
  imports Header
begin

text \<open>
  The sending half of \<open>codec/index.ts\<close>: the worker that splits a message into chunks
  (\<open>workerFunc\<close>), the shim that runs it without a web worker, and the \<open>Encoder\<close> with its
  message counter, its timer queue and the promises of \<open>waitFor\<close>. The lemmas give the chunks
  in closed form, which is the interface the decoder is proved against.
\<close>

named_theorems codec_defs \<open>the operations of the chunk codec\<close>

section \<open>Model\<close>

definition maxMessageId :: int where
  "maxMessageId = 2 ^ 16"

record data_container =
  dc_senderId :: string
  dc_data :: "byte list"

record worker_payload =
  wp_messageId :: int
  wp_maxMessageSizeBytes :: int
  wp_data :: "byte list"
  wp_senderId :: string
  wp_senderIdBytes :: "byte list"

datatype encoder_event =
    ChunkEvent (ev_messageId: int) (ev_chunkNum: int) (ev_totalChunks: int) (ev_senderId: string)
      (ev_chunk: "byte list")
  | DoneEvent (ev_senderId: string) (ev_messageId: int)
  | ErrorEvent (ev_error: js_error) (ev_senderId: string) (ev_messageId: int)

text \<open>The bytes of one chunk: a zeroed array of the final size and three \<open>set\<close> calls.\<close>

definition build_chunk :: "byte list \<Rightarrow> int \<Rightarrow> byte list \<Rightarrow> byte list \<Rightarrow> js_error + byte list" where
  "build_chunk headerBytes chunkSize senderIdBytes payload =
     andThen (new_u8 (int (length headerBytes) + chunkSize)) (\<lambda>chunk.
     andThen (ta_set chunk headerBytes 0) (\<lambda>chunk.
     andThen (ta_set chunk senderIdBytes (int (length headerBytes))) (\<lambda>chunk.
       ta_set chunk payload (int (length headerBytes) + int (length senderIdBytes)))))"

text \<open>
  The \<open>for\<close> loop of the worker. The loop has no bound of its own: it ends because every round
  reads at least one byte, so it is a partial function whose result is \<open>None\<close> where the loop
  would not end. The result holds the posted events and the exception that stopped the loop, if
  any.
\<close>

partial_function (option) encode_loop ::
  "worker_payload \<Rightarrow> int \<Rightarrow> int \<Rightarrow> int \<Rightarrow> int \<Rightarrow> (encoder_event list \<times> js_error option) option"
where
  "encode_loop p maxChunkSize nChunks readOffset chunkNo =
    (let totalSize = int (length (wp_data p)); senderIdSize = int (length (wp_senderIdBytes p)) in
     if readOffset < totalSize then
       let chunkSize = min maxChunkSize (senderIdSize + totalSize - readOffset);
           readSize = chunkSize - senderIdSize;
           headerBytes = encodeHeader
             \<lparr>messageId = wp_messageId p, chunkNum = chunkNo, totalChunks = nChunks,
              senderIdSizeBytes = senderIdSize, chunkSizeBytes = chunkSize,
              totalSizeBytes = totalSize\<rparr>
       in (case build_chunk headerBytes chunkSize (wp_senderIdBytes p)
              (js_slice (nat readOffset) (nat (readOffset + readSize)) (wp_data p)) of
             Inl e \<Rightarrow> Some ([], Some e)
           | Inr chunk \<Rightarrow>
               Option.bind
                 (encode_loop p maxChunkSize nChunks (readOffset + readSize) (chunkNo + 1))
                 (\<lambda>(evs, err). Some (ChunkEvent (wp_messageId p) chunkNo nChunks (wp_senderId p)
                                     chunk # evs, err)))
     else Some ([], None))"

text \<open>\<open>Math.ceil(a / b)\<close> on whole numbers below \<open>2^53\<close>: the rounded quotient never crosses
  an integer, so the floating point ceiling is the integer one.\<close>

definition ceil_div :: "int \<Rightarrow> int \<Rightarrow> int" where
  "ceil_div a b = (a + b - 1) div b"

definition worker_onmessage ::
  "worker_payload \<Rightarrow> (encoder_event list \<times> js_error option) option"
where
  "worker_onmessage p =
    (let maxChunkSize = wp_maxMessageSizeBytes p - int headerSizeBytes;
         dataBytesInChunk = maxChunkSize - int (length (wp_senderIdBytes p))
     in if dataBytesInChunk \<le> 0
        then Some ([ErrorEvent (EncoderError ''Not enough space for data.'')
                      (wp_senderId p) (wp_messageId p)], None)
        else Option.bind
          (encode_loop p maxChunkSize (ceil_div (int (length (wp_data p))) dataBytesInChunk) 0 0)
          (\<lambda>(evs, err). case err of
             None \<Rightarrow> Some (evs @ [DoneEvent (wp_senderId p) (wp_messageId p)], None)
           | Some e \<Rightarrow> Some (evs, Some e)))"

section \<open>The chunks in closed form\<close>

definition piece :: "nat \<Rightarrow> nat \<Rightarrow> 'a list \<Rightarrow> 'a list" where
  "piece d i xs = take d (drop (i * d) xs)"

definition n_chunks :: "nat \<Rightarrow> nat \<Rightarrow> nat" where
  "n_chunks d len = (len + d - 1) div d"

definition chunk_header :: "int \<Rightarrow> nat \<Rightarrow> byte list \<Rightarrow> byte list \<Rightarrow> nat \<Rightarrow> header" where
  "chunk_header mid d sid data i =
     \<lparr>messageId = mid, chunkNum = int i, totalChunks = int (n_chunks d (length data)),
      senderIdSizeBytes = int (length sid),
      chunkSizeBytes = int (length sid + length (piece d i data)),
      totalSizeBytes = int (length data)\<rparr>"

definition chunk_bytes :: "int \<Rightarrow> nat \<Rightarrow> byte list \<Rightarrow> byte list \<Rightarrow> nat \<Rightarrow> byte list" where
  "chunk_bytes mid d sid data i =
     encodeHeader (chunk_header mid d sid data i) @ sid @ piece d i data"

definition message_chunks :: "int \<Rightarrow> nat \<Rightarrow> byte list \<Rightarrow> byte list \<Rightarrow> byte list list" where
  "message_chunks mid d sid data =
     map (chunk_bytes mid d sid data) [0..<n_chunks d (length data)]"

lemma less_n_chunks_iff: "0 < d \<Longrightarrow> i < n_chunks d len \<longleftrightarrow> i * d < len"
proof -
  assume d: "0 < d"
  have "i < n_chunks d len \<longleftrightarrow> Suc i \<le> (len + d - 1) div d"
    by (auto simp: n_chunks_def)
  also have "\<dots> \<longleftrightarrow> Suc i * d \<le> len + d - 1"
    using d by (rule less_eq_div_iff_mult_less_eq)
  also have "\<dots> \<longleftrightarrow> i * d < len"
    using d by auto
  finally show ?thesis .
qed

lemma ceil_div_eq: "0 < d \<Longrightarrow> ceil_div (int n) (int d) = int (n_chunks d n)"
  by (simp add: ceil_div_def n_chunks_def zdiv_int of_nat_diff)

lemma length_piece: "length (piece d i xs) = min d (length xs - i * d)"
  by (simp add: piece_def min.commute)


lemma build_chunk_eq:
  "n = int (length sid + length payload) \<Longrightarrow>
   build_chunk hb n sid payload = Inr (hb @ sid @ payload)"
  by (simp add: build_chunk_def new_u8_def ta_set_def nat_add_distrib)

definition fits :: "worker_payload \<Rightarrow> nat \<Rightarrow> bool" where
  "fits p d \<longleftrightarrow>
     0 < d \<and> wp_maxMessageSizeBytes p = int (headerSizeBytes + length (wp_senderIdBytes p) + d)"

definition chunk_event :: "worker_payload \<Rightarrow> nat \<Rightarrow> nat \<Rightarrow> encoder_event" where
  "chunk_event p d i =
     ChunkEvent (wp_messageId p) (int i) (int (n_chunks d (length (wp_data p)))) (wp_senderId p)
       (chunk_bytes (wp_messageId p) d (wp_senderIdBytes p) (wp_data p) i)"

text \<open>One round of the loop, from the offset where chunk \<open>i\<close> starts.\<close>

lemma encode_loop_round:
  assumes d: "0 < d" and i: "i < n_chunks d (length (wp_data p))"
    and rest: "encode_loop p (int (d + length (wp_senderIdBytes p)))
        (int (n_chunks d (length (wp_data p)))) (int (min (Suc i * d) (length (wp_data p))))
        (int (Suc i)) = Some (evs, None)"
  shows "encode_loop p (int (d + length (wp_senderIdBytes p)))
        (int (n_chunks d (length (wp_data p)))) (int (min (i * d) (length (wp_data p)))) (int i)
      = Some (chunk_event p d i # evs, None)"
proof -
  let ?n = "length (wp_data p)" and ?s = "length (wp_senderIdBytes p)"
  let ?pc = "piece d i (wp_data p)"
  from d i have lt: "i * d < ?n" by (simp add: less_n_chunks_iff)
  have off: "int (min (i * d) ?n) = int (i * d)" using lt by simp
  have csize: "min (int (d + ?s)) (int ?s + int ?n - int (i * d)) = int (?s + length ?pc)"
    using lt by (auto simp: length_piece min_def of_nat_diff simp del: of_nat_mult)
  have nxt: "int (i * d) + (int (?s + length ?pc) - int ?s) = int (min (Suc i * d) ?n)"
    using lt by (auto simp: length_piece min_def of_nat_diff simp del: of_nat_mult)
  have "js_slice (i * d) (min (Suc i * d) ?n) (wp_data p) = ?pc"
    using lt by (simp add: js_slice_def piece_def min_def)
  then have sl: "js_slice (nat (int (i * d))) (nat (int (min (Suc i * d) ?n))) (wp_data p) = ?pc"
    by (simp only: nat_int)
  show ?thesis
    unfolding off
    by (subst encode_loop.simps)
      (use lt rest in \<open>simp only: Let_def csize nxt sl build_chunk_eq of_nat_less_iff if_True
        sum.case chunk_event_def chunk_bytes_def chunk_header_def Option.bind.simps prod.case
        of_nat_Suc add.commute [of _ 1]\<close>)
qed

lemma encode_loop_chunks:
  assumes "0 < d" and "i \<le> n_chunks d (length (wp_data p))"
  shows "encode_loop p (int (d + length (wp_senderIdBytes p)))
        (int (n_chunks d (length (wp_data p)))) (int (min (i * d) (length (wp_data p)))) (int i)
      = Some (map (chunk_event p d) [i..<n_chunks d (length (wp_data p))], None)"
  using assms(2)
proof (induction "n_chunks d (length (wp_data p)) - i" arbitrary: i)
  case 0
  then have "\<not> i * d < length (wp_data p)" and i: "i = n_chunks d (length (wp_data p))"
    using assms(1) less_n_chunks_iff [of d i] by auto
  then show ?case by (subst encode_loop.simps) (simp add: Let_def)
next
  case (Suc x)
  then have i: "i < n_chunks d (length (wp_data p))" by simp
  have "x = n_chunks d (length (wp_data p)) - Suc i" using Suc.hyps(2) by simp
  from Suc.hyps(1) [OF this] i
  show ?case
    by (subst encode_loop_round [OF assms(1) i]) (auto simp: upt_conv_Cons)
qed

lemma worker_onmessage_eq:
  assumes "fits p d"
  shows "worker_onmessage p =
    Some (map (chunk_event p d) [0..<n_chunks d (length (wp_data p))] @
          [DoneEvent (wp_senderId p) (wp_messageId p)], None)"
proof -
  from assms have d: "0 < d"
    and "wp_maxMessageSizeBytes p - int headerSizeBytes = int (d + length (wp_senderIdBytes p))"
    by (simp_all add: fits_def)
  moreover from d have "encode_loop p (int (d + length (wp_senderIdBytes p)))
      (int (n_chunks d (length (wp_data p)))) 0 0
    = Some (map (chunk_event p d) [0..<n_chunks d (length (wp_data p))], None)"
    using encode_loop_chunks [of d 0 p] by simp
  ultimately show ?thesis
    by (simp add: worker_onmessage_def ceil_div_eq)
qed

lemma concat_pieces: "0 < d \<Longrightarrow> concat (map (\<lambda>i. piece d i xs) [0..<n]) = take (n * d) xs"
proof (induction n)
  case 0
  then show ?case by simp
next
  case (Suc n)
  have "take (Suc n * d) xs = take (n * d) xs @ take d (drop (n * d) xs)"
    by (simp only: take_add [symmetric] mult_Suc add.commute)
  with Suc show ?case by (simp add: piece_def)
qed

lemma all_pieces: "0 < d \<Longrightarrow> concat (map (\<lambda>i. piece d i xs) [0..<n_chunks d (length xs)]) = xs"
  using less_n_chunks_iff [of d "n_chunks d (length xs)" "length xs"] by (simp add: concat_pieces)

lemma length_chunk_bytes:
  "length (chunk_bytes mid d sid data i) = headerSizeBytes + length sid + length (piece d i data)"
  by (simp add: chunk_bytes_def)

text \<open>
  C15. What the worker posts for a payload, in every case and without an exception: the one error
  event when a message of the maximal size has no room for data, otherwise the chunks number 0 to
  \<open>ceil(total / room) - 1\<close> in order and then the done event. In particular the loop ends.
\<close>

theorem worker_onmessage_complete:
  "worker_onmessage p =
    (let room = wp_maxMessageSizeBytes p - int headerSizeBytes - int (length (wp_senderIdBytes p)) in
     if room \<le> 0
     then Some ([ErrorEvent (EncoderError ''Not enough space for data.'')
                   (wp_senderId p) (wp_messageId p)], None)
     else Some (map (chunk_event p (nat room)) [0..<n_chunks (nat room) (length (wp_data p))] @
                [DoneEvent (wp_senderId p) (wp_messageId p)], None))"
proof (cases "wp_maxMessageSizeBytes p - int headerSizeBytes - int (length (wp_senderIdBytes p)) \<le> 0")
  case True
  then show ?thesis by (simp add: worker_onmessage_def)
next
  case False
  then have "fits p (nat (wp_maxMessageSizeBytes p - int headerSizeBytes -
      int (length (wp_senderIdBytes p))))"
    by (simp add: fits_def)
  with False show ?thesis by (simp add: worker_onmessage_eq Let_def)
qed

text \<open>
  C21. The chunks carry the message and respect the size limit: no posted chunk is longer than the
  maximal message size, and the data parts behind header and sender id, in the order of the
  chunks, are the data.
\<close>

theorem worker_chunks_carry_data:
  assumes "headerSizeBytes + length (wp_senderIdBytes p) < nat (wp_maxMessageSizeBytes p)"
  shows "\<exists>chunks.
    worker_onmessage p = Some (chunks @ [DoneEvent (wp_senderId p) (wp_messageId p)], None) \<and>
    (\<forall>ev \<in> set chunks. int (length (ev_chunk ev)) \<le> wp_maxMessageSizeBytes p) \<and>
    concat (map (\<lambda>ev. drop (headerSizeBytes + length (wp_senderIdBytes p)) (ev_chunk ev)) chunks)
      = wp_data p"
proof -
  obtain d where d: "fits p d"
    using assms that [of "nat (wp_maxMessageSizeBytes p) - headerSizeBytes - length (wp_senderIdBytes p)"]
    by (auto simp: fits_def)
  let ?cs = "map (chunk_event p d) [0..<n_chunks d (length (wp_data p))]"
  have "\<forall>ev \<in> set ?cs. int (length (ev_chunk ev)) \<le> wp_maxMessageSizeBytes p"
    using d by (auto simp: chunk_event_def length_chunk_bytes length_piece fits_def)
  moreover have "concat (map (\<lambda>ev. drop (headerSizeBytes + length (wp_senderIdBytes p)) (ev_chunk ev)) ?cs)
      = wp_data p"
    using d by (simp add: chunk_event_def chunk_bytes_def comp_def all_pieces fits_def)
  ultimately show ?thesis
    using worker_onmessage_eq [OF d] by blast
qed

theorem worker_chunks_carry_data_witness:
  "\<exists>chunks.
    worker_onmessage \<lparr>wp_messageId = 1, wp_maxMessageSizeBytes = 19, wp_data = [1, 2, 3],
      wp_senderId = ''a'', wp_senderIdBytes = [97]\<rparr> = Some (chunks @ [DoneEvent ''a'' 1], None) \<and>
    concat (map (\<lambda>ev. drop 17 (ev_chunk ev)) chunks) = [1, 2, 3]"
  using worker_chunks_carry_data [of "\<lparr>wp_messageId = 1, wp_maxMessageSizeBytes = 19,
      wp_data = [1, 2, 3], wp_senderId = ''a'', wp_senderIdBytes = [97]\<rparr>"]
  by (auto simp: headerSizeBytes_def)

section \<open>The encoder object\<close>

text \<open>
  The fields the methods of \<open>Encoder\<close> read and write: the counter, the payloads whose
  \<open>setTimeout\<close> has not fired yet, the pairs of listeners \<open>waitFor\<close> registers (one entry
  per promise), the promises settled so far, and the events emitted. \<open>e_errorListener\<close> tells
  whether somebody else listens for \<open>error\<close>: an event emitter throws when an error event has no
  listener.
\<close>

record encoder =
  e_counter :: int
  e_max :: int
  e_pending :: "worker_payload list"
  e_nextPromise :: nat
  e_waiters :: "(nat \<times> int) list"
  e_settled :: "(nat \<times> (js_error + encoder_event)) list"
  e_emitted :: "encoder_event list"
  e_errorListener :: bool

definition new_encoder :: "int \<Rightarrow> js_error + encoder" where
  "new_encoder maxSize =
     (if maxSize \<le> int headerSizeBytes
      then Inl (EncoderError ''maxMessageSizeBytes should be greater than headerSize'')
      else Inr \<lparr>e_counter = 0, e_max = maxSize, e_pending = [], e_nextPromise = 0,
                e_waiters = [], e_settled = [], e_emitted = [], e_errorListener = False\<rparr>)"

definition encode :: "(string \<Rightarrow> byte list) \<Rightarrow> data_container \<Rightarrow> encoder \<Rightarrow> encoder \<times> int" where
  "encode textEncode dc e =
    (let c = e_counter e + 1; c = (if c \<ge> maxMessageId then 1 else c);
         payload = \<lparr>wp_messageId = c, wp_maxMessageSizeBytes = e_max e, wp_data = dc_data dc,
                    wp_senderId = dc_senderId dc,
                    wp_senderIdBytes = textEncode (dc_senderId dc)\<rparr>
     in (e\<lparr>e_counter := c, e_pending := e_pending e @ [payload]\<rparr>, c))"

definition waitFor :: "int \<Rightarrow> encoder \<Rightarrow> encoder \<times> nat" where
  "waitFor mid e =
     (e\<lparr>e_nextPromise := Suc (e_nextPromise e),
        e_waiters := e_waiters e @ [(e_nextPromise e, mid)]\<rparr>, e_nextPromise e)"

definition settle :: "int \<Rightarrow> (js_error + encoder_event) \<Rightarrow> encoder \<Rightarrow> encoder" where
  "settle mid r e =
     e\<lparr>e_waiters := filter (\<lambda>(_, m). m \<noteq> mid) (e_waiters e),
       e_settled := e_settled e @ map (\<lambda>(w, _). (w, r)) (filter (\<lambda>(_, m). m = mid) (e_waiters e))\<rparr>"

fun emit_event :: "encoder_event \<Rightarrow> encoder \<Rightarrow> encoder \<times> js_error option" where
  "emit_event (ChunkEvent m n t s c) e =
     (e\<lparr>e_emitted := e_emitted e @ [ChunkEvent m n t s c]\<rparr>, None)"
| "emit_event (DoneEvent s m) e =
     (settle m (Inr (DoneEvent s m)) (e\<lparr>e_emitted := e_emitted e @ [DoneEvent s m]\<rparr>), None)"
| "emit_event (ErrorEvent er s m) e =
     (if e_waiters e = [] \<and> \<not> e_errorListener e
      then (e, Some (EncoderError ''Unhandled error.''))
      else (settle m (Inl er) (e\<lparr>e_emitted := e_emitted e @ [ErrorEvent er s m]\<rparr>), None))"

fun emit_events :: "encoder_event list \<Rightarrow> encoder \<Rightarrow> encoder \<times> js_error option" where
  "emit_events [] e = (e, None)"
| "emit_events (ev # evs) e =
     (case emit_event ev e of (e', None) \<Rightarrow> emit_events evs e' | (e', Some er) \<Rightarrow> (e', Some er))"

text \<open>A timer of \<open>encode\<close> fires: the worker handles the oldest payload and its messages reach
  \<open>worker.onmessage\<close>, which emits them.\<close>

definition fire :: "encoder \<Rightarrow> (encoder \<times> js_error option) option" where
  "fire e = (case e_pending e of
     [] \<Rightarrow> Some (e, None)
   | p # ps \<Rightarrow> Option.bind (worker_onmessage p) (\<lambda>(evs, err).
       (case emit_events evs (e\<lparr>e_pending := ps\<rparr>) of
          (e', None) \<Rightarrow> Some (e', err)
        | (e', Some er) \<Rightarrow> Some (e', Some er))))"

fun encode_all :: "(string \<Rightarrow> byte list) \<Rightarrow> data_container list \<Rightarrow> encoder \<Rightarrow> encoder \<times> int list" where
  "encode_all te [] e = (e, [])"
| "encode_all te (dc # dcs) e =
     (let (e', m) = encode te dc e; (e'', ms) = encode_all te dcs e' in (e'', m # ms))"

section \<open>Message identifiers\<close>

definition counter_ok :: "encoder \<Rightarrow> bool" where
  "counter_ok e \<longleftrightarrow> 0 \<le> e_counter e \<and> e_counter e < maxMessageId"

lemma encode_counter:
  "counter_ok e \<Longrightarrow> snd (encode te dc e) = e_counter e mod 65535 + 1"
  "e_counter (fst (encode te dc e)) = snd (encode te dc e)"
proof -
  assume "counter_ok e"
  then show "snd (encode te dc e) = e_counter e mod 65535 + 1"
    by (cases "e_counter e = 65535") (auto simp: encode_def Let_def counter_ok_def maxMessageId_def)
qed (simp add: encode_def Let_def)

lemma counter_ok_encode: "counter_ok e \<Longrightarrow> counter_ok (fst (encode te dc e))"
  using pos_mod_bound [of 65535 "e_counter e"]
  by (simp add: counter_ok_def encode_counter maxMessageId_def)

interpretation enc: machine "\<lambda>e dc. fst (encode te dc e)" "\<lambda>_ _. True" counter_ok for te
  by unfold_locales (simp add: counter_ok_encode)

lemma encode_all_ids:
  "counter_ok e \<Longrightarrow>
   snd (encode_all te dcs e) = map (\<lambda>k. (e_counter e + int k) mod 65535 + 1) [0..<length dcs]"
proof (induction dcs arbitrary: e)
  case Nil
  then show ?case by simp
next
  case (Cons dc dcs)
  have "snd (encode_all te (dc # dcs) e) =
      snd (encode te dc e) # snd (encode_all te dcs (fst (encode te dc e)))"
    by (simp add: Let_def split: prod.splits)
  also have "\<dots> = (e_counter e mod 65535 + 1) #
      map (\<lambda>k. (e_counter e mod 65535 + 1 + int k) mod 65535 + 1) [0..<length dcs]"
    using Cons by (simp add: encode_counter counter_ok_encode)
  also have "\<dots> = map (\<lambda>k. (e_counter e + int k) mod 65535 + 1) [0..<length (dc # dcs)]"
  proof -
    have "(e_counter e mod 65535 + 1 + int k) mod 65535 = (e_counter e + int (Suc k)) mod 65535" for k
      using mod_add_left_eq [of "e_counter e" 65535 "1 + int k"] by (simp add: add.assoc)
    then show ?thesis
      by (simp add: upt_conv_Cons map_Suc_upt [symmetric] comp_def del: upt_Suc of_nat_Suc)
  qed
  finally show ?case .
qed

text \<open>
  C22. The counter gives every message an identifier from 1 to 65535, and no two of any 65535
  messages encoded one after the other share an identifier, wherever the counter stands when the
  first of them is encoded.
\<close>

theorem encode_ids_distinct:
  assumes "0 \<le> e_counter e" and "e_counter e < maxMessageId" and "length dcs \<le> 65535"
  shows "distinct (snd (encode_all te dcs e)) \<and>
    (\<forall>m \<in> set (snd (encode_all te dcs e)). 1 \<le> m \<and> m \<le> 65535)"
proof -
  have ids: "snd (encode_all te dcs e) =
      map (\<lambda>k. (e_counter e + int k) mod 65535 + 1) [0..<length dcs]"
    using assms by (intro encode_all_ids) (simp add: counter_ok_def)
  have "inj_on (\<lambda>k. (e_counter e + int k) mod 65535 + 1) {0..<length dcs}"
  proof (rule inj_onI)
    fix i j
    assume ij: "i \<in> {0..<length dcs}" "j \<in> {0..<length dcs}"
      and eq: "(e_counter e + int i) mod 65535 + 1 = (e_counter e + int j) mod 65535 + 1"
    then have "(65535::int) dvd int i - int j"
      by (simp add: mod_eq_dvd_iff)
    moreover have "\<bar>int i - int j\<bar> < 65535"
      using ij assms(3) by auto
    ultimately have "int i - int j = 0"
      using zdvd_not_zless [of "\<bar>int i - int j\<bar>" 65535] by fastforce
    then show "i = j" by simp
  qed
  moreover have "1 \<le> x mod 65535 + 1 \<and> x mod 65535 + 1 \<le> 65535" for x :: int
    using pos_mod_bound [of 65535 x] pos_mod_sign [of 65535 x] by linarith
  ultimately show ?thesis
    by (auto simp: ids distinct_map)
qed

section \<open>The promises of waitFor\<close>

lemma emit_chunks:
  "emit_events (map (chunk_event p d) is @ evs) e =
   emit_events evs (e\<lparr>e_emitted := e_emitted e @ map (chunk_event p d) is\<rparr>)"
  by (induction "is" arbitrary: e) (simp_all add: chunk_event_def)

definition outcome :: "worker_payload \<Rightarrow> js_error + encoder_event" where
  "outcome p =
    (if wp_maxMessageSizeBytes p \<le> int (headerSizeBytes + length (wp_senderIdBytes p))
     then Inl (EncoderError ''Not enough space for data.'')
     else Inr (DoneEvent (wp_senderId p) (wp_messageId p)))"

lemma fire_settles:
  assumes pend: "e_pending e = p # ps" and w: "(w, wp_messageId p) \<in> set (e_waiters e)"
  shows "\<exists>e'. fire e = Some (e', None) \<and> e_pending e' = ps \<and>
    (w, outcome p) \<in> set (e_settled e') \<and>
    e_waiters e' = filter (\<lambda>(_, m). m \<noteq> wp_messageId p) (e_waiters e)"
proof -
  let ?room = "wp_maxMessageSizeBytes p - int headerSizeBytes - int (length (wp_senderIdBytes p))"
  from w have ne: "e_waiters e \<noteq> []" by auto
  show ?thesis
  proof (cases "?room \<le> 0")
    case True
    then show ?thesis
      using pend w ne
      by (force simp: fire_def worker_onmessage_def Let_def settle_def outcome_def)
  next
    case False
    then have "fits p (nat ?room)" by (simp add: fits_def)
    then show ?thesis
      using False pend w
      by (force simp: fire_def worker_onmessage_eq emit_chunks settle_def outcome_def)
  qed
qed

text \<open>
  C23. A promise of \<open>waitFor\<close> is settled when the timer of its message fires: rejected with the
  worker's error when the sender id leaves no room for data, resolved with the done event
  otherwise. The promises that wait for other messages keep waiting, and nothing is thrown.
\<close>

theorem fire_settles_waiters:
  assumes "e_pending e = p # ps" and "(w, wp_messageId p) \<in> set (e_waiters e)"
  shows "\<exists>e'. fire e = Some (e', None) \<and> e_pending e' = ps \<and>
    (w, if wp_maxMessageSizeBytes p \<le> int (headerSizeBytes + length (wp_senderIdBytes p))
        then Inl (EncoderError ''Not enough space for data.'')
        else Inr (DoneEvent (wp_senderId p) (wp_messageId p))) \<in> set (e_settled e') \<and>
    e_waiters e' = filter (\<lambda>(_, m). m \<noteq> wp_messageId p) (e_waiters e)"
  using fire_settles [OF assms] by (simp only: outcome_def)

theorem fire_settles_waiters_witness:
  "\<exists>e'. fire (fst (waitFor 1 (fst (encode (\<lambda>_. [97]) \<lparr>dc_senderId = ''a'', dc_data = [5]\<rparr>
      \<lparr>e_counter = 0, e_max = 100, e_pending = [], e_nextPromise = 0, e_waiters = [],
       e_settled = [], e_emitted = [], e_errorListener = False\<rparr>)))) = Some (e', None) \<and>
    (0, Inr (DoneEvent ''a'' 1)) \<in> set (e_settled e')"
  using fire_settles_waiters [of "fst (waitFor 1 (fst (encode (\<lambda>_. [97])
      \<lparr>dc_senderId = ''a'', dc_data = [5]\<rparr>
      \<lparr>e_counter = 0, e_max = 100, e_pending = [], e_nextPromise = 0, e_waiters = [],
       e_settled = [], e_emitted = [], e_errorListener = False\<rparr>)))"
      "\<lparr>wp_messageId = 1, wp_maxMessageSizeBytes = 100, wp_data = [5], wp_senderId = ''a'',
        wp_senderIdBytes = [97]\<rparr>" "[]" 0]
  by (auto simp: waitFor_def encode_def Let_def maxMessageId_def headerSizeBytes_def)

theorem encode_ids_distinct_witness:
  "distinct (snd (encode_all (\<lambda>_. [97]) (replicate 3 \<lparr>dc_senderId = ''a'', dc_data = [5]\<rparr>)
      \<lparr>e_counter = 65534, e_max = 100, e_pending = [], e_nextPromise = 0, e_waiters = [],
       e_settled = [], e_emitted = [], e_errorListener = False\<rparr>))"
  using encode_ids_distinct [of "\<lparr>e_counter = 65534, e_max = 100, e_pending = [],
      e_nextPromise = 0, e_waiters = [], e_settled = [], e_emitted = [], e_errorListener = False\<rparr>"
      "replicate 3 \<lparr>dc_senderId = ''a'', dc_data = [5]\<rparr>" "\<lambda>_. [97]"]
  by (simp add: maxMessageId_def)

end
