(* ===== verification/Decoder.thy ===== *)
theory Decoder
  imports Encoder
begin

text \<open>
  The receiving half of \<open>codec/index.ts\<close>: \<open>Decoder.decode\<close> with its containers by
  message, every exception included, and the theorem that a message is put together again
  whatever the order of its chunks and whatever other chunks arrive between them.
\<close>

section \<open>Model\<close>

record chunk_container =
  cc_senderId :: string
  cc_data :: "byte list"
  cc_chunksReceived :: int
  cc_totalChunks :: int

type_synonym decoder = "chunk_container obj"

text \<open>A whole number as the string JavaScript makes of it.\<close>

definition digit :: "nat \<Rightarrow> char" where
  "digit n = char_of (48 + n)"

fun dec_nat :: "nat \<Rightarrow> string" where
  "dec_nat n = (if n < 10 then [digit n] else dec_nat (n div 10) @ [digit (n mod 10)])"

definition js_string :: "int \<Rightarrow> string" where
  "js_string x = (if x < 0 then CHR ''-'' # dec_nat (nat (- x)) else dec_nat (nat x))"

definition message_key :: "string \<Rightarrow> int \<Rightarrow> string" where
  "message_key senderId mid = senderId @ ''_'' @ js_string mid"

definition decode ::
  "(byte list \<Rightarrow> string) \<Rightarrow> decoder \<Rightarrow> byte list \<Rightarrow> decoder \<times> (js_error + data_container option)"
where
  "decode textDecode chunksByMessageId input =
    (let header = decodeHeader input;
         dataStart = headerSizeBytes + nat (senderIdSizeBytes header);
         dataSize = chunkSizeBytes header - senderIdSizeBytes header;
         senderId = textDecode (js_slice headerSizeBytes dataStart input);
         id = message_key senderId (messageId header);
         found = (case oget chunksByMessageId id of
             Some c \<Rightarrow> Inr c
           | None \<Rightarrow> andThen (new_u8 (totalSizeBytes header)) (\<lambda>zeros.
               Inr \<lparr>cc_senderId = senderId, cc_data = zeros, cc_chunksReceived = 0,
                    cc_totalChunks = totalChunks header\<rparr>))
     in case found of
       Inl e \<Rightarrow> (chunksByMessageId, Inl e)
     | Inr container \<Rightarrow>
         let chunksByMessageId = oset id container chunksByMessageId;
             isLastChunk = (chunkNum header = totalChunks header - 1);
             offset = (if isLastChunk then int (length (cc_data container)) - dataSize
                       else chunkNum header * dataSize)
         in (case ta_set (cc_data container) (drop dataStart input) offset of
           Inl e \<Rightarrow> (chunksByMessageId, Inl e)
         | Inr data \<Rightarrow>
             let container = container\<lparr>cc_data := data,
                   cc_chunksReceived := cc_chunksReceived container + 1\<rparr>;
                 chunksByMessageId = oset id container chunksByMessageId
             in if cc_chunksReceived container = cc_totalChunks container
                then (odel id chunksByMessageId,
                      Inr (Some \<lparr>dc_senderId = cc_senderId container,
                                 dc_data = cc_data container\<rparr>))
                else (chunksByMessageId, Inr None)))"

fun decode_all ::
  "(byte list \<Rightarrow> string) \<Rightarrow> decoder \<Rightarrow> byte list list \<Rightarrow>
   decoder \<times> (js_error + data_container option) list"
where
  "decode_all td ds [] = (ds, [])"
| "decode_all td ds (c # cs) =
     (let (ds', r) = decode td ds c; (ds'', rs) = decode_all td ds' cs in (ds'', r # rs))"

section \<open>The container a chunk belongs to\<close>

definition chunk_key :: "(byte list \<Rightarrow> string) \<Rightarrow> byte list \<Rightarrow> string" where
  "chunk_key td input =
    (let header = decodeHeader input;
         dataStart = headerSizeBytes + nat (senderIdSizeBytes header)
     in message_key (td (js_slice headerSizeBytes dataStart input)) (messageId header))"

text \<open>
  \<open>accept\<close> is \<open>decode\<close> seen from one container: what the call does to the entry of its own
  key, and what it returns.
\<close>

definition accept ::
  "(byte list \<Rightarrow> string) \<Rightarrow> chunk_container option \<Rightarrow> byte list \<Rightarrow>
   chunk_container option \<times> (js_error + data_container option)"
where
  "accept td c input =
    (let ds = (case c of None \<Rightarrow> [] | Some c \<Rightarrow> [(chunk_key td input, c)]);
         (ds', r) = decode td ds input
     in (oget ds' (chunk_key td input), r))"

lemma decode_other:
  assumes "k \<noteq> chunk_key td input"
  shows "oget (fst (decode td ds input)) k = oget ds k"
  using assms unfolding decode_def chunk_key_def Let_def
  by (cases "oget ds (chunk_key td input)") (simp_all add: chunk_key_def Let_def split: sum.split)

lemma decode_own:
  assumes "oget ds (chunk_key td input) = oget ds' (chunk_key td input)"
  shows "snd (decode td ds input) = snd (decode td ds' input)"
    and "oget (fst (decode td ds input)) (chunk_key td input) =
      oget (fst (decode td ds' input)) (chunk_key td input)"
  using assms unfolding decode_def chunk_key_def Let_def
  by (cases "oget ds' (chunk_key td input)"; simp add: chunk_key_def Let_def split: sum.split)+

lemma decode_accept:
  "(oget (fst (decode td ds input)) (chunk_key td input), snd (decode td ds input)) =
   accept td (oget ds (chunk_key td input)) input"
proof -
  let ?ds = "case oget ds (chunk_key td input) of None \<Rightarrow> [] | Some c \<Rightarrow> [(chunk_key td input, c)]"
  have "oget ds (chunk_key td input) = oget ?ds (chunk_key td input)"
    by (simp split: option.split)
  from decode_own [OF this] show ?thesis
    by (simp only: accept_def split_beta Let_def)
qed

fun accept_all ::
  "(byte list \<Rightarrow> string) \<Rightarrow> chunk_container option \<Rightarrow> byte list list \<Rightarrow>
   chunk_container option \<times> (js_error + data_container option) list"
where
  "accept_all td c [] = (c, [])"
| "accept_all td c (x # xs) =
     (let (c', r) = accept td c x; (c'', rs) = accept_all td c' xs in (c'', r # rs))"

definition results_for ::
  "(byte list \<Rightarrow> string) \<Rightarrow> string \<Rightarrow> byte list list \<Rightarrow> 'r list \<Rightarrow> 'r list"
where
  "results_for td k cs rs = map snd (filter (\<lambda>(c, _). chunk_key td c = k) (zip cs rs))"

text \<open>The entry of a key, and what the calls for that key return, depend on the chunks with that
  key only.\<close>

lemma decode_all_projection:
  "(oget (fst (decode_all td ds cs)) k, results_for td k cs (snd (decode_all td ds cs))) =
   accept_all td (oget ds k) (filter (\<lambda>c. chunk_key td c = k) cs)"
proof (induction cs arbitrary: ds)
  case Nil
  then show ?case by (simp add: results_for_def)
next
  case (Cons c cs)
  note IH = Cons.IH [of "fst (decode td ds c)"]
  show ?case
  proof (cases "chunk_key td c = k")
    case True
    with decode_accept [of td ds c]
    have "accept td (oget ds k) c = (oget (fst (decode td ds c)) k, snd (decode td ds c))"
      by simp
    with True IH [symmetric] show ?thesis
      by (simp add: results_for_def split_beta)
  next
    case False
    with decode_other [of k td c ds] IH show ?thesis
      by (simp add: results_for_def split_beta)
  qed
qed

section \<open>Putting a message together\<close>

definition valid_message :: "int \<Rightarrow> nat \<Rightarrow> byte list \<Rightarrow> byte list \<Rightarrow> bool" where
  "valid_message mid d sid data \<longleftrightarrow>
     0 \<le> mid \<and> mid < 2 ^ 16 \<and> 0 < d \<and> length sid < 2 ^ 16 \<and> length sid + d < 2 ^ 31 \<and>
     n_chunks d (length data) < 2 ^ 16 \<and> length data < 2 ^ 31"

lemma valid_chunk_header:
  assumes "valid_message mid d sid data" and "i < n_chunks d (length data)"
  shows "valid_header (chunk_header mid d sid data i)"
proof -
  have "length sid + length (piece d i data) < 2 ^ 31"
    using assms(1) by (auto simp: valid_message_def length_piece)
  then have "int (length sid + length (piece d i data)) < 2 ^ 31"
    by (metis of_nat_less_numeral_power_cancel_iff)
  moreover have "int i < 2 ^ 16" "int (n_chunks d (length data)) < 2 ^ 16"
      "int (length sid) < 2 ^ 16" "int (length data) < 2 ^ 31"
    using assms by (simp_all add: valid_message_def)
  ultimately show ?thesis
    using assms(1) by (simp add: valid_header_def chunk_header_def valid_message_def)
qed

lemma chunk_parts:
  assumes "valid_message mid d sid data" and "i < n_chunks d (length data)"
  shows "decodeHeader (chunk_bytes mid d sid data i) = chunk_header mid d sid data i"
    and "js_slice headerSizeBytes (headerSizeBytes + length sid) (chunk_bytes mid d sid data i) = sid"
    and "drop (headerSizeBytes + length sid) (chunk_bytes mid d sid data i) = piece d i data"
  using hdr.packet_header [OF valid_chunk_header [OF assms]]
  by (simp_all add: chunk_bytes_def hdr.packet_sender)

lemma chunk_key_chunk_bytes:
  assumes "valid_message mid d sid data" and "i < n_chunks d (length data)"
  shows "chunk_key td (chunk_bytes mid d sid data i) = message_key (td sid) mid"
  using chunk_parts [OF assms] by (simp add: chunk_key_def Let_def chunk_header_def)

text \<open>The data of a container that has received the chunks of the set \<open>S\<close>.\<close>

definition filled :: "nat \<Rightarrow> byte list \<Rightarrow> nat set \<Rightarrow> byte list" where
  "filled d data S = map (\<lambda>j. if j div d \<in> S then data ! j else 0) [0..<length data]"

lemma length_filled [simp]: "length (filled d data S) = length data"
  by (simp add: filled_def)

lemma filled_empty: "filled d data {} = replicate (length data) 0"
  by (simp add: filled_def map_replicate_trivial)

lemma filled_all: "0 < d \<Longrightarrow> {0..<n_chunks d (length data)} \<subseteq> S \<Longrightarrow> filled d data S = data"
proof (rule nth_equalityI)
  fix j
  assume d: "0 < d" and S: "{0..<n_chunks d (length data)} \<subseteq> S" and "j < length (filled d data S)"
  then have j: "j < length data" by simp
  have "j div d * d \<le> j" by (rule div_times_less_eq_dividend)
  then have "j div d * d < length data" using j by linarith
  then have "j div d < n_chunks d (length data)"
    using d by (simp add: less_n_chunks_iff)
  with S j show "filled d data S ! j = data ! j" by (auto simp: filled_def)
qed simp

lemma ta_set_filled:
  assumes d: "0 < d" and i: "i < n_chunks d (length data)"
  shows "ta_set (filled d data S) (piece d i data) (int (i * d)) = Inr (filled d data (insert i S))"
proof -
  from d i have lt: "i * d < length data" by (simp add: less_n_chunks_iff)
  then have "\<exists>r. ta_set (filled d data S) (piece d i data) (int (i * d)) = Inr r"
    by (auto simp: ta_set_Inr_iff length_piece simp del: of_nat_mult)
  then obtain r where r: "ta_set (filled d data S) (piece d i data) (int (i * d)) = Inr r" ..
  have "r = filled d data (insert i S)"
  proof (rule nth_equalityI)
    show "length r = length (filled d data (insert i S))"
      using ta_set_length [OF r] by simp
  next
    fix j
    assume "j < length r"
    then have j: "j < length data" using ta_set_length [OF r] by simp
    have "j div d = i \<longleftrightarrow> i * d \<le> j \<and> j < i * d + d"
      using d by (auto simp: div_nat_eqI mult.commute dividend_less_times_div add.commute)
    with lt j show "r ! j = filled d data (insert i S) ! j"
      by (subst ta_set_nth [OF r])
        (auto simp: filled_def piece_def simp del: of_nat_mult)
  qed
  with r show ?thesis by simp
qed

definition container :: "string \<Rightarrow> nat \<Rightarrow> byte list \<Rightarrow> nat set \<Rightarrow> chunk_container option" where
  "container s d data S =
    (if S = {} then None
     else Some \<lparr>cc_senderId = s, cc_data = filled d data S, cc_chunksReceived = int (card S),
                cc_totalChunks = int (n_chunks d (length data))\<rparr>)"

lemma chunk_offset:
  assumes "0 < d" and "i < n_chunks d (length data)"
  shows "(if int i = int (n_chunks d (length data)) - 1
          then int (length data) - int (length (piece d i data))
          else int i * int (length (piece d i data))) = int (i * d)"
proof (cases "Suc i = n_chunks d (length data)")
  case True
  from assms have "i * d < length data" by (simp add: less_n_chunks_iff)
  moreover have "length data \<le> i * d + d"
    using True [symmetric] assms(1) less_n_chunks_iff [of d "Suc i" "length data"] by simp
  ultimately show ?thesis
    using True [symmetric] by (auto simp: length_piece min_def of_nat_diff simp del: of_nat_mult)
next
  case False
  with assms have "Suc i < n_chunks d (length data)" by simp
  with assms(1) have "Suc i * d < length data" by (simp add: less_n_chunks_iff)
  with False assms(2) show ?thesis by (auto simp: length_piece)
qed

text \<open>\<open>decode\<close> on a chunk that fits its container.\<close>

lemma decode_fitting:
  assumes "decodeHeader input = h" and "nat (senderIdSizeBytes h) = n"
    and "js_slice headerSizeBytes (headerSizeBytes + n) input = sb"
    and "drop (headerSizeBytes + n) input = payload"
    and "k = message_key (td sb) (messageId h)"
    and "0 \<le> totalSizeBytes h"
    and "c = (case oget ds k of Some c \<Rightarrow> c
        | None \<Rightarrow> \<lparr>cc_senderId = td sb, cc_data = replicate (nat (totalSizeBytes h)) 0,
                 cc_chunksReceived = 0, cc_totalChunks = totalChunks h\<rparr>)"
    and "(if chunkNum h = totalChunks h - 1
          then int (length (cc_data c)) - (chunkSizeBytes h - senderIdSizeBytes h)
          else chunkNum h * (chunkSizeBytes h - senderIdSizeBytes h)) = off"
    and "ta_set (cc_data c) payload off = Inr bs"
    and "c' = c\<lparr>cc_data := bs, cc_chunksReceived := cc_chunksReceived c + 1\<rparr>"
  shows "decode td ds input =
    (if cc_chunksReceived c' = cc_totalChunks c'
     then (odel k (oset k c' (oset k c ds)),
           Inr (Some \<lparr>dc_senderId = cc_senderId c', dc_data = cc_data c'\<rparr>))
     else (oset k c' (oset k c ds), Inr None))"
proof -
  have "(case oget ds k of Some c \<Rightarrow> Inr c
      | None \<Rightarrow> andThen (new_u8 (totalSizeBytes h)) (\<lambda>zeros.
          Inr \<lparr>cc_senderId = td sb, cc_data = zeros, cc_chunksReceived = 0,
               cc_totalChunks = totalChunks h\<rparr>)) = Inr c"
    using assms(6,7) by (simp add: new_u8_def split: option.split)
  then show ?thesis
    by (simp only: decode_def Let_def assms(1-5) assms(8-10) sum.case)
qed

lemma full_iff:
  assumes "S \<subseteq> {0..<n}" and "i \<notin> S" and "i < n"
  shows "int (card S) + 1 = int n \<longleftrightarrow> insert i S = {0..<n}"
proof -
  have "finite S" using assms(1) finite_subset by blast
  then have c: "card (insert i S) = Suc (card S)" using assms(2) by simp
  show ?thesis
  proof
    assume "int (card S) + 1 = int n"
    with c have "card (insert i S) = card {0..<n}" by simp
    then show "insert i S = {0..<n}"
      using assms by (intro card_subset_eq) auto
  next
    assume "insert i S = {0..<n}"
    with c have "Suc (card S) = card {0..<n}" by metis
    then show "int (card S) + 1 = int n" by simp
  qed
qed

lemma accept_chunk:
  assumes vm: "valid_message mid d sid data" and i: "i < n_chunks d (length data)"
    and S: "S \<subseteq> {0..<n_chunks d (length data)}" "i \<notin> S"
  shows "accept td (container (td sid) d data S) (chunk_bytes mid d sid data i) =
    (if insert i S = {0..<n_chunks d (length data)}
     then (None, Inr (Some \<lparr>dc_senderId = td sid, dc_data = data\<rparr>))
     else (container (td sid) d data (insert i S), Inr None))"
proof -
  from vm have d: "0 < d" by (simp add: valid_message_def)
  have fin: "finite S" using S(1) finite_subset by blast
  note card = full_iff [OF S i]
  note parts = chunk_parts [OF vm i] chunk_key_chunk_bytes [OF vm i, of td]
  define k where "k = message_key (td sid) mid"
  define c where "c = \<lparr>cc_senderId = td sid, cc_data = filled d data S,
    cc_chunksReceived = int (card S), cc_totalChunks = int (n_chunks d (length data))\<rparr>"
  define c' where "c' = c\<lparr>cc_data := filled d data (insert i S),
    cc_chunksReceived := cc_chunksReceived c + 1\<rparr>"
  define ds where "ds = (case container (td sid) d data S of None \<Rightarrow> [] | Some c \<Rightarrow> [(k, c)])"
  let ?h = "chunk_header mid d sid data i"
  have off: "(if chunkNum ?h = totalChunks ?h - 1
      then int (length (cc_data c)) - (chunkSizeBytes ?h - senderIdSizeBytes ?h)
      else chunkNum ?h * (chunkSizeBytes ?h - senderIdSizeBytes ?h)) = int (i * d)"
    using chunk_offset [OF d i]
    by (simp only: chunk_header_def header.simps c_def chunk_container.simps length_filled
        of_nat_add add_diff_cancel_left')
  have "decode td ds (chunk_bytes mid d sid data i) =
    (if cc_chunksReceived c' = cc_totalChunks c'
     then (odel k (oset k c' (oset k c ds)),
           Inr (Some \<lparr>dc_senderId = cc_senderId c', dc_data = cc_data c'\<rparr>))
     else (oset k c' (oset k c ds), Inr None))"
    by (rule decode_fitting [where n = "length sid", OF parts(1) _ parts(2,3) _ _ _ off])
      (use ta_set_filled [OF d i, of S] in
        \<open>simp_all add: chunk_header_def k_def ds_def c_def c'_def container_def filled_empty\<close>)
  moreover have "filled d data (insert i S) = data" if "insert i S = {0..<n_chunks d (length data)}"
    using d that by (simp add: filled_all)
  moreover have "accept td (container (td sid) d data S) (chunk_bytes mid d sid data i) =
      (case decode td ds (chunk_bytes mid d sid data i) of (ds', r) \<Rightarrow> (oget ds' k, r))"
    by (simp only: accept_def parts(4) k_def ds_def Let_def)
  moreover have "container (td sid) d data (insert i S) = Some c'"
    using fin S(2) by (simp add: container_def c_def c'_def)
  ultimately show ?thesis
    using card by (simp add: c'_def c_def)
qed

lemma accept_all_message:
  assumes vm: "valid_message mid d sid data"
  shows "distinct idx \<Longrightarrow> idx \<noteq> [] \<Longrightarrow> set idx \<inter> S = {} \<Longrightarrow>
    set idx \<union> S = {0..<n_chunks d (length data)} \<Longrightarrow>
    accept_all td (container (td sid) d data S) (map (chunk_bytes mid d sid data) idx) =
      (None, replicate (length idx - 1) (Inr None) @
        [Inr (Some \<lparr>dc_senderId = td sid, dc_data = data\<rparr>)])"
proof (induction idx arbitrary: S)
  case Nil
  then show ?case by simp
next
  case (Cons i idx)
  then have i: "i < n_chunks d (length data)" and S: "S \<subseteq> {0..<n_chunks d (length data)}" "i \<notin> S"
    by auto
  note step = accept_chunk [OF vm i S, of td]
  show ?case
  proof (cases "idx = []")
    case True
    with Cons.prems have "insert i S = {0..<n_chunks d (length data)}" by auto
    with step True show ?thesis by simp
  next
    case False
    with Cons.prems have ne: "insert i S \<noteq> {0..<n_chunks d (length data)}"
      by (cases idx) auto
    have "accept_all td (container (td sid) d data (insert i S)) (map (chunk_bytes mid d sid data) idx)
      = (None, replicate (length idx - 1) (Inr None) @
          [Inr (Some \<lparr>dc_senderId = td sid, dc_data = data\<rparr>)])"
      using Cons.prems False by (intro Cons.IH) auto
    with step ne False show ?thesis
      by (cases idx) (simp_all add: split_beta)
  qed
qed

lemma decode_message:
  assumes vm: "valid_message mid d sid data" and ne: "data \<noteq> []"
    and key: "k = message_key (td sid) mid" and fresh: "oget ds k = None"
    and perm: "mset (filter (\<lambda>c. chunk_key td c = k) cs) = mset (message_chunks mid d sid data)"
  shows "results_for td k cs (snd (decode_all td ds cs)) =
      replicate (n_chunks d (length data) - 1) (Inr None) @
        [Inr (Some \<lparr>dc_senderId = td sid, dc_data = data\<rparr>)]"
    and "oget (fst (decode_all td ds cs)) k = None"
proof -
  obtain idx where idx: "filter (\<lambda>c. chunk_key td c = k) cs = map (chunk_bytes mid d sid data) idx"
      "mset idx = mset [0..<n_chunks d (length data)]"
    using mset_map_reorder perm unfolding message_chunks_def by blast
  then have "distinct idx" and set: "set idx = {0..<n_chunks d (length data)}"
      and len: "length idx = n_chunks d (length data)"
    using mset_eq_imp_distinct_iff [OF idx(2)] mset_eq_setD [OF idx(2)] mset_eq_length [OF idx(2)]
    by simp_all
  moreover from len have "idx \<noteq> []"
    using ne vm less_n_chunks_iff [of d 0 "length data"] by (auto simp: valid_message_def)
  ultimately have
    "(oget (fst (decode_all td ds cs)) k, results_for td k cs (snd (decode_all td ds cs))) =
     (None, replicate (n_chunks d (length data) - 1) (Inr None) @
        [Inr (Some \<lparr>dc_senderId = td sid, dc_data = data\<rparr>)])"
    using accept_all_message [OF vm, of idx "{}" td]
    unfolding decode_all_projection idx(1) fresh by (auto simp: container_def)
  then show "results_for td k cs (snd (decode_all td ds cs)) =
      replicate (n_chunks d (length data) - 1) (Inr None) @
        [Inr (Some \<lparr>dc_senderId = td sid, dc_data = data\<rparr>)]"
    and "oget (fst (decode_all td ds cs)) k = None"
    by simp_all
qed

section \<open>Keys\<close>

declare dec_nat.simps [simp del]

lemma of_char_digit: "m < 10 \<Longrightarrow> of_char (digit m) = (48 + m :: nat)"
  by (simp add: digit_def of_char_of)

lemma set_dec_nat: "dec_nat n \<noteq> [] \<and> (\<forall>c \<in> set (dec_nat n). (of_char c :: nat) \<in> {48..<58})"
proof (induction n rule: dec_nat.induct)
  case (1 n)
  show ?case
  proof (cases "n < 10")
    case True
    then show ?thesis by (subst (1 2) dec_nat.simps) (simp add: of_char_digit)
  next
    case False
    with "1" show ?thesis
      by (subst (1 2) dec_nat.simps) (auto simp: of_char_digit)
  qed
qed

lemma dec_nat_no_sep: "CHR ''_'' \<notin> set (dec_nat n)" "CHR ''-'' \<notin> set (dec_nat n)"
  using set_dec_nat [of n] by (fastforce simp: of_char_def)+

definition undec :: "string \<Rightarrow> nat" where
  "undec s = foldl (\<lambda>acc c. 10 * acc + (of_char c - 48)) 0 s"

lemma undec_dec_nat: "undec (dec_nat n) = n"
proof (induction n rule: dec_nat.induct)
  case (1 n)
  then show ?case
    by (cases "n < 10"; subst dec_nat.simps) (simp_all add: undec_def of_char_digit)
qed

lemma dec_nat_inject: "dec_nat m = dec_nat n \<longleftrightarrow> m = n"
  by (metis undec_dec_nat)

lemma dec_nat_not_minus: "dec_nat n \<noteq> CHR ''-'' # s"
  using dec_nat_no_sep(2) [of n] by (metis list.set_intros(1))

lemma js_string_inject: "js_string x = js_string y \<longleftrightarrow> x = y"
  by (simp add: js_string_def dec_nat_inject dec_nat_not_minus dec_nat_not_minus [symmetric]
      eq_nat_nat_iff)

lemma js_string_no_underscore: "CHR ''_'' \<notin> set (js_string x)"
  using dec_nat_no_sep(1) by (simp add: js_string_def)

lemma split_last_sep:
  assumes "xs @ c # ys = xs' @ c # ys'" and "c \<notin> set ys" and "c \<notin> set ys'"
  shows "xs = xs' \<and> ys = ys'"
proof -
  have "rev ys @ c # rev xs = rev ys' @ c # rev xs'"
    using arg_cong [OF assms(1), of rev] by simp
  moreover have "takeWhile ((\<noteq>) c) (rev zs @ c # ws) = rev zs" if "c \<notin> set zs" for zs ws
    using that by (subst takeWhile_append2) auto
  ultimately have "rev ys = rev ys'"
    using assms(2,3) by metis
  with assms(1) show ?thesis by simp
qed

text \<open>
  Containers of different messages never share a key: from the key, which joins sender and
  message number by an underscore, both can be read back, even when the sender's name has
  underscores and digits of its own.
\<close>

lemma message_key_inject:
  "message_key s m = message_key s' m' \<longleftrightarrow> s = s' \<and> m = m'"
proof
  assume "message_key s m = message_key s' m'"
  then have "s @ CHR ''_'' # js_string m = s' @ CHR ''_'' # js_string m'"
    by (simp add: message_key_def)
  from split_last_sep [OF this js_string_no_underscore js_string_no_underscore]
  show "s = s' \<and> m = m'" by (simp add: js_string_inject)
qed simp

section \<open>End to end\<close>

text \<open>
  C6. A message survives the network. Take what the worker posted for a non-empty payload within
  the limits of the header, and any sequence of packets in which the packets with the message's
  key are exactly these chunks, in any order, with anything else between them (chunks of other
  messages, malformed packets). Then the calls of \<open>decode\<close> for the message's packets return
  \<open>null\<close> until the last of them, which returns the sender and the data, and the container is
  gone.
\<close>

theorem codec_reassembles:
  assumes posted: "worker_onmessage p =
      Some (chunks @ [DoneEvent (wp_senderId p) (wp_messageId p)], None)"
    and name: "td (wp_senderIdBytes p) = wp_senderId p"
    and "0 \<le> wp_messageId p" and "wp_messageId p < 2 ^ 16"
    and "wp_maxMessageSizeBytes p < 2 ^ 31" and "length (wp_senderIdBytes p) < 2 ^ 16"
    and "wp_data p \<noteq> []" and "length (wp_data p) < 2 ^ 31" and "length chunks < 2 ^ 16"
    and fresh: "oget ds (message_key (wp_senderId p) (wp_messageId p)) = None"
    and packets: "mset (filter (\<lambda>c. chunk_key td c = message_key (wp_senderId p) (wp_messageId p)) cs)
      = mset (map ev_chunk chunks)"
  shows "results_for td (message_key (wp_senderId p) (wp_messageId p)) cs (snd (decode_all td ds cs))
      = replicate (length chunks - 1) (Inr None) @
        [Inr (Some \<lparr>dc_senderId = wp_senderId p, dc_data = wp_data p\<rparr>)] \<and>
    oget (fst (decode_all td ds cs)) (message_key (wp_senderId p) (wp_messageId p)) = None"
proof -
  let ?room = "wp_maxMessageSizeBytes p - int headerSizeBytes - int (length (wp_senderIdBytes p))"
  let ?d = "nat ?room"
  have room: "0 < ?room"
    using posted worker_onmessage_def [of p] by (auto simp: Let_def split: if_splits)
  then have "fits p ?d" by (simp add: fits_def)
  from worker_onmessage_eq [OF this] posted
  have ch: "chunks = map (chunk_event p ?d) [0..<n_chunks ?d (length (wp_data p))]" by simp
  then have mc: "map ev_chunk chunks =
      message_chunks (wp_messageId p) ?d (wp_senderIdBytes p) (wp_data p)"
    by (simp add: message_chunks_def chunk_event_def)
  have len: "length chunks = n_chunks ?d (length (wp_data p))" by (simp add: ch)
  have "valid_message (wp_messageId p) ?d (wp_senderIdBytes p) (wp_data p)"
    unfolding valid_message_def using assms(3-6,8,9) room len
    by (simp add: nat_less_iff headerSizeBytes_def)
  from decode_message [OF this \<open>wp_data p \<noteq> []\<close>, of "message_key (wp_senderId p) (wp_messageId p)" td ds cs]
  show ?thesis
    using name fresh packets by (simp add: mc len)
qed

text \<open>
  The only exception \<open>decode\<close> throws is the range error of the typed arrays, and a call,
  failing or not, touches no container but the one of its own packet.
\<close>

lemma decode_isolated:
  "(\<exists>r. snd (decode td ds input) \<in> {Inl RangeError, Inr r}) \<and>
   oget (fst (decode td ds input)) |` (- {chunk_key td input}) = oget ds |` (- {chunk_key td input})"
proof
  show "\<exists>r. snd (decode td ds input) \<in> {Inl RangeError, Inr r}"
    by (cases "oget ds (chunk_key td input)")
      (auto simp: decode_def chunk_key_def Let_def new_u8_def ta_set_def split: sum.split)
  show "oget (fst (decode td ds input)) |` (- {chunk_key td input}) =
      oget ds |` (- {chunk_key td input})"
    by (rule ext) (simp add: restrict_map_def decode_other)
qed

text \<open>The witness of the end-to-end theorem: three bytes in two chunks, received in reverse order
  with an empty packet between them.\<close>

definition sample_payload :: worker_payload where
  "sample_payload = \<lparr>wp_messageId = 1, wp_maxMessageSizeBytes = 19, wp_data = [1, 2, 3],
     wp_senderId = ''a'', wp_senderIdBytes = [97]\<rparr>"

definition sample_text :: "byte list \<Rightarrow> string" where
  "sample_text bs = map (\<lambda>b. char_of (unat b)) bs"

definition sample_chunk :: "nat \<Rightarrow> byte list" where
  "sample_chunk i = chunk_bytes 1 2 [97] [1, 2, 3] i"

lemma sample_sizes:
  "n_chunks 2 (Suc (Suc (Suc 0))) = 2" "[0..<2] = [0, Suc 0]"
  by (simp_all add: n_chunks_def upt_rec)

lemma sample_name: "sample_text [97] = ''a''"
  by code_simp

lemma sample_posted:
  "worker_onmessage sample_payload =
    Some (map (chunk_event sample_payload 2) [0, 1] @ [DoneEvent ''a'' 1], None)"
  using worker_onmessage_eq [of sample_payload 2]
  by (simp add: fits_def sample_payload_def headerSizeBytes_def sample_sizes)

lemma sample_keys:
  "chunk_key sample_text (sample_chunk 0) = message_key ''a'' 1"
  "chunk_key sample_text (sample_chunk 1) = message_key ''a'' 1"
  "chunk_key sample_text [] \<noteq> message_key ''a'' 1"
proof -
  have v: "valid_message 1 2 [97] [1, 2, 3]"
    by (simp add: valid_message_def sample_sizes)
  show "chunk_key sample_text (sample_chunk 0) = message_key ''a'' 1"
    "chunk_key sample_text (sample_chunk 1) = message_key ''a'' 1"
    using chunk_key_chunk_bytes [OF v, of 0 sample_text] chunk_key_chunk_bytes [OF v, of 1 sample_text]
    by (simp_all add: sample_sizes sample_name sample_chunk_def)
  show "chunk_key sample_text [] \<noteq> message_key ''a'' 1"
    by (simp add: chunk_key_def Let_def js_slice_def sample_text_def message_key_def)
qed

theorem codec_reassembles_witness:
  "results_for sample_text (message_key ''a'' 1) [sample_chunk 1, [], sample_chunk 0]
     (snd (decode_all sample_text [] [sample_chunk 1, [], sample_chunk 0]))
   = [Inr None, Inr (Some \<lparr>dc_senderId = ''a'', dc_data = [1, 2, 3]\<rparr>)]"
proof -
  have "results_for sample_text (message_key ''a'' 1) [sample_chunk 1, [], sample_chunk 0]
      (snd (decode_all sample_text [] [sample_chunk 1, [], sample_chunk 0]))
    = replicate (length (map (chunk_event sample_payload 2) [0, 1]) - 1) (Inr None) @
      [Inr (Some \<lparr>dc_senderId = ''a'', dc_data = [1, 2, 3]\<rparr>)]"
    using codec_reassembles [of sample_payload "map (chunk_event sample_payload 2) [0, 1]"
        sample_text "[]" "[sample_chunk 1, [], sample_chunk 0]"] sample_posted sample_keys
    by (simp add: sample_payload_def sample_chunk_def chunk_event_def sample_name sample_sizes)
  then show ?thesis by simp
qed

end
