(* ===== verification/SocketEvent.thy ===== *)
theory SocketEvent
  imports Prelude
begin

text \<open>
  The payloads of \<open>SocketEvent.ts\<close> that travel between server and client and that more than one
  component reads.
\<close>

record track_metadata =
  md_mid :: string
  md_kind :: string
  md_userId :: string
  md_streamId :: string

record metadata_payload =
  mp_userId :: string
  mp_metadata :: "track_metadata list"

end
