(* ===== verification/InsertableStreams.thy ===== *)
theory InsertableStreams
  imports SocketEvent
begin

text \<open>
  The end-to-end encryption of \<open>insertable-streams/index.ts\<close>: the worker with its key
  contexts, the asynchronous key derivation and the frame transforms, and the
  \<open>InsertableStreamsCodec\<close> that feeds it. A promise that has not been settled is a job of the
  worker's state and the events settle jobs in any order, so a theorem about a run covers every
  interleaving of messages and key derivations. The web cryptography functions and the text
  encoder are parameters (\<open>crypto_env\<close>).
\<close>

named_theorems worker_defs \<open>the operations of the encryption worker\<close>

section \<open>The worker: data\<close>

record 'key crypto_env =
  textEncode :: "string \<Rightarrow> byte list"
  deriveKey :: "byte list \<Rightarrow> byte list \<Rightarrow> 'key"
  aesEncrypt :: "'key \<Rightarrow> byte list \<Rightarrow> byte list \<Rightarrow> byte list \<Rightarrow> byte list"
  aesDecrypt :: "'key \<Rightarrow> byte list \<Rightarrow> byte list \<Rightarrow> byte list \<Rightarrow> byte list option"

text \<open>A decryption context is an object whose identity matters: \<open>dx_obj\<close> numbers them.\<close>

record 'key decrypt_context =
  dx_obj :: nat
  dx_key :: "'key option"
  dx_userId :: string
  dx_password :: string

datatype 'key job =
    KeyForDecrypt string nat 'key
  | KeyForEncrypt string 'key bool
  | Regenerate

record 'key worker =
  w_url :: string
  w_userId :: string
  w_metadata :: "track_metadata obj"
  w_password :: string
  w_decrypt :: "'key decrypt_context obj"
  w_encKey :: "'key option"
  w_encPassword :: string
  w_nextObj :: nat
  w_jobs :: "'key job list"

definition new_worker :: "'key worker" where
  "new_worker = \<lparr>w_url = '''', w_userId = '''', w_metadata = [], w_password = '''', w_decrypt = [],
     w_encKey = None, w_encPassword = '''', w_nextObj = 0, w_jobs = []\<rparr>"

section \<open>The worker: keys\<close>

definition getUserId :: "'key worker \<Rightarrow> string \<Rightarrow> string \<Rightarrow> string" where
  "getUserId w mid userId =
     (case oget (w_metadata w) mid of None \<Rightarrow> userId | Some md \<Rightarrow> md_userId md)"

definition createKey :: "'key crypto_env \<Rightarrow> string \<Rightarrow> string \<Rightarrow> string \<Rightarrow> 'key" where
  "createKey env password url userId =
    (let urlBytes = textEncode env url; userIdBytes = textEncode env userId;
         salt = urlBytes @ [0] @ userIdBytes
     in deriveKey env (textEncode env password) salt)"

definition updateDecryptContext ::
  "'key crypto_env \<Rightarrow> string \<Rightarrow> string \<Rightarrow> 'key worker \<Rightarrow> 'key worker"
where
  "updateDecryptContext env mid userId w =
    (let userId = getUserId w mid userId;
         fresh = \<lparr>dx_obj = w_nextObj w, dx_key = None, dx_userId = userId, dx_password = w_password w\<rparr>;
         w' = w\<lparr>w_decrypt := oset mid fresh (w_decrypt w), w_nextObj := Suc (w_nextObj w)\<rparr>
     in if (\<exists>c. oget (w_decrypt w) mid = Some c \<and> dx_userId c = userId \<and>
               dx_password c = w_password w)
        then w
        else if w_password w = '''' then w'
        else w'\<lparr>w_jobs := w_jobs w' @
               [KeyForDecrypt mid (w_nextObj w) (createKey env (w_password w) (w_url w) userId)]\<rparr>)"

text \<open>\<open>updateEncryptContext\<close> returns a promise: one that is resolved already, or one that waits
  for the key of a password.\<close>

datatype 'key promise = NoWait | Waiting string 'key

definition updateEncryptContext ::
  "'key crypto_env \<Rightarrow> 'key worker \<Rightarrow> 'key worker \<times> 'key promise"
where
  "updateEncryptContext env w =
    (if w_encPassword w = w_password w then (w, NoWait)
     else if w_password w = '''' then (w\<lparr>w_encKey := None\<rparr>, NoWait)
     else (w\<lparr>w_encPassword := w_password w\<rparr>,
           Waiting (w_password w) (createKey env (w_password w) (w_url w) (w_userId w))))"

section \<open>The worker: messages\<close>

datatype event =
    InitEvent string string
  | PasswordEvent string
  | MetadataEvent "track_metadata list"
  | EncryptStreamEvent
  | DecryptStreamEvent string string
  | Settle nat
  | Reject nat

definition handleMetadata ::
  "'key crypto_env \<Rightarrow> track_metadata list \<Rightarrow> 'key worker \<Rightarrow> 'key worker"
where
  "handleMetadata env metadata w =
    (let w = w\<lparr>w_metadata := fold (\<lambda>md. oset (md_mid md) md) metadata []\<rparr>
     in fold (\<lambda>mid w. case oget (w_metadata w) mid of
                None \<Rightarrow> w\<lparr>w_decrypt := odel mid (w_decrypt w)\<rparr>
              | Some md \<Rightarrow> updateDecryptContext env mid (md_userId md) w)
          (okeys (w_decrypt w)) w)"

definition handlePassword :: "'key crypto_env \<Rightarrow> string \<Rightarrow> 'key worker \<Rightarrow> 'key worker" where
  "handlePassword env password w =
    (let (w, p) = updateEncryptContext env (w\<lparr>w_password := password\<rparr>)
     in case p of
          NoWait \<Rightarrow> w\<lparr>w_jobs := w_jobs w @ [Regenerate]\<rparr>
        | Waiting pw key \<Rightarrow> w\<lparr>w_jobs := w_jobs w @ [KeyForEncrypt pw key True]\<rparr>)"

definition regenerate :: "'key crypto_env \<Rightarrow> 'key worker \<Rightarrow> 'key worker" where
  "regenerate env w =
     fold (\<lambda>mid w. case oget (w_decrypt w) mid of
              None \<Rightarrow> w
            | Some c \<Rightarrow> updateDecryptContext env mid (dx_userId c) w)
       (okeys (w_decrypt w)) w"

definition handleEncrypt :: "'key crypto_env \<Rightarrow> 'key worker \<Rightarrow> 'key worker" where
  "handleEncrypt env w =
    (case updateEncryptContext env w of
       (w, NoWait) \<Rightarrow> w
     | (w, Waiting pw key) \<Rightarrow> w\<lparr>w_jobs := w_jobs w @ [KeyForEncrypt pw key False]\<rparr>)"

definition handleDecrypt ::
  "'key crypto_env \<Rightarrow> string \<Rightarrow> string \<Rightarrow> 'key worker \<Rightarrow> 'key worker"
where
  "handleDecrypt env mid userId w = updateDecryptContext env mid userId w"

text \<open>The continuation of a settled promise. The regeneration of the decryption keys is a
  \<open>then\<close> of its own: it becomes a job.\<close>

fun complete :: "'key crypto_env \<Rightarrow> 'key job \<Rightarrow> 'key worker \<Rightarrow> 'key worker" where
  "complete env (KeyForDecrypt mid obj key) w =
    (case oget (w_decrypt w) mid of
       Some c \<Rightarrow> if dx_obj c = obj then w\<lparr>w_decrypt := oset mid (c\<lparr>dx_key := Some key\<rparr>) (w_decrypt w)\<rparr>
                 else w
     | None \<Rightarrow> w)"
| "complete env (KeyForEncrypt pw key regen) w =
    (let w = (if w_encPassword w = pw then w\<lparr>w_encKey := Some key\<rparr> else w)
     in if regen then w\<lparr>w_jobs := w_jobs w @ [Regenerate]\<rparr> else w)"
| "complete env Regenerate w = regenerate env w"

definition drop_nth :: "nat \<Rightarrow> 'a list \<Rightarrow> 'a list" where
  "drop_nth i xs = take i xs @ drop (Suc i) xs"

fun onmessage :: "'key crypto_env \<Rightarrow> 'key worker \<Rightarrow> event \<Rightarrow> 'key worker" where
  "onmessage env w (InitEvent url userId) = w\<lparr>w_url := url, w_userId := userId\<rparr>"
| "onmessage env w (PasswordEvent password) = handlePassword env password w"
| "onmessage env w (MetadataEvent metadata) = handleMetadata env metadata w"
| "onmessage env w EncryptStreamEvent = handleEncrypt env w"
| "onmessage env w (DecryptStreamEvent mid userId) = handleDecrypt env mid userId w"
| "onmessage env w (Settle i) =
    (if i < length (w_jobs w)
     then complete env (w_jobs w ! i) (w\<lparr>w_jobs := drop_nth i (w_jobs w)\<rparr>) else w)"
| "onmessage env w (Reject i) = w\<lparr>w_jobs := drop_nth i (w_jobs w)\<rparr>"

section \<open>The worker: frames\<close>

datatype frame_type = KeyFrame | DeltaFrame | EmptyFrame | NoType

record frame =
  fr_type :: frame_type
  fr_data :: "byte list"

definition ivByteLength :: nat where
  "ivByteLength = 16"

fun frameTypeToCryptoOffset :: "frame_type \<Rightarrow> nat" where
  "frameTypeToCryptoOffset KeyFrame = 10"
| "frameTypeToCryptoOffset DeltaFrame = 3"
| "frameTypeToCryptoOffset EmptyFrame = 1"
| "frameTypeToCryptoOffset NoType = 1"

definition getCryptoOffset :: "frame \<Rightarrow> nat" where
  "getCryptoOffset frame = frameTypeToCryptoOffset (fr_type frame)"

datatype transformed = Dropped | Enqueued frame | Thrown js_error

definition encrypt_frame ::
  "'key crypto_env \<Rightarrow> 'key worker \<Rightarrow> byte list \<Rightarrow> frame \<Rightarrow> transformed"
where
  "encrypt_frame env w iv frame =
    (case w_encKey w of
       None \<Rightarrow> if w_password w = '''' then Enqueued frame else Dropped
     | Some key \<Rightarrow>
         let cryptoOffset = getCryptoOffset frame in
         if length (fr_data frame) < cryptoOffset then Thrown RangeError
         else
           let additionalData = take cryptoOffset (fr_data frame);
               dataToEncrypt = drop cryptoOffset (fr_data frame);
               encryptedData = aesEncrypt env key iv additionalData dataToEncrypt
           in Enqueued (frame\<lparr>fr_data := additionalData @ encryptedData @ iv\<rparr>))"

definition decrypt_frame :: "'key crypto_env \<Rightarrow> 'key worker \<Rightarrow> string \<Rightarrow> frame \<Rightarrow> frame" where
  "decrypt_frame env w mid frame =
    (case oget (w_decrypt w) mid of
       None \<Rightarrow> frame
     | Some ctx \<Rightarrow> (case dx_key ctx of
         None \<Rightarrow> frame
       | Some key \<Rightarrow>
           let cryptoOffset = getCryptoOffset frame; n = length (fr_data frame) in
           if n < cryptoOffset \<or> n - cryptoOffset < ivByteLength then frame
           else
             let additionalData = take cryptoOffset (fr_data frame);
                 encryptedData = js_slice cryptoOffset (n - ivByteLength) (fr_data frame);
                 iv = drop (n - ivByteLength) (fr_data frame)
             in (case aesDecrypt env key iv additionalData encryptedData of
                   None \<Rightarrow> frame
                 | Some decryptedData \<Rightarrow> frame\<lparr>fr_data := additionalData @ decryptedData\<rparr>)))"

section \<open>Keys belong to their contexts\<close>

declare updateDecryptContext_def [worker_defs] updateEncryptContext_def [worker_defs]
  handlePassword_def [worker_defs] handleEncrypt_def [worker_defs] handleDecrypt_def [worker_defs]

text \<open>\<open>ctx_key\<close> is the key a context is meant to hold. Soundness: a key that is held, or that
  a pending derivation would install, is that key; a derivation that was overtaken refers to an
  object no context has any more.\<close>

definition ctx_key :: "'key crypto_env \<Rightarrow> 'key worker \<Rightarrow> 'key decrypt_context \<Rightarrow> 'key" where
  "ctx_key env w c = createKey env (dx_password c) (w_url w) (dx_userId c)"

definition holds_own_key :: "'key crypto_env \<Rightarrow> 'key worker \<Rightarrow> 'key decrypt_context \<Rightarrow> bool" where
  "holds_own_key env w c \<longleftrightarrow>
     (\<forall>k. dx_key c = Some k \<longrightarrow> dx_password c \<noteq> '''' \<and> k = ctx_key env w c)"

definition pending_ok :: "'key crypto_env \<Rightarrow> 'key worker \<Rightarrow> 'key job \<Rightarrow> bool" where
  "pending_ok env w j \<longleftrightarrow> (\<forall>mid n k. j = KeyForDecrypt mid n k \<longrightarrow> n < w_nextObj w \<and>
     (\<forall>c. oget (w_decrypt w) mid = Some c \<and> dx_obj c = n \<longrightarrow>
        dx_password c \<noteq> '''' \<and> k = ctx_key env w c))"

definition keys_sound :: "'key crypto_env \<Rightarrow> 'key worker \<Rightarrow> bool" where
  "keys_sound env w \<longleftrightarrow>
     (\<forall>mid c. oget (w_decrypt w) mid = Some c \<longrightarrow> dx_obj c < w_nextObj w \<and> holds_own_key env w c) \<and>
     (\<forall>j \<in> set (w_jobs w). pending_ok env w j)"

lemmas sound_defs = keys_sound_def holds_own_key_def pending_ok_def ctx_key_def

fun no_init :: "event \<Rightarrow> bool" where
  "no_init (InitEvent _ _) = False"
| "no_init _ = True"

lemma keys_sound_cong:
  assumes "keys_sound env w" and "w_decrypt w' = w_decrypt w" and "w_url w' = w_url w"
    and "w_nextObj w' = w_nextObj w"
    and "\<And>mid n k. KeyForDecrypt mid n k \<in> set (w_jobs w') \<Longrightarrow> KeyForDecrypt mid n k \<in> set (w_jobs w)"
  shows "keys_sound env w'"
  using assms unfolding sound_defs by fastforce

lemma set_drop_nth: "set (drop_nth i xs) \<subseteq> set xs"
  by (auto simp: drop_nth_def dest: in_set_takeD in_set_dropD)

lemma keys_sound_drop: "keys_sound env w \<Longrightarrow> keys_sound env (w\<lparr>w_jobs := drop_nth i (w_jobs w)\<rparr>)"
  using set_drop_nth [of i "w_jobs w"] by (erule_tac keys_sound_cong) auto

lemma keys_sound_update:
  assumes "keys_sound env w"
  shows "keys_sound env (updateDecryptContext env mid userId w)"
  using assms unfolding updateDecryptContext_def Let_def sound_defs
  by (auto simp: less_Suc_eq)

lemma keys_sound_delete:
  "keys_sound env w \<Longrightarrow> keys_sound env (w\<lparr>w_decrypt := odel mid (w_decrypt w)\<rparr>)"
  unfolding sound_defs by auto

lemma keys_sound_metadata: "keys_sound env w \<Longrightarrow> keys_sound env (handleMetadata env metadata w)"
  unfolding handleMetadata_def Let_def
  by (rule fold_invariant [where Q = "\<lambda>_. True"])
    (auto simp: keys_sound_update keys_sound_delete split: option.split elim: keys_sound_cong)

lemma keys_sound_regenerate: "keys_sound env w \<Longrightarrow> keys_sound env (regenerate env w)"
  unfolding regenerate_def
  by (rule fold_invariant [where Q = "\<lambda>_. True"]) (auto simp: keys_sound_update split: option.split)

lemma keys_sound_complete:
  assumes "keys_sound env w" and "pending_ok env w j"
  shows "keys_sound env (complete env j w)"
proof (cases j)
  case (KeyForDecrypt mid n k)
  with assms show ?thesis unfolding sound_defs by (auto split: option.split)
next
  case (KeyForEncrypt pw key regen)
  then show ?thesis by (auto simp: Let_def intro: keys_sound_cong [OF assms(1)])
next
  case Regenerate
  then show ?thesis using assms by (simp add: keys_sound_regenerate)
qed

lemma keys_sound_step:
  assumes s: "keys_sound env w" and ok: "no_init e"
  shows "keys_sound env (onmessage env w e)"
proof (cases e)
  case (PasswordEvent password)
  then show ?thesis
    by (auto simp: worker_defs intro: keys_sound_cong [OF s])
next
  case EncryptStreamEvent
  then show ?thesis
    by (auto simp: worker_defs intro: keys_sound_cong [OF s])
next
  case (Settle i)
  let ?w = "w\<lparr>w_jobs := drop_nth i (w_jobs w)\<rparr>"
  have "keys_sound env ?w"
    using s by (rule keys_sound_drop)
  moreover have "pending_ok env ?w (w_jobs w ! i)" if "i < length (w_jobs w)"
    using s nth_mem [OF that] unfolding sound_defs by auto
  ultimately show ?thesis using Settle s by (simp add: keys_sound_complete)
next
  case (Reject i)
  then show ?thesis using keys_sound_drop [OF s] by simp
qed (use s ok in \<open>auto simp: handleDecrypt_def keys_sound_metadata keys_sound_update\<close>)

interpretation keys: machine "onmessage env" "\<lambda>_. no_init" "keys_sound env" for env
  by unfold_locales (rule keys_sound_step)

lemma keys_sound_init: "keys_sound env (onmessage env new_worker (InitEvent url userId))"
  by (simp add: sound_defs new_worker_def)

lemma updateDecryptContext_simps [simp]:
  "w_url (updateDecryptContext env mid u w) = w_url w"
  "w_userId (updateDecryptContext env mid u w) = w_userId w"
  "w_password (updateDecryptContext env mid u w) = w_password w"
  "w_metadata (updateDecryptContext env mid u w) = w_metadata w"
  "w_encPassword (updateDecryptContext env mid u w) = w_encPassword w"
  "w_encKey (updateDecryptContext env mid u w) = w_encKey w"
  by (simp_all add: updateDecryptContext_def Let_def)

lemma updateDecryptContext_jobs:
  "\<exists>js. w_jobs (updateDecryptContext env mid u w) = w_jobs w @ js \<and> (\<forall>j \<in> set js. \<exists>m n k. j = KeyForDecrypt m n k)"
  by (simp add: updateDecryptContext_def Let_def)

section \<open>Every context catches up\<close>

text \<open>For one \<open>mid\<close>: \<open>current\<close>, its context is for the current password; \<open>named\<close>, it is for
  the user the metadata names; \<open>served\<close>, it has its key or a derivation is pending for it.
  \<open>regen_pending\<close>: a pending promise will bring every context up to date.\<close>

definition current :: "string \<Rightarrow> 'key worker \<Rightarrow> bool" where
  "current mid w \<longleftrightarrow> (\<forall>c. oget (w_decrypt w) mid = Some c \<longrightarrow> dx_password c = w_password w)"

definition named :: "string \<Rightarrow> 'key worker \<Rightarrow> bool" where
  "named mid w \<longleftrightarrow>
     (\<forall>c. oget (w_decrypt w) mid = Some c \<longrightarrow> getUserId w mid (dx_userId c) = dx_userId c)"

definition served :: "string \<Rightarrow> 'key worker \<Rightarrow> bool" where
  "served mid w \<longleftrightarrow>
     (\<forall>c. oget (w_decrypt w) mid = Some c \<and> dx_password c \<noteq> '''' \<and> dx_key c = None \<longrightarrow>
        (\<exists>k. KeyForDecrypt mid (dx_obj c) k \<in> set (w_jobs w)))"

definition regen_pending :: "'key worker \<Rightarrow> bool" where
  "regen_pending w \<longleftrightarrow> (\<exists>j \<in> set (w_jobs w). j = Regenerate \<or> (\<exists>pw k. j = KeyForEncrypt pw k True))"

definition catching_up :: "'key worker \<Rightarrow> bool" where
  "catching_up w \<longleftrightarrow> (\<forall>mid. named mid w \<and> served mid w) \<and> (regen_pending w \<or> (\<forall>mid. current mid w))"

lemmas track_defs = current_def named_def served_def

lemma update_establishes:
  "current mid (updateDecryptContext env mid u w)"
  "named mid (updateDecryptContext env mid u w)"
  by (auto simp: track_defs getUserId_def updateDecryptContext_def Let_def split: option.split)

lemma update_preserves:
  "current mid' w \<Longrightarrow> current mid' (updateDecryptContext env mid u w)"
  "named mid' w \<Longrightarrow> named mid' (updateDecryptContext env mid u w)"
  "served mid' w \<Longrightarrow> served mid' (updateDecryptContext env mid u w)"
  by (auto simp: track_defs getUserId_def updateDecryptContext_def Let_def split: option.splits)

lemma regen_pending_update: "regen_pending w \<Longrightarrow> regen_pending (updateDecryptContext env mid u w)"
  using updateDecryptContext_jobs [of env mid u w] unfolding regen_pending_def
  by (metis Un_iff set_append)

lemma absent_track:
  assumes "mid \<notin> set (okeys (w_decrypt w))"
  shows "current mid w" "named mid w" "served mid w"
  using assms [folded oget_None_iff] by (simp_all add: track_defs)

text \<open>Both loops over the contexts are a fold of a step that establishes at its own \<open>mid\<close>
  what it preserves at every other.\<close>

definition metadata_step :: "'key crypto_env \<Rightarrow> string \<Rightarrow> 'key worker \<Rightarrow> 'key worker" where
  "metadata_step env mid w = (case oget (w_metadata w) mid of
      None \<Rightarrow> w\<lparr>w_decrypt := odel mid (w_decrypt w)\<rparr>
    | Some md \<Rightarrow> updateDecryptContext env mid (md_userId md) w)"

definition regenerate_step :: "'key crypto_env \<Rightarrow> string \<Rightarrow> 'key worker \<Rightarrow> 'key worker" where
  "regenerate_step env mid w = (case oget (w_decrypt w) mid of
      None \<Rightarrow> w
    | Some c \<Rightarrow> updateDecryptContext env mid (dx_userId c) w)"

lemma metadata_step_establishes:
  "current mid (metadata_step env mid w)" "named mid (metadata_step env mid w)"
  by (auto simp: metadata_step_def update_establishes split: option.split) (simp_all add: track_defs)

lemma metadata_step_preserves:
  "current mid' w \<Longrightarrow> current mid' (metadata_step env mid w)"
  "named mid' w \<Longrightarrow> named mid' (metadata_step env mid w)"
  "served mid' w \<Longrightarrow> served mid' (metadata_step env mid w)"
  by (auto simp: metadata_step_def update_preserves split: option.split)
    (auto simp: track_defs getUserId_def)

lemma regenerate_step_establishes:
  "current mid (regenerate_step env mid w)" "named mid (regenerate_step env mid w)"
  by (auto simp: regenerate_step_def update_establishes split: option.split) (simp_all add: track_defs)

lemma regenerate_step_preserves:
  "current mid' w \<Longrightarrow> current mid' (regenerate_step env mid w)"
  "named mid' w \<Longrightarrow> named mid' (regenerate_step env mid w)"
  "served mid' w \<Longrightarrow> served mid' (regenerate_step env mid w)"
  by (auto simp: regenerate_step_def update_preserves split: option.split)

lemma handleMetadata_steps:
  "handleMetadata env metadata w =
     (let w = w\<lparr>w_metadata := fold (\<lambda>md. oset (md_mid md) md) metadata []\<rparr>
      in fold (metadata_step env) (okeys (w_decrypt w)) w)"
  by (simp add: handleMetadata_def metadata_step_def [abs_def])

lemma regenerate_steps: "regenerate env w = fold (regenerate_step env) (okeys (w_decrypt w)) w"
  by (simp add: regenerate_def regenerate_step_def [abs_def])

lemma handleMetadata_establishes:
  "current mid (handleMetadata env metadata w)" "named mid (handleMetadata env metadata w)"
  "served mid w \<Longrightarrow> served mid (handleMetadata env metadata w)"
proof -
  let ?w = "w\<lparr>w_metadata := fold (\<lambda>md. oset (md_mid md) md) metadata []\<rparr>"
  let ?ks = "okeys (w_decrypt ?w)"
  note absent = absent_track [of mid ?w]
  have "current mid (fold (metadata_step env) ?ks ?w)"
    by (rule fold_establish) (use absent metadata_step_establishes metadata_step_preserves in auto)
  moreover have "named mid (fold (metadata_step env) ?ks ?w)"
    by (rule fold_establish) (use absent metadata_step_establishes metadata_step_preserves in auto)
  moreover have "served mid (fold (metadata_step env) ?ks ?w)" if "served mid w"
  proof (rule fold_invariant [where Q = "\<lambda>_. True"])
    show "served mid ?w" using that by (simp add: served_def)
  qed (simp_all add: metadata_step_preserves(3))
  ultimately show "current mid (handleMetadata env metadata w)"
    "named mid (handleMetadata env metadata w)"
    "served mid w \<Longrightarrow> served mid (handleMetadata env metadata w)"
    by (simp_all add: handleMetadata_steps)
qed

lemma regenerate_establishes:
  "current mid (regenerate env w)" "named mid (regenerate env w)"
  "served mid w \<Longrightarrow> served mid (regenerate env w)"
proof -
  let ?ks = "okeys (w_decrypt w)"
  note absent = absent_track [of mid w]
  show "current mid (regenerate env w)" unfolding regenerate_steps
    by (rule fold_establish) (use absent regenerate_step_establishes regenerate_step_preserves in auto)
  show "named mid (regenerate env w)" unfolding regenerate_steps
    by (rule fold_establish) (use absent regenerate_step_establishes regenerate_step_preserves in auto)
  show "served mid (regenerate env w)" if "served mid w" unfolding regenerate_steps
    by (rule fold_invariant [where Q = "\<lambda>_. True"]) (use that regenerate_step_preserves(3) in auto)
qed

fun no_init_reject :: "event \<Rightarrow> bool" where
  "no_init_reject (InitEvent _ _) = False"
| "no_init_reject (Reject _) = False"
| "no_init_reject _ = True"

lemma no_init_reject_no_init: "no_init_reject e \<Longrightarrow> no_init e"
  by (cases e) simp_all

lemma catching_up_update:
  "catching_up w \<Longrightarrow> catching_up (updateDecryptContext env mid u w)"
  unfolding catching_up_def using update_preserves regen_pending_update by metis

lemma track_cong:
  assumes "w_decrypt w' = w_decrypt w" and "w_metadata w' = w_metadata w"
  shows "w_password w' = w_password w \<Longrightarrow> current mid w' \<longleftrightarrow> current mid w"
    and "named mid w' \<longleftrightarrow> named mid w"
    and "set (w_jobs w) \<inter> {j. \<exists>m n k. j = KeyForDecrypt m n k} \<subseteq> set (w_jobs w') \<Longrightarrow>
      served mid w \<Longrightarrow> served mid w'"
proof -
  show "w_password w' = w_password w \<Longrightarrow> current mid w' \<longleftrightarrow> current mid w"
    "named mid w' \<longleftrightarrow> named mid w"
    using assms by (simp_all add: track_defs getUserId_def)
  show "set (w_jobs w) \<inter> {j. \<exists>m n k. j = KeyForDecrypt m n k} \<subseteq> set (w_jobs w') \<Longrightarrow>
      served mid w \<Longrightarrow> served mid w'"
    using assms unfolding served_def by fastforce
qed

lemma updateEncryptContext_simps:
  assumes "updateEncryptContext env w = (w', p)"
  shows "w_decrypt w' = w_decrypt w" "w_metadata w' = w_metadata w" "w_jobs w' = w_jobs w"
    "w_password w' = w_password w" "w_url w' = w_url w" "w_userId w' = w_userId w"
    "w_nextObj w' = w_nextObj w"
  using assms by (auto simp: updateEncryptContext_def split: if_splits)

lemma set_jobs_nth: "i < length xs \<Longrightarrow> set xs = insert (xs ! i) (set (drop_nth i xs))"
  by (metis Un_insert_right append_take_drop_id drop_nth_def id_take_nth_drop list.simps(15) set_append)

lemma catching_up_password:
  assumes "catching_up w"
  shows "catching_up (handlePassword env password w)"
proof -
  obtain w1 p where u: "updateEncryptContext env (w\<lparr>w_password := password\<rparr>) = (w1, p)"
    by fastforce
  note same = updateEncryptContext_simps [OF u]
  let ?w = "handlePassword env password w"
  have eq: "w_decrypt ?w = w_decrypt w" "w_metadata ?w = w_metadata w" "set (w_jobs w) \<subseteq> set (w_jobs ?w)"
    using same u by (auto simp: handlePassword_def split: promise.split)
  have "regen_pending ?w"
    using u by (auto simp: handlePassword_def regen_pending_def split: promise.split)
  then show ?thesis
    using assms track_cong(2,3) [OF eq(1,2)] eq(3) unfolding catching_up_def by blast
qed

lemma catching_up_encrypt:
  assumes "catching_up w"
  shows "catching_up (handleEncrypt env w)"
proof -
  obtain w1 p where u: "updateEncryptContext env w = (w1, p)"
    by fastforce
  note same = updateEncryptContext_simps [OF u]
  let ?w = "handleEncrypt env w"
  have eq: "w_decrypt ?w = w_decrypt w" "w_metadata ?w = w_metadata w"
    "w_password ?w = w_password w" "set (w_jobs w) \<subseteq> set (w_jobs ?w)"
    using same u by (auto simp: handleEncrypt_def split: promise.split)
  have "regen_pending w \<Longrightarrow> regen_pending ?w"
    using eq(4) unfolding regen_pending_def by blast
  then show ?thesis
    using assms track_cong [OF eq(1,2)] eq(3,4) unfolding catching_up_def by blast
qed

lemma complete_decrypt_simps [simp]:
  "w_jobs (complete env (KeyForDecrypt mid n k) w) = w_jobs w"
  "w_metadata (complete env (KeyForDecrypt mid n k) w) = w_metadata w"
  "w_password (complete env (KeyForDecrypt mid n k) w) = w_password w"
  by (simp_all split: option.split)

lemma complete_decrypt_keeps:
  "named m (complete env (KeyForDecrypt mid n k) w) \<longleftrightarrow> named m w"
  "current m (complete env (KeyForDecrypt mid n k) w) \<longleftrightarrow> current m w"
  by (auto simp: track_defs getUserId_def split: option.split)

lemma served_complete:
  assumes served: "served m w'" and same: "w_decrypt w' = w_decrypt w"
    and jobs: "set (w_jobs w') = insert (KeyForDecrypt mid n k) (set (w_jobs w))"
  shows "served m (complete env (KeyForDecrypt mid n k) w)"
  unfolding served_def
proof (intro allI impI, elim conjE)
  let ?v = "complete env (KeyForDecrypt mid n k) w"
  fix c
  assume c: "oget (w_decrypt ?v) m = Some c" "dx_password c \<noteq> ''''" "dx_key c = None"
  have old: "oget (w_decrypt w') m = Some c" and other: "m \<noteq> mid \<or> dx_obj c \<noteq> n"
    using c same by (auto split: option.splits if_splits)
  obtain k' where "KeyForDecrypt m (dx_obj c) k' \<in> set (w_jobs w')"
    using served old c(2,3) unfolding served_def by blast
  then have "KeyForDecrypt m (dx_obj c) k' \<in> set (w_jobs w)"
    using jobs other by auto
  then show "\<exists>k. KeyForDecrypt m (dx_obj c) k \<in> set (w_jobs ?v)" 
    unfolding complete_decrypt_simps by blast
qed

lemma regen_pending_cong:
  "w_jobs w' = w_jobs w \<Longrightarrow> regen_pending w' \<longleftrightarrow> regen_pending w"
  by (simp add: regen_pending_def)

text \<open>What is left of the invariant when a job is taken off the queue, and how its continuation
  restores it.\<close>

lemma catching_up_settle:
  assumes c: "catching_up w" and i: "i < length (w_jobs w)"
  shows "catching_up (complete env (w_jobs w ! i) (w\<lparr>w_jobs := drop_nth i (w_jobs w)\<rparr>))"
proof -
  let ?w = "w\<lparr>w_jobs := drop_nth i (w_jobs w)\<rparr>"
  note jobs = set_jobs_nth [OF i]
  have named: "named mid ?w" for mid
    using c track_cong(2) [of ?w w mid] by (simp add: catching_up_def)
  show ?thesis
  proof (cases "w_jobs w ! i")
    case (KeyForDecrypt mid n k)
    have regen: "regen_pending ?w \<longleftrightarrow> regen_pending w"
      using jobs KeyForDecrypt by (auto simp: regen_pending_def)
    have current: "current m ?w \<longleftrightarrow> current m w" for m by (simp add: current_def)
    have "served m (complete env (KeyForDecrypt mid n k) ?w)" for m
      by (rule served_complete [of m w]) (use c jobs KeyForDecrypt in \<open>simp_all add: catching_up_def\<close>)
    then show ?thesis using c named
      unfolding catching_up_def KeyForDecrypt complete_decrypt_keeps current
        regen_pending_cong [OF complete_decrypt_simps(1)] regen by blast
  next
    case (KeyForEncrypt pw key regen)
    let ?v = "complete env (KeyForEncrypt pw key regen) ?w"
    have eq: "w_decrypt ?v = w_decrypt w" "w_metadata ?v = w_metadata w" "w_password ?v = w_password w"
      by (simp_all add: Let_def)
    have sub: "set (w_jobs w) \<inter> {j. \<exists>m n k. j = KeyForDecrypt m n k} \<subseteq> set (w_jobs ?v)"
      using jobs KeyForEncrypt by (auto simp: Let_def)
    have "regen_pending w \<Longrightarrow> regen_pending ?v"
      using jobs KeyForEncrypt by (auto simp: regen_pending_def Let_def)
    then show ?thesis
      using c track_cong [OF eq(1,2)] eq(3) sub unfolding catching_up_def KeyForEncrypt by blast
  next
    case Regenerate
    have "served m ?w" for m
      using c jobs Regenerate track_cong(3) [of ?w w m] by (auto simp: catching_up_def)
    then show ?thesis using Regenerate by (simp add: catching_up_def regenerate_establishes)
  qed
qed

lemma catching_up_step:
  assumes c: "catching_up w" and ok: "no_init_reject e"
  shows "catching_up (onmessage env w e)"
proof (cases e)
  case (MetadataEvent metadata)
  then show ?thesis using c by (simp add: catching_up_def handleMetadata_establishes)
next
  case (Settle i)
  then show ?thesis using c by (simp add: catching_up_settle)
qed (use c ok in \<open>auto simp: handleDecrypt_def catching_up_password catching_up_encrypt catching_up_update\<close>)

interpretation catch: machine "onmessage env" "\<lambda>_. no_init_reject" catching_up for env
  by unfold_locales (rule catching_up_step)

lemma catching_up_init: "catching_up (onmessage env new_worker (InitEvent url userId))"
  by (simp add: catching_up_def track_defs new_worker_def)

section \<open>The sender's key\<close>

text \<open>\<open>enc_sound\<close>: every key of the sending side, held or pending, is derived from a password
  that was set. \<open>enc_ready\<close>: without a cleared password and without a failed derivation, the
  key of the current password is held or on its way.\<close>

definition enc_sound :: "'key crypto_env \<Rightarrow> string set \<Rightarrow> 'key worker \<Rightarrow> bool" where
  "enc_sound env P w \<longleftrightarrow> w_password w \<in> insert '''' P \<and>
     (\<forall>k. w_encKey w = Some k \<longrightarrow>
        (\<exists>pw \<in> P. pw \<noteq> '''' \<and> k = createKey env pw (w_url w) (w_userId w))) \<and>
     (\<forall>pw k r. KeyForEncrypt pw k r \<in> set (w_jobs w) \<longrightarrow>
        pw \<in> P \<and> pw \<noteq> '''' \<and> k = createKey env pw (w_url w) (w_userId w))"

definition enc_ready :: "'key crypto_env \<Rightarrow> 'key worker \<Rightarrow> bool" where
  "enc_ready env w \<longleftrightarrow> w_encPassword w = w_password w \<and>
     (w_password w = '''' \<longrightarrow> w_encKey w = None) \<and>
     (w_password w \<noteq> '''' \<longrightarrow>
        w_encKey w = Some (createKey env (w_password w) (w_url w) (w_userId w)) \<or>
        (\<exists>k r. KeyForEncrypt (w_password w) k r \<in> set (w_jobs w)))"

definition same_sender :: "'key worker \<Rightarrow> 'key worker \<Rightarrow> bool" where
  "same_sender w' w \<longleftrightarrow> w_password w' = w_password w \<and> w_url w' = w_url w \<and> w_userId w' = w_userId w \<and>
     w_encKey w' = w_encKey w \<and> w_encPassword w' = w_encPassword w \<and>
     (\<forall>pw k r. KeyForEncrypt pw k r \<in> set (w_jobs w') \<longleftrightarrow> KeyForEncrypt pw k r \<in> set (w_jobs w))"

lemma same_sender_enc:
  "same_sender w' w \<Longrightarrow> enc_sound env P w' \<longleftrightarrow> enc_sound env P w"
  "same_sender w' w \<Longrightarrow> enc_ready env w' \<longleftrightarrow> enc_ready env w"
  by (simp_all add: same_sender_def enc_sound_def enc_ready_def)

lemma same_sender_update [simp]: "same_sender (updateDecryptContext env mid u w) w"
  by (auto simp: same_sender_def updateDecryptContext_def Let_def)

lemma same_sender_trans: "same_sender a b \<Longrightarrow> same_sender b c \<Longrightarrow> same_sender a c"
  by (simp add: same_sender_def)

lemma same_sender_fold:
  "(\<And>x w. same_sender (f x w) w) \<Longrightarrow> same_sender (fold f xs w) w"
  by (induction xs arbitrary: w) (auto simp: same_sender_def)

lemma same_sender_metadata: "same_sender (handleMetadata env metadata w) w"
  unfolding handleMetadata_steps Let_def
  by (rule same_sender_trans [OF same_sender_fold])
    (auto simp: metadata_step_def split: option.split, auto simp: same_sender_def)

lemma same_sender_regenerate: "same_sender (regenerate env w) w"
  unfolding regenerate_steps
  by (rule same_sender_fold)
    (auto simp: regenerate_step_def split: option.split, auto simp: same_sender_def)

fun password_in :: "string set \<Rightarrow> event \<Rightarrow> bool" where
  "password_in P (PasswordEvent pw) \<longleftrightarrow> pw \<in> P"
| "password_in P _ \<longleftrightarrow> True"

lemma enc_sound_settle:
  assumes s: "enc_sound env P w" and i: "i < length (w_jobs w)"
  shows "enc_sound env P (complete env (w_jobs w ! i) (w\<lparr>w_jobs := drop_nth i (w_jobs w)\<rparr>))"
proof -
  let ?w = "w\<lparr>w_jobs := drop_nth i (w_jobs w)\<rparr>"
  note jobs = set_jobs_nth [OF i]
  have w: "enc_sound env P ?w" using s jobs unfolding enc_sound_def by auto
  show ?thesis
  proof (cases "w_jobs w ! i")
    case (KeyForDecrypt mid n k)
    have "same_sender (complete env (KeyForDecrypt mid n k) ?w) ?w"
      by (simp add: same_sender_def split: option.split)
    from same_sender_enc(1) [OF this] w show ?thesis unfolding KeyForDecrypt by blast
  next
    case (KeyForEncrypt pw key regen)
    then have "pw \<in> P \<and> pw \<noteq> '''' \<and> key = createKey env pw (w_url w) (w_userId w)"
      using s jobs unfolding enc_sound_def by auto
    then show ?thesis using w KeyForEncrypt by (auto simp: enc_sound_def Let_def)
  next
    case Regenerate
    then show ?thesis using w by (simp add: same_sender_enc(1) [OF same_sender_regenerate])
  qed
qed

lemma enc_sound_step:
  assumes s: "enc_sound env P w" and ok: "no_init e \<and> password_in P e"
  shows "enc_sound env P (onmessage env w e)"
proof (cases e)
  case (PasswordEvent pw)
  then show ?thesis using s ok by (auto simp: worker_defs enc_sound_def)
next
  case EncryptStreamEvent
  then show ?thesis using s by (auto simp: worker_defs enc_sound_def)
next
  case (Settle i)
  then show ?thesis using s by (simp add: enc_sound_settle)
next
  case (Reject i)
  then show ?thesis using s set_drop_nth [of i "w_jobs w"] unfolding enc_sound_def
    by (simp, blast)
qed (use s ok in \<open>simp_all add: handleDecrypt_def same_sender_enc(1) [OF same_sender_metadata]
    same_sender_enc(1) [OF same_sender_update]\<close>)

interpretation sender: machine "onmessage env" "\<lambda>_ e. no_init e \<and> password_in P e" "enc_sound env P"
  for env P
  by unfold_locales (rule enc_sound_step)

lemma enc_sound_init: "enc_sound env P (onmessage env new_worker (InitEvent url userId))"
  by (simp add: enc_sound_def new_worker_def)

lemma enc_ready_settle:
  assumes s: "enc_sound env P w" and r: "enc_ready env w" and i: "i < length (w_jobs w)"
  shows "enc_ready env (complete env (w_jobs w ! i) (w\<lparr>w_jobs := drop_nth i (w_jobs w)\<rparr>))"
proof -
  let ?w = "w\<lparr>w_jobs := drop_nth i (w_jobs w)\<rparr>"
  note jobs = set_jobs_nth [OF i]
  show ?thesis
  proof (cases "w_jobs w ! i")
    case (KeyForDecrypt mid n k)
    have "same_sender (complete env (KeyForDecrypt mid n k) ?w) w"
      using jobs KeyForDecrypt by (simp add: same_sender_def split: option.split)
    from same_sender_enc(2) [OF this] r show ?thesis unfolding KeyForDecrypt by blast
  next
    case (KeyForEncrypt pw key regen)
    then have "pw \<noteq> '''' \<and> key = createKey env pw (w_url w) (w_userId w)"
      using s jobs unfolding enc_sound_def by auto
    then show ?thesis using r KeyForEncrypt jobs by (auto simp: enc_ready_def Let_def)
  next
    case Regenerate
    have "same_sender (regenerate env ?w) w"
      by (rule same_sender_trans [OF same_sender_regenerate])
        (use jobs Regenerate in \<open>simp add: same_sender_def\<close>)
    with r Regenerate show ?thesis by (simp add: same_sender_enc(2))
  qed
qed

fun no_clear :: "event \<Rightarrow> bool" where
  "no_clear (PasswordEvent pw) \<longleftrightarrow> pw \<noteq> ''''"
| "no_clear e \<longleftrightarrow> no_init_reject e"

definition sender_inv :: "'key crypto_env \<Rightarrow> 'key worker \<Rightarrow> bool" where
  "sender_inv env w \<longleftrightarrow> enc_sound env UNIV w \<and> enc_ready env w"

lemma enc_ready_step:
  assumes s: "enc_sound env P w" and r: "enc_ready env w" and ok: "no_clear e"
  shows "enc_ready env (onmessage env w e)"
proof (cases e)
  case (PasswordEvent pw)
  then show ?thesis using r ok by (auto simp: worker_defs enc_ready_def)
next
  case EncryptStreamEvent
  then show ?thesis using r by (auto simp: worker_defs enc_ready_def)
next
  case (Settle i)
  then show ?thesis using r s by (simp add: enc_ready_settle)
qed (use r ok in \<open>simp_all add: handleDecrypt_def same_sender_enc(2) [OF same_sender_metadata]
    same_sender_enc(2) [OF same_sender_update]\<close>)

interpretation sending: machine "onmessage env" "\<lambda>_. no_clear" "sender_inv env" for env
proof unfold_locales
  fix w :: "'a worker" and e
  assume "sender_inv env w" and "no_clear e"
  moreover from this have "no_init e \<and> password_in UNIV e" by (cases e) simp_all
  ultimately show "sender_inv env (onmessage env w e)"
    unfolding sender_inv_def by (blast intro: enc_sound_step enc_ready_step)
qed

lemma sender_inv_init: "sender_inv env (onmessage env new_worker (InitEvent url userId))"
  by (simp add: sender_inv_def enc_sound_def enc_ready_def new_worker_def)

text \<open>A key that is derived while the password is cleared: \<open>late_key\<close> is what the worker knows from then on,
  as long as nothing but messages for receivers comes.\<close>

fun for_receivers :: "event \<Rightarrow> bool" where
  "for_receivers (PasswordEvent _) = False"
| "for_receivers EncryptStreamEvent = False"
| "for_receivers e = no_init_reject e"

definition late_key :: "'key crypto_env \<Rightarrow> string \<Rightarrow> 'key worker \<Rightarrow> bool" where
  "late_key env password w \<longleftrightarrow> enc_sound env UNIV w \<and> w_password w = '''' \<and> w_encPassword w = password \<and>
     (w_encKey w = Some (createKey env password (w_url w) (w_userId w)) \<or>
      (\<exists>k r. KeyForEncrypt password k r \<in> set (w_jobs w)))"

lemma same_sender_late: "same_sender w' w \<Longrightarrow> late_key env password w' \<longleftrightarrow> late_key env password w"
  by (simp add: late_key_def same_sender_enc(1)) (simp add: same_sender_def)

lemma late_key_settle:
  assumes l: "late_key env password w" and i: "i < length (w_jobs w)"
  shows "late_key env password (complete env (w_jobs w ! i) (w\<lparr>w_jobs := drop_nth i (w_jobs w)\<rparr>))"
proof -
  let ?w = "w\<lparr>w_jobs := drop_nth i (w_jobs w)\<rparr>"
  have s: "enc_sound env UNIV w" using l by (simp add: late_key_def)
  note jobs = set_jobs_nth [OF i]
  show ?thesis
  proof (cases "w_jobs w ! i")
    case (KeyForDecrypt mid n k)
    have "same_sender (complete env (KeyForDecrypt mid n k) ?w) w"
      using jobs KeyForDecrypt by (simp add: same_sender_def split: option.split)
    from same_sender_late [OF this] l show ?thesis unfolding KeyForDecrypt by blast
  next
    case (KeyForEncrypt pw key regen)
    then have "key = createKey env pw (w_url w) (w_userId w)" using s jobs unfolding enc_sound_def by auto
    then show ?thesis
      using l enc_sound_settle [OF s i] KeyForEncrypt jobs by (auto simp: late_key_def Let_def)
  next
    case Regenerate
    have "same_sender (regenerate env ?w) w"
      by (rule same_sender_trans [OF same_sender_regenerate])
        (use jobs Regenerate in \<open>simp add: same_sender_def\<close>)
    with l Regenerate show ?thesis by (simp add: same_sender_late)
  qed
qed

lemma late_key_step: "late_key env password w \<Longrightarrow> for_receivers e \<Longrightarrow> late_key env password (onmessage env w e)"
  by (cases e) (simp_all add: late_key_settle handleDecrypt_def same_sender_late [OF same_sender_metadata]
      same_sender_late [OF same_sender_update])

interpretation late: machine "onmessage env" "\<lambda>_. for_receivers" "late_key env password" for env password
  by unfold_locales (rule late_key_step)

lemma late_key_starts:
  assumes "enc_sound env UNIV w" and "password \<noteq> ''''" and "w_encPassword w \<noteq> password"
  shows "late_key env password (run (onmessage env) w [PasswordEvent password, PasswordEvent ''''])"
proof -
  have "enc_sound env UNIV (run (onmessage env) w [PasswordEvent password, PasswordEvent ''''])"
    by (rule sender.run_inv [OF assms(1)]) simp
  then show ?thesis using assms(2,3) by (simp add: late_key_def) (auto simp: worker_defs)
qed

text \<open>The parameters of the worker are those of the \<open>init\<close> message as long as there is no other.\<close>

lemma params_step:
  assumes "no_init e"
  shows "w_url (onmessage env w e) = w_url w \<and> w_userId (onmessage env w e) = w_userId w"
proof (cases e)
  case (MetadataEvent metadata)
  then show ?thesis using same_sender_metadata [of env metadata w] by (simp add: same_sender_def)
next
  case (Settle i)
  then show ?thesis
    using same_sender_regenerate [of env "w\<lparr>w_jobs := drop_nth i (w_jobs w)\<rparr>"]
    by (cases "w_jobs w ! i") (auto simp: same_sender_def Let_def split: option.split)
qed (use assms in \<open>auto simp: worker_defs Let_def\<close>)

lemma params_run:
  "list_all no_init es \<Longrightarrow>
     w_url (run (onmessage env) w es) = w_url w \<and> w_userId (run (onmessage env) w es) = w_userId w"
  by (induction es arbitrary: w) (simp_all add: params_step)

section \<open>Metadata\<close>

lemma metadata_step_metadata [simp]: "w_metadata (metadata_step env mid w) = w_metadata w"
  by (simp add: metadata_step_def split: option.split)

lemma metadata_step_other:
  "mid' \<noteq> mid \<Longrightarrow> oget (w_decrypt (metadata_step env mid w)) mid' = oget (w_decrypt w) mid'"
  by (simp add: metadata_step_def updateDecryptContext_def Let_def split: option.split)

lemma metadata_step_self:
  "oget (w_decrypt (metadata_step env mid w)) mid = None \<longleftrightarrow> oget (w_metadata w) mid = None"
  by (auto simp: metadata_step_def updateDecryptContext_def Let_def split: option.split)

lemma metadata_fold_metadata [simp]:
  "w_metadata (fold (metadata_step env) ks w) = w_metadata w"
  by (induction ks arbitrary: w) simp_all

lemma metadata_fold_dom:
  "oget (w_decrypt (fold (metadata_step env) ks w)) mid = None \<longleftrightarrow>
     (if mid \<in> set ks then oget (w_metadata w) mid = None else oget (w_decrypt w) mid = None)"
proof (induction ks arbitrary: w)
  case (Cons k ks)
  then show ?case
    by (cases "mid = k") (auto simp: metadata_step_self metadata_step_other)
qed simp

lemma handleMetadata_fields:
  "w_metadata (handleMetadata env metadata w) = fold (\<lambda>md. oset (md_mid md) md) metadata []"
  "w_password (handleMetadata env metadata w) = w_password w"
  using same_sender_metadata [of env metadata w]
  by (simp_all add: handleMetadata_steps Let_def same_sender_def)

lemma handleMetadata_lookup:
  "oget (w_metadata (handleMetadata env metadata w)) mid = last_with md_mid mid metadata"
  using ob.get_put_all [of md_mid "\<lambda>md. md" metadata "[]" mid]
  by (simp add: handleMetadata_fields split: option.splits)

text \<open>
  After a metadata message, the worker keeps a decryption context for a \<open>mid\<close> exactly
  if it had one and the message names the \<open>mid\<close>; such a context is for the user of the last
  entry with that \<open>mid\<close> and for the current password.
\<close>

lemma handleMetadata_contexts:
  "(oget (w_decrypt (handleMetadata env metadata w)) mid = None \<longleftrightarrow>
      oget (w_decrypt w) mid = None \<or> (\<forall>md \<in> set metadata. md_mid md \<noteq> mid)) \<and>
   (\<forall>c. oget (w_decrypt (handleMetadata env metadata w)) mid = Some c \<longrightarrow>
      dx_password c = w_password w \<and>
      (\<exists>md. last_with md_mid mid metadata = Some md \<and> dx_userId c = md_userId md))"
proof -
  let ?w = "w\<lparr>w_metadata := fold (\<lambda>md. oset (md_mid md) md) metadata []\<rparr>"
  let ?r = "handleMetadata env metadata w"
  have meta: "oget (w_metadata ?w) mid = last_with md_mid mid metadata"
    using handleMetadata_lookup [of env metadata w mid] by (simp add: handleMetadata_fields)
  have dom: "oget (w_decrypt ?r) mid = None \<longleftrightarrow>
      oget (w_decrypt w) mid = None \<or> (\<forall>md \<in> set metadata. md_mid md \<noteq> mid)"
    using metadata_fold_dom [of env "okeys (w_decrypt w)" ?w mid] meta
      last_with_None [of md_mid mid metadata] oget_None_iff [of "w_decrypt w" mid]
    by (auto simp: handleMetadata_steps Let_def)
  have "dx_password c = w_password w \<and>
      (\<exists>md. last_with md_mid mid metadata = Some md \<and> dx_userId c = md_userId md)"
    if c: "oget (w_decrypt ?r) mid = Some c" for c
  proof -
    have "last_with md_mid mid metadata \<noteq> None"
      using c dom last_with_None [of md_mid mid metadata] by auto
    then obtain md where md: "last_with md_mid mid metadata = Some md" by blast
    then show ?thesis
      using c handleMetadata_establishes(1,2) [of mid env metadata w]
      by (simp add: track_defs getUserId_def handleMetadata_lookup handleMetadata_fields(2))
  qed
  with dom show ?thesis by blast
qed

section \<open>What the worker guarantees\<close>

abbreviation worker_run :: "'key crypto_env \<Rightarrow> string \<Rightarrow> string \<Rightarrow> event list \<Rightarrow> 'key worker" where
  "worker_run env url userId es \<equiv> run (onmessage env) (onmessage env new_worker (InitEvent url userId)) es"

lemma worker_run_params:
  assumes "list_all no_init es"
  shows "w_url (worker_run env url u es) = url" "w_userId (worker_run env url u es) = u"
  using params_run [OF assms, of env "onmessage env new_worker (InitEvent url u)"] by simp_all

lemma list_all_mono': "list_all P xs \<Longrightarrow> (\<And>x. P x \<Longrightarrow> Q x) \<Longrightarrow> list_all Q xs"
  by (simp add: list_all_iff)

text \<open>
  C17. Whatever messages the worker gets after \<open>init\<close>, and in whatever order the key
  derivations finish or fail, a key in the context of a \<open>mid\<close> is derived from exactly the
  password and the user that this context is for: a derivation that was overtaken by a new
  password, a new user or a removed track never installs its key.
\<close>

theorem decrypt_key_never_stale:
  assumes "list_all no_init es"
    and "oget (w_decrypt (worker_run env url u es)) mid = Some c" and "dx_key c = Some k"
  shows "dx_password c \<noteq> '''' \<and> k = createKey env (dx_password c) url (dx_userId c)"
proof -
  have "keys_sound env (worker_run env url u es)"
    using keys_sound_init assms(1) by (rule keys.run_inv [unfolded admissible_all])
  then show ?thesis
    using assms worker_run_params(1) [OF assms(1), of env url u] unfolding sound_defs by metis
qed

lemma decrypt_contexts_settle':
  assumes ok: "list_all no_init_reject es" and idle: "w_jobs (worker_run env url u es) = []"
    and c: "oget (w_decrypt (worker_run env url u es)) mid = Some c"
  shows "dx_password c = w_password (worker_run env url u es) \<and>
    dx_userId c = getUserId (worker_run env url u es) mid (dx_userId c) \<and>
    dx_key c = (if dx_password c = '''' then None
                else Some (createKey env (dx_password c) url (dx_userId c)))"
proof -
  let ?w = "worker_run env url u es"
  have no_init: "list_all no_init es" using ok no_init_reject_no_init by (rule list_all_mono')
  have cu: "catching_up ?w"
    using catching_up_init ok by (rule catch.run_inv [unfolded admissible_all])
  then have "\<not> regen_pending ?w" using idle by (simp add: regen_pending_def)
  with cu c idle have "dx_password c = w_password ?w" "getUserId ?w mid (dx_userId c) = dx_userId c"
    and "dx_password c \<noteq> '''' \<Longrightarrow> dx_key c \<noteq> None"
    by (auto simp: catching_up_def track_defs)
  moreover have "holds_own_key env ?w c"
    using keys.run_inv [unfolded admissible_all, OF keys_sound_init no_init] c unfolding keys_sound_def by blast
  ultimately show ?thesis
    using worker_run_params(1) [OF no_init, of env url u] by (auto simp: holds_own_key_def ctx_key_def)
qed

text \<open>
  C17. If no derivation fails, then once all pending promises are settled every context is for
  the current password and for the user the metadata names, and it holds the key of this
  password and user, or no key if the password is empty.
\<close>

theorem decrypt_contexts_settle:
  assumes ok: "list_all no_init_reject es" and idle: "w_jobs (worker_run env url u es) = []"
    and c: "oget (w_decrypt (worker_run env url u es)) mid = Some c"
  shows "dx_password c = w_password (worker_run env url u es) \<and>
    dx_userId c = getUserId (worker_run env url u es) mid (dx_userId c) \<and>
    dx_key c = (if dx_password c = '''' then None
                else Some (createKey env (dx_password c) url (dx_userId c)))"
  using decrypt_contexts_settle' [OF assms] .

text \<open>
  C18. While a password is set no frame leaves in the clear: the transform of the sender drops
  the frame, throws, or enqueues the cleartext prefix, a ciphertext under a key derived from a
  non-empty password that was set, and the initialisation vector.
\<close>

theorem no_frame_leaks:
  assumes ok: "list_all no_init es" and pw: "w_password (worker_run env url u es) \<noteq> ''''"
    and out: "encrypt_frame env (worker_run env url u es) iv f = Enqueued f'"
  shows "\<exists>password. password \<noteq> '''' \<and> PasswordEvent password \<in> set es \<and>
    (let n = getCryptoOffset f; key = createKey env password url u in
     fr_data f' = take n (fr_data f) @ aesEncrypt env key iv (take n (fr_data f)) (drop n (fr_data f)) @ iv)"
proof -
  let ?w = "worker_run env url u es" and ?P = "{pw. PasswordEvent pw \<in> set es}"
  have "list_all (\<lambda>e. no_init e \<and> password_in ?P e) es"
    unfolding list_all_iff
  proof
    fix e assume "e \<in> set es"
    then show "no_init e \<and> password_in ?P e"
      using ok by (cases rule: event.exhaust [of e]) (auto simp: list_all_iff)
  qed
  then have s: "enc_sound env ?P ?w" 
    by (rule sender.run_inv [unfolded admissible_all, OF enc_sound_init])
  obtain key where key: "w_encKey ?w = Some key"
    using pw out by (cases "w_encKey ?w") (auto simp: encrypt_frame_def)
  then obtain password where p: "password \<in> ?P" "password \<noteq> ''''" "key = createKey env password url u"
    using s unfolding enc_sound_def worker_run_params [OF ok] by blast
  then show ?thesis
    using out key by (auto simp: encrypt_frame_def Let_def split: if_splits)
qed

lemma decrypt_encrypt_frame:
  assumes aes: "\<And>iv aad pt. aesDecrypt env k iv aad (aesEncrypt env k iv aad pt) = Some pt"
    and s: "w_encKey s = Some k" and iv: "length iv = ivByteLength"
    and r: "oget (w_decrypt r) mid = Some c" "dx_key c = Some k"
    and len: "getCryptoOffset f \<le> length (fr_data f)"
  shows "\<exists>f'. encrypt_frame env s iv f = Enqueued f' \<and> decrypt_frame env r mid f' = f"
proof -
  let ?n = "getCryptoOffset f"
  let ?aad = "take ?n (fr_data f)" and ?pt = "drop ?n (fr_data f)"
  let ?ct = "aesEncrypt env k iv ?aad ?pt"
  let ?f = "f\<lparr>fr_data := ?aad @ ?ct @ iv\<rparr>"
  have enc: "encrypt_frame env s iv f = Enqueued ?f"
    using s len by (simp add: encrypt_frame_def Let_def)
  have off: "getCryptoOffset ?f = ?n" by (simp add: getCryptoOffset_def)
  have n: "length ?aad = ?n" using len by simp
  have parts: "take ?n (fr_data ?f) = ?aad" "js_slice ?n (length (fr_data ?f) - ivByteLength) (fr_data ?f) = ?ct"
    "drop (length (fr_data ?f) - ivByteLength) (fr_data ?f) = iv"
    using n iv by (simp_all add: js_slice_def)
  have "decrypt_frame env r mid ?f = f"
    using r iv n aes [of iv ?aad ?pt] parts
    unfolding decrypt_frame_def Let_def off by simp
  with enc show ?thesis by blast
qed

text \<open>
  C7. End to end: a sender whose password was never cleared and a receiver, both initialised
  for the same room, both idle and with the same non-empty password. A frame that the sender
  transforms is restored by the receiver's transform of any track whose context is for the
  sender's user, whatever the two workers went through before.
\<close>

theorem frame_end_to_end:
  assumes aes: "\<And>k iv aad pt. aesDecrypt env k iv aad (aesEncrypt env k iv aad pt) = Some pt"
    and s: "list_all no_clear es" "w_jobs (worker_run env url sender es) = []"
    and r: "list_all no_init_reject rs" "w_jobs (worker_run env url receiver rs) = []"
    and pw: "w_password (worker_run env url sender es) = password"
      "w_password (worker_run env url receiver rs) = password" "password \<noteq> ''''"
    and c: "oget (w_decrypt (worker_run env url receiver rs)) mid = Some c" "dx_userId c = sender"
    and f: "getCryptoOffset f \<le> length (fr_data f)" and iv: "length iv = ivByteLength"
  shows "\<exists>f'. encrypt_frame env (worker_run env url sender es) iv f = Enqueued f' \<and>
    decrypt_frame env (worker_run env url receiver rs) mid f' = f"
proof -
  let ?s = "worker_run env url sender es" and ?r = "worker_run env url receiver rs"
  have no_init: "list_all no_init es"
    using s(1) by (rule list_all_mono') (rename_tac e, case_tac e, simp_all)
  have "sender_inv env ?s"
    using sender_inv_init s(1) by (rule sending.run_inv [unfolded admissible_all])
  then have "w_encKey ?s = Some (createKey env password url sender)"
    using s(2) pw worker_run_params [OF no_init, of env url sender]
    by (auto simp: sender_inv_def enc_ready_def)
  moreover have "dx_key c = Some (createKey env password url sender)"
    using decrypt_contexts_settle' [OF r c(1)] pw c(2) by simp
  ultimately show ?thesis using decrypt_encrypt_frame [OF aes _ iv c(1) _ f] by blast
qed

text \<open>
  C36. The encryption context keeps its password when the room password is cleared. Setting
  the same password again therefore derives no key: the worker is idle, has a password and no
  key, and drops every frame.
\<close>

theorem password_set_again_drops:
  assumes "password \<noteq> ''''"
  shows "let w = worker_run env url u
           [PasswordEvent password, Settle 0, Settle 0, PasswordEvent '''', Settle 0,
            PasswordEvent password, Settle 0]
         in w_jobs w = [] \<and> w_password w = password \<and> encrypt_frame env w iv f = Dropped"
  using assms by (simp add: worker_defs new_worker_def drop_nth_def regenerate_def encrypt_frame_def)

text \<open>
  C37. Clearing the password does not overtake a derivation that is under way. A sender that was up to
  anything gets a new password, which is cleared at once, and then only messages for receivers: once
  it is idle, the room has no password, and every frame that is long enough leaves encrypted under the
  key of the cleared password. A receiver that settled without a password passes what it gets on as it is,
  so it plays the ciphertext.
\<close>

theorem password_cleared_still_encrypts:
  assumes "list_all no_init es" and "password \<noteq> ''''" and "w_encPassword (worker_run env url u es) \<noteq> password"
    and "list_all for_receivers fs" and "s = worker_run env url u (es @ [PasswordEvent password, PasswordEvent ''''] @ fs)"
    and "w_jobs s = []"
    and "list_all no_init_reject rs" and "r = worker_run env url v rs" and "w_jobs r = []" and "w_password r = ''''"
    and "getCryptoOffset f \<le> length (fr_data f)"
  shows "w_password s = '''' \<and> (\<exists>f'. encrypt_frame env s iv f = Enqueued f' \<and>
    (let n = getCryptoOffset f; key = createKey env password url u in
     fr_data f' = take n (fr_data f) @ aesEncrypt env key iv (take n (fr_data f)) (drop n (fr_data f)) @ iv) \<and>
    decrypt_frame env r mid f' = f')"
proof -
  let ?w = "worker_run env url u es"
  have "list_all (\<lambda>e. no_init e \<and> password_in UNIV e) es"
    by (rule list_all_mono' [OF assms(1)]) (rename_tac e, case_tac e, simp_all)
  then have "enc_sound env UNIV ?w" by (rule sender.run_inv [unfolded admissible_all, OF enc_sound_init])
  from late_key_starts [OF this assms(2,3)] assms(4)
  have "late_key env password s"
    unfolding assms(5) foldl_append by (rule late.run_inv [unfolded admissible_all])
  moreover have "w_url s = url" "w_userId s = u"
  proof -
    have "list_all no_init fs"
      by (rule list_all_mono' [OF assms(4)]) (rename_tac e, case_tac e, simp_all)
    then show "w_url s = url" "w_userId s = u"
      using worker_run_params [of "es @ [PasswordEvent password, PasswordEvent ''''] @ fs" env url u] assms(1)
      by (simp_all add: assms(5))
  qed
  ultimately have s: "w_password s = ''''" "w_encKey s = Some (createKey env password url u)"
    using assms(6) by (auto simp: late_key_def)
  have "dx_key c = None" if "oget (w_decrypt r) mid = Some c" for c
    using decrypt_contexts_settle' [of rs env url v mid c] assms(7-10) that by simp
  then have "decrypt_frame env r mid f' = f'" for f'
    by (auto simp: decrypt_frame_def split: option.split)
  then show ?thesis
    using s assms(11) by (simp add: encrypt_frame_def Let_def)
qed

section \<open>Runs that meet the hypotheses\<close>

definition toy_env :: "byte list crypto_env" where
  "toy_env = \<lparr>textEncode = map of_char, deriveKey = (@),
     aesEncrypt = (\<lambda>k iv aad pt. k @ pt),
     aesDecrypt = (\<lambda>k iv aad ct. if take (length k) ct = k then Some (drop (length k) ct) else None)\<rparr>"

lemma toy_aes: "aesDecrypt toy_env k iv aad (aesEncrypt toy_env k iv aad pt) = Some pt"
  by (simp add: toy_env_def)

definition receiver_events :: "event list" where
  "receiver_events = [DecryptStreamEvent ''0'' ''sfu'',
     MetadataEvent [\<lparr>md_mid = ''0'', md_kind = ''video'', md_userId = ''ann'', md_streamId = ''s''\<rparr>],
     PasswordEvent ''pw'', Settle 0, Settle 0, Settle 0]"

definition sender_events :: "event list" where
  "sender_events = [EncryptStreamEvent, PasswordEvent ''old'', PasswordEvent ''pw'', Settle 1, Settle 0,
     Settle 0, Settle 0]"

lemma toy_run:
  "worker_run toy_env ''u'' ''bob'' receiver_events =
    \<lparr>w_url = ''u'', w_userId = ''bob'',
     w_metadata = [(''0'', \<lparr>md_mid = ''0'', md_kind = ''video'', md_userId = ''ann'', md_streamId = ''s''\<rparr>)],
     w_password = ''pw'',
     w_decrypt = [(''0'', \<lparr>dx_obj = 2, dx_key = Some (createKey toy_env ''pw'' ''u'' ''ann''),
                           dx_userId = ''ann'', dx_password = ''pw''\<rparr>)],
     w_encKey = Some (createKey toy_env ''pw'' ''u'' ''bob''), w_encPassword = ''pw'',
     w_nextObj = 3, w_jobs = []\<rparr>"
  by (simp add: receiver_events_def worker_defs Let_def new_worker_def drop_nth_def regenerate_def
      handleMetadata_def getUserId_def)

lemma toy_sender:
  "worker_run toy_env ''u'' ''ann'' sender_events =
    \<lparr>w_url = ''u'', w_userId = ''ann'', w_metadata = [], w_password = ''pw'', w_decrypt = [],
     w_encKey = Some (createKey toy_env ''pw'' ''u'' ''ann''), w_encPassword = ''pw'',
     w_nextObj = 0, w_jobs = []\<rparr>"
  by (simp add: sender_events_def worker_defs Let_def new_worker_def drop_nth_def regenerate_def)

theorem decrypt_key_never_stale_witness:
  "\<exists>c. oget (w_decrypt (worker_run toy_env ''u'' ''bob'' receiver_events)) ''0'' = Some c \<and>
    dx_key c = Some (createKey toy_env (dx_password c) ''u'' (dx_userId c)) \<and> dx_password c \<noteq> ''''"
proof -
  have "list_all no_init receiver_events" by (simp add: receiver_events_def)
  from decrypt_key_never_stale [OF this, of toy_env "''u''" "''bob''" "''0''"]
  show ?thesis unfolding toy_run by simp
qed

theorem decrypt_contexts_settle_witness:
  "\<exists>c. oget (w_decrypt (worker_run toy_env ''u'' ''bob'' receiver_events)) ''0'' = Some c \<and>
    dx_key c = Some (createKey toy_env ''pw'' ''u'' ''ann'')"
proof -
  have "list_all no_init_reject receiver_events" by (simp add: receiver_events_def)
  from decrypt_contexts_settle [OF this, of toy_env "''u''" "''bob''" "''0''"]
  show ?thesis unfolding toy_run by simp
qed

theorem no_frame_leaks_witness:
  "\<exists>f'. encrypt_frame toy_env (worker_run toy_env ''u'' ''ann'' sender_events) [9]
      \<lparr>fr_type = NoType, fr_data = [1, 2]\<rparr> = Enqueued f' \<and> fr_data f' \<noteq> [1, 2]"
proof -
  let ?f = "\<lparr>fr_type = NoType, fr_data = [1, 2]\<rparr>" 
  let ?f' = "\<lparr>fr_type = NoType, fr_data = [1] @ createKey toy_env ''pw'' ''u'' ''ann'' @ [2, 9]\<rparr>"
  have "list_all no_init sender_events" by (simp add: sender_events_def)
  moreover have "w_password (worker_run toy_env ''u'' ''ann'' sender_events) \<noteq> ''''"
    unfolding toy_sender by simp
  moreover have "encrypt_frame toy_env (worker_run toy_env ''u'' ''ann'' sender_events) [9] ?f = Enqueued ?f'"
    unfolding toy_sender by (simp add: encrypt_frame_def getCryptoOffset_def toy_env_def)
  ultimately show ?thesis
    using no_frame_leaks [of sender_events toy_env "''u''" "''ann''" "[9]" ?f ?f'] by auto
qed

theorem frame_end_to_end_witness:
  "\<exists>f'. encrypt_frame toy_env (worker_run toy_env ''u'' ''ann'' sender_events) (replicate 16 7)
      \<lparr>fr_type = DeltaFrame, fr_data = [1, 2, 3, 4]\<rparr> = Enqueued f' \<and>
    decrypt_frame toy_env (worker_run toy_env ''u'' ''bob'' receiver_events) ''0'' f' =
      \<lparr>fr_type = DeltaFrame, fr_data = [1, 2, 3, 4]\<rparr>"
proof (rule frame_end_to_end [OF toy_aes])
  show "list_all no_clear sender_events" by (simp add: sender_events_def)
  show "list_all no_init_reject receiver_events" by (simp add: receiver_events_def)
qed (simp_all only: toy_run toy_sender, simp_all add: getCryptoOffset_def ivByteLength_def, simp)

theorem password_set_again_drops_witness:
  "w_encKey (worker_run toy_env ''u'' ''ann'' [PasswordEvent ''pw'', Settle 0, Settle 0]) \<noteq> None \<and>
   encrypt_frame toy_env (worker_run toy_env ''u'' ''ann''
     [PasswordEvent ''pw'', Settle 0, Settle 0, PasswordEvent '''', Settle 0, PasswordEvent ''pw'', Settle 0])
     [] \<lparr>fr_type = NoType, fr_data = [1]\<rparr> = Dropped"
  using password_set_again_drops [of "''pw''" toy_env "''u''" "''ann''" "[]" "\<lparr>fr_type = NoType, fr_data = [1]\<rparr>"]
  by (simp add: worker_defs new_worker_def drop_nth_def regenerate_def)

theorem password_cleared_still_encrypts_witness:
  "\<exists>f'. encrypt_frame toy_env (worker_run toy_env ''u'' ''ann''
        (sender_events @ [PasswordEvent ''new'', PasswordEvent ''''] @ [Settle 0, Settle 0, Settle 0])) [9]
      \<lparr>fr_type = NoType, fr_data = [1, 2]\<rparr> = Enqueued f' \<and>
    fr_data f' = [1] @ createKey toy_env ''new'' ''u'' ''ann'' @ [2, 9] \<and>
    decrypt_frame toy_env (worker_run toy_env ''u'' ''bob'' [DecryptStreamEvent ''0'' ''ann'']) ''0'' f' = f'"
proof -
  let ?s = "worker_run toy_env ''u'' ''ann''
      (sender_events @ [PasswordEvent ''new'', PasswordEvent ''''] @ [Settle 0, Settle 0, Settle 0])"
  let ?r = "worker_run toy_env ''u'' ''bob'' [DecryptStreamEvent ''0'' ''ann'']"
  have es: "list_all no_init sender_events" "w_encPassword (worker_run toy_env ''u'' ''ann'' sender_events) \<noteq> ''new''"
    by (simp add: sender_events_def) (simp only: toy_sender, simp)
  have s: "w_jobs ?s = []"
    by (simp only: foldl_append toy_sender) (simp add: worker_defs drop_nth_def regenerate_def)
  have r: "w_jobs ?r = []" "w_password ?r = ''''" by (simp_all add: worker_defs new_worker_def Let_def)
  show ?thesis
    using password_cleared_still_encrypts [of sender_events "''new''" toy_env "''u''" "''ann''" "[Settle 0, Settle 0, Settle 0]" ?s
        "[DecryptStreamEvent ''0'' ''ann'']" ?r "''bob''" "\<lparr>fr_type = NoType, fr_data = [1, 2]\<rparr>" "[9]" "''0''",
        OF es(1) _ es(2) _ refl s _ refl r]
    by (auto simp: getCryptoOffset_def toy_env_def)
qed

section \<open>The codec object\<close>

text \<open>\<open>InsertableStreamsCodec\<close>: senders and receivers are numbered, and the encoded streams of
  one are named by its number. \<open>codec_support\<close> is what the constructor finds in the
  environment.\<close>

datatype post =
    PostInit string string
  | PostPassword string
  | PostMetadata "track_metadata list"
  | PostEncrypt nat
  | PostDecrypt string string "nat option"

record codec =
  cd_worker :: bool
  cd_seen :: "nat list"
  cd_posted :: "post list"

record codec_support =
  has_blob_urls :: bool
  has_encoded_streams :: bool
  worker_starts :: bool
  init_posts :: bool

datatype create_result = NotAFunction | CreateThrows | CreateReturns

definition new_codec :: "codec_support \<Rightarrow> string \<Rightarrow> string \<Rightarrow> codec" where
  "new_codec env href userId =
    (let this = \<lparr>cd_worker = False, cd_seen = [], cd_posted = []\<rparr> in
     if \<not> has_blob_urls env then this
     else if \<not> has_encoded_streams env then this
     else if \<not> worker_starts env then this
     else if \<not> init_posts env then this\<lparr>cd_worker := True\<rparr>
     else this\<lparr>cd_worker := True, cd_posted := [PostInit href userId]\<rparr>)"

definition postMessage :: "post \<Rightarrow> codec \<Rightarrow> codec \<times> bool" where
  "postMessage message this =
    (if \<not> cd_worker this then (this, False)
     else (this\<lparr>cd_posted := cd_posted this @ [message]\<rparr>, True))"

definition setPassword :: "string \<Rightarrow> codec \<Rightarrow> codec \<times> bool" where
  "setPassword password this = postMessage (PostPassword password) this"

definition setTrackMetadata :: "track_metadata list \<Rightarrow> codec \<Rightarrow> codec \<times> bool" where
  "setTrackMetadata metadata this = postMessage (PostMetadata metadata) this"

definition getEncodedStreams :: "nat \<Rightarrow> create_result \<Rightarrow> nat option" where
  "getEncodedStreams senderOrReceiver res =
    (case res of NotAFunction \<Rightarrow> None | CreateThrows \<Rightarrow> None | CreateReturns \<Rightarrow> Some senderOrReceiver)"

definition codec_encrypt :: "nat \<Rightarrow> create_result \<Rightarrow> codec \<Rightarrow> codec \<times> bool" where
  "codec_encrypt sender res this =
    (if \<not> cd_worker this then (this, False)
     else if sender \<in> set (cd_seen this) then (this, True)
     else
       let this = this\<lparr>cd_seen := cd_seen this @ [sender]\<rparr> in
       case getEncodedStreams sender res of
         None \<Rightarrow> (this, False)
       | Some streams \<Rightarrow> (this\<lparr>cd_posted := cd_posted this @ [PostEncrypt streams]\<rparr>, True))"

definition codec_decrypt :: "nat \<Rightarrow> string \<Rightarrow> string \<Rightarrow> create_result \<Rightarrow> codec \<Rightarrow> codec \<times> bool" where
  "codec_decrypt receiver mid userId res this =
    (if \<not> cd_worker this then (this, False)
     else if receiver \<in> set (cd_seen this) then
       (this\<lparr>cd_posted := cd_posted this @ [PostDecrypt mid userId None]\<rparr>, True)
     else case getEncodedStreams receiver res of
       None \<Rightarrow> (this, False)
     | Some streams \<Rightarrow>
         (this\<lparr>cd_seen := cd_seen this @ [receiver],
               cd_posted := cd_posted this @ [PostDecrypt mid userId (Some streams)]\<rparr>, True))"

datatype codec_call =
    SetPassword string
  | SetTrackMetadata "track_metadata list"
  | CallEncrypt nat create_result
  | CallDecrypt nat string string create_result

fun codec_step :: "codec \<Rightarrow> codec_call \<Rightarrow> codec" where
  "codec_step this (SetPassword password) = fst (setPassword password this)"
| "codec_step this (SetTrackMetadata metadata) = fst (setTrackMetadata metadata this)"
| "codec_step this (CallEncrypt sender res) = fst (codec_encrypt sender res this)"
| "codec_step this (CallDecrypt receiver mid userId res) = fst (codec_decrypt receiver mid userId res this)"

text \<open>\<open>handed_over\<close>: the encoded streams that were transferred to the worker.\<close>

fun streams_of :: "post \<Rightarrow> nat list" where
  "streams_of (PostEncrypt n) = [n]"
| "streams_of (PostDecrypt mid userId (Some n)) = [n]"
| "streams_of _ = []"

definition handed_over :: "codec \<Rightarrow> nat list" where
  "handed_over this = concat (map streams_of (cd_posted this))"

definition codec_inv :: "codec \<Rightarrow> bool" where
  "codec_inv this \<longleftrightarrow> distinct (handed_over this) \<and> set (handed_over this) \<subseteq> set (cd_seen this) \<and>
     (\<not> cd_worker this \<longrightarrow> cd_posted this = [])"

lemmas codec_defs = setPassword_def setTrackMetadata_def postMessage_def getEncodedStreams_def
  codec_encrypt_def codec_decrypt_def codec_inv_def handed_over_def

lemma codec_inv_step: "codec_inv this \<Longrightarrow> codec_inv (codec_step this call)"
  by (cases call) (auto simp: codec_defs Let_def split: create_result.split)

interpretation codec: machine codec_step "\<lambda>_ _. True" codec_inv
  by unfold_locales (rule codec_inv_step)

lemma codec_inv_new: "codec_inv (new_codec env href userId)"
  by (auto simp: codec_defs new_codec_def Let_def)

text \<open>
  Over every sequence of calls on a codec, the encoded streams of a sender or a receiver
  are handed to the worker at most once, only for endpoints the codec remembers, and nothing is
  posted in an environment without support for encoded streams.
\<close>

lemma codec_hands_over_once:
  "let this = run codec_step (new_codec env href userId) calls in
   distinct (handed_over this) \<and> set (handed_over this) \<subseteq> set (cd_seen this) \<and>
   (cd_posted this = [] \<or> has_blob_urls env \<and> has_encoded_streams env \<and> worker_starts env)"
proof -
  let ?this = "run codec_step (new_codec env href userId) calls"
  have inv: "codec_inv ?this"
    by (rule codec.run_inv [unfolded admissible_all, OF codec_inv_new]) (simp add: list_all_iff)
  have "cd_worker (codec_step c call) = cd_worker c" for c call
    by (cases call) (auto simp: codec_defs Let_def split: option.split)
  then have "cd_worker (run codec_step c calls) = cd_worker c" for c
    by (induction calls arbitrary: c) simp_all
  moreover have "cd_worker (new_codec env href userId) \<Longrightarrow>
      has_blob_urls env \<and> has_encoded_streams env \<and> worker_starts env"
    by (simp add: new_codec_def Let_def split: if_splits)
  ultimately show ?thesis using inv unfolding codec_inv_def Let_def by blast
qed

text \<open>
  \<open>encrypt\<close> remembers a sender before it asks for the encoded streams: when that fails
  it answers false, and every later call for the same sender answers true although no stream of
  the sender was ever handed to the worker. \<open>decrypt\<close> does not have this flaw: after a failed
  call the receiver is asked again.
\<close>

lemma encrypt_claims_success_after_failure:
  assumes "cd_worker this" and "n \<notin> set (cd_seen this)" and "n \<notin> set (handed_over this)"
  shows "(let first = codec_encrypt n CreateThrows this; second = codec_encrypt n res (fst first) in
           \<not> snd first \<and> snd second \<and> n \<notin> set (handed_over (fst second))) \<and>
    (let first = codec_decrypt n mid userId CreateThrows this;
         second = codec_decrypt n mid userId CreateReturns (fst first) in
           \<not> snd first \<and> snd second \<and> n \<in> set (handed_over (fst second)))"
  using assms by (simp_all add: codec_defs Let_def)

end
