(* ===== verification/Async.thy ===== *)
theory Async
  imports Prelude
begin

text \<open>
  The asynchronous actions of \<open>async/\<close>: an action creator of \<open>makeAction\<close> returns a promise
  with a type, and the middleware turns it into a pending action and, when the promise is
  settled, into a resolved or a rejected one. The store's \<open>dispatch\<close> is a parameter: it
  returns the next state of the store and the error it threw, if any.
\<close>

record err_obj =
  er_name :: string
  er_message :: string

datatype 'p async_action = Pending | Resolved 'p | Rejected err_obj

fun isRejectedAction :: "'p async_action \<Rightarrow> bool" where
  "isRejectedAction (Rejected _) = True"
| "isRejectedAction _ = False"

text \<open>\<open>reduce\<close> chooses the handler by the status.\<close>

fun reduce ::
  "'s \<Rightarrow> 'p async_action \<Rightarrow> ('s \<Rightarrow> 's) \<Rightarrow> ('s \<Rightarrow> 'p \<Rightarrow> 's) \<Rightarrow> ('s \<Rightarrow> err_obj \<Rightarrow> 's) \<Rightarrow> 's"
where
  "reduce st Pending handlePending handleResolved handleRejected = handlePending st"
| "reduce st (Resolved p) handlePending handleResolved handleRejected = handleResolved st p"
| "reduce st (Rejected e) handlePending handleResolved handleRejected = handleRejected st e"

section \<open>The middleware\<close>

text \<open>A dispatched value is a plain action or the pending action of a type. \<open>settled\<close> is what the
  continuations of the promise do once it is fulfilled or has failed: a failure of the dispatch of
  the resolved action is caught by the same handler as a failure of the promise.\<close>

datatype 'a dispatched = Plain 'a | PendingAction string

type_synonym ('s, 'p) store_dispatch = "string \<times> 'p async_action \<Rightarrow> 's \<Rightarrow> err_obj option \<times> 's"

definition on_dispatch :: "('a \<Rightarrow> 's \<Rightarrow> 's) \<Rightarrow> (string \<times> 'p async_action \<Rightarrow> 's \<Rightarrow> 's) \<Rightarrow> 'a dispatched \<Rightarrow> 's \<Rightarrow> 's" where
  "on_dispatch next_plain next_async action st = (case action of
      Plain a \<Rightarrow> next_plain a st
    | PendingAction type \<Rightarrow> next_async (type, Pending) st)"

definition settled ::
  "('s, 'p) store_dispatch \<Rightarrow> string \<Rightarrow> err_obj + 'p \<Rightarrow> 's \<Rightarrow> err_obj option \<times> 's"
where
  "settled dispatch type outcome st =
    (let (err, st) = (case outcome of
         Inl e \<Rightarrow> (Some e, st)
       | Inr payload \<Rightarrow> dispatch (type, Resolved payload) st)
     in case err of None \<Rightarrow> (None, st) | Some e \<Rightarrow> dispatch (type, Rejected e) st)"

text \<open>A store that records what is dispatched; \<open>throws\<close> says for which actions its reducers
  throw.\<close>

definition logging :: "(string \<times> 'p async_action \<Rightarrow> err_obj option) \<Rightarrow> ((string \<times> 'p async_action) list, 'p) store_dispatch" where
  "logging throws action log = (throws action, log @ [action])"

definition async_run ::
  "(string \<times> 'p async_action \<Rightarrow> err_obj option) \<Rightarrow> string \<Rightarrow> err_obj + 'p \<Rightarrow>
     err_obj option \<times> (string \<times> 'p async_action) list"
where
  "async_run throws type outcome =
     settled (logging throws) type outcome (on_dispatch (\<lambda>_ log. log) (\<lambda>a log. log @ [a]) (PendingAction type :: unit dispatched) [])"

text \<open>
  An asynchronous action is dispatched as pending first. If the promise is fulfilled and no
  reducer throws, exactly the resolved action follows; if it fails, exactly the rejected action
  with its error; and if a reducer throws on the resolved action, the rejected action with the
  reducer's error follows the resolved one.
\<close>

lemma middleware_actions:
  "snd (async_run throws type (Inl e)) = [(type, Pending), (type, Rejected e)] \<and>
   snd (async_run throws type (Inr p)) = (case throws (type, Resolved p) of
       None \<Rightarrow> [(type, Pending), (type, Resolved p)]
     | Some e' \<Rightarrow> [(type, Pending), (type, Resolved p), (type, Rejected e')]) \<and>
   (fst (async_run throws type outcome) \<noteq> None \<longleftrightarrow>
     (\<exists>e. throws (type, Rejected e) \<noteq> None \<and>
        (outcome = Inl e \<or> (\<exists>p. outcome = Inr p \<and> throws (type, Resolved p) = Some e))))"
  by (auto simp: async_run_def settled_def logging_def on_dispatch_def split: option.split sum.split)

end
