(* ===== verification/Streams.thy ===== *)
theory Streams
  imports SocketEvent Async
begin

text \<open>
  The reducer of \<open>reducers/streams.ts\<close>: local streams, the streams of the other users, the
  association of a track with a user's stream and the recording of local streams. A
  \<open>MediaStream\<close> is a mutable object, so streams are addresses into a heap; the module variables
  \<open>peerInstance\<close> and \<open>isRecording\<close>, the shared array of the default state, stopped tracks and
  revoked object URLs are the rest of the world the reducer changes. The browser's identifiers
  and object URLs and the peers of \<open>simple-peer\<close> are parameters (\<open>browser\<close>).
\<close>

named_theorems stream_defs \<open>the operations of the streams reducer\<close>

section \<open>Data\<close>

record track =
  tr_obj :: nat
  tr_id :: string
  tr_kind :: string
  tr_label :: string

datatype stream_type = Camera | Desktop

datatype media_kind = AudioKind | VideoKind

record media_track_payload =
  mt_kind :: media_kind
  mt_track :: "track option"
  mt_type :: stream_type

record stream_with_url =
  sw_stream :: nat
  sw_streamId :: string
  sw_url :: "string option"

record local_stream = stream_with_url +
  ls_type :: stream_type
  ls_mirror :: bool

record user_streams =
  us_userId :: string
  us_streams :: "stream_with_url list"

record track_association =
  ta_streamId :: string
  ta_userId :: string

record track_info =
  ti_track :: track
  ti_mid :: string
  ti_association :: "track_association option"

text \<open>The array of recorders is the one of \<open>defaultState\<close>, shared by all states that were not
  given another, or one of the state's own.\<close>

datatype recorders = DefaultArray | OwnArray "string list"

record streams_state =
  localStreams :: "(stream_type \<times> local_stream) list"
  streamsByUserId :: "user_streams obj"
  metadataByPeerIdMid :: "track_metadata obj"
  trackIdToPeerIdMid :: "string obj"
  tracksByPeerIdMid :: "track_info obj"
  localRecorders :: recorders
  streamsRecordUrl :: string
  isRecording :: bool

definition defaultState :: streams_state where
  "defaultState = \<lparr>localStreams = [], streamsByUserId = [], metadataByPeerIdMid = [],
     trackIdToPeerIdMid = [], tracksByPeerIdMid = [], localRecorders = DefaultArray,
     streamsRecordUrl = '''', isRecording = False\<rparr>"

record 'p browser =
  streamObjId :: "nat \<Rightarrow> string"
  objectURL :: "nat \<Rightarrow> string option"
  newPeer :: "string \<Rightarrow> string \<Rightarrow> nat \<Rightarrow> 'p"
  peerStreams :: "'p \<Rightarrow> nat list option"
  peerAddStream :: "nat \<Rightarrow> 'p \<Rightarrow> js_error + 'p"
  peerRemoveStream :: "nat \<Rightarrow> 'p \<Rightarrow> js_error + 'p"
  peerDestroy :: "'p \<Rightarrow> 'p"

record add_track_payload =
  at_mid :: string
  at_streamId :: string
  at_userId :: string
  at_track :: track

text \<open>\<open>onmute\<close> lists the tracks that have a handler of that name, \<open>onunmute\<close> what the handler of a track has
  captured.\<close>

record 'p stream_world =
  heap :: "nat \<Rightarrow> track list"
  nextStream :: nat
  stopped :: "track list"
  onmute :: "track list"
  onunmute :: "(track \<times> add_track_payload) list"
  revoked :: "string list"
  peers :: "'p list"
  peerInstance :: "nat option"
  recordingFlag :: bool
  defaultRecorders :: "string list"

section \<open>Browser objects\<close>

definition stream_addTrack :: "nat \<Rightarrow> track \<Rightarrow> 'p stream_world \<Rightarrow> 'p stream_world" where
  "stream_addTrack a track w =
     (if track \<in> set (heap w a) then w else w\<lparr>heap := (heap w)(a := heap w a @ [track])\<rparr>)"

definition stream_removeTrack :: "nat \<Rightarrow> track \<Rightarrow> 'p stream_world \<Rightarrow> 'p stream_world" where
  "stream_removeTrack a track w = w\<lparr>heap := (heap w)(a := filter (\<lambda>t. t \<noteq> track) (heap w a))\<rparr>"

definition revoke :: "string option \<Rightarrow> 'p stream_world \<Rightarrow> 'p stream_world" where
  "revoke url w = (case url of
      None \<Rightarrow> w
    | Some u \<Rightarrow> if u = '''' then w else w\<lparr>revoked := revoked w @ [u]\<rparr>)"

text \<open>The regular expression \<open>/back/i\<close>.\<close>

definition lower :: "char \<Rightarrow> char" where
  "lower c = (let n = of_char c :: nat in if 65 \<le> n \<and> n \<le> 90 then char_of (n + 32) else c)"

fun notMirroredRegexp :: "string \<Rightarrow> bool" where
  "notMirroredRegexp [] = False"
| "notMirroredRegexp (c # cs) = (take 4 (map lower (c # cs)) = ''back'' \<or> notMirroredRegexp cs)"

section \<open>Keys\<close>

definition peerIdMidSeparator :: string where
  "peerIdMidSeparator = ''::''"

definition getPeerIdMid :: "string \<Rightarrow> string \<Rightarrow> string" where
  "getPeerIdMid userId mid = userId @ peerIdMidSeparator @ mid"

text \<open>Reading an object with a key that may be \<open>undefined\<close>, which becomes a string.\<close>

definition key_string :: "string option \<Rightarrow> string" where
  "key_string k = (case k of None \<Rightarrow> ''undefined'' | Some s \<Rightarrow> s)"

definition getUserId :: "streams_state \<Rightarrow> add_track_payload \<Rightarrow> track_association" where
  "getUserId st payload =
    (case oget (metadataByPeerIdMid st) (getPeerIdMid (at_userId payload) (at_mid payload)) of
       Some md \<Rightarrow> \<lparr>ta_streamId = md_streamId md, ta_userId = md_userId md\<rparr>
     | None \<Rightarrow> \<lparr>ta_streamId = at_streamId payload, ta_userId = at_userId payload\<rparr>)"

section \<open>Tracks\<close>

definition addTrack ::
  "'p browser \<Rightarrow> add_track_payload \<Rightarrow> streams_state \<times> 'p stream_world \<Rightarrow> streams_state \<times> 'p stream_world"
where
  "addTrack br payload = (\<lambda>(st, w).
    let peerIdMid = getPeerIdMid (at_userId payload) (at_mid payload);
        a = getUserId st payload; userId = ta_userId a; streamId = ta_streamId a;
        track = at_track payload;
        userStreams = (case oget (streamsByUserId st) userId of
            Some us \<Rightarrow> us
          | None \<Rightarrow> \<lparr>us_userId = userId, us_streams = []\<rparr>);
        streams = us_streams userStreams;
        (streams, w) = (case List.find (\<lambda>s. sw_streamId s = streamId) streams of
            Some existing \<Rightarrow> (streams, stream_addTrack (sw_stream existing) track w)
          | None \<Rightarrow>
              let stream = nextStream w;
                  w = w\<lparr>nextStream := Suc stream, heap := (heap w)(stream := [])\<rparr>;
                  w = stream_addTrack stream track w
              in (streams @ [\<lparr>sw_stream = stream, sw_streamId = streamId, sw_url = objectURL br stream\<rparr>], w))
    in (st\<lparr>streamsByUserId := oset userId (userStreams\<lparr>us_streams := streams\<rparr>) (streamsByUserId st),
           trackIdToPeerIdMid := oset (tr_id track) peerIdMid (trackIdToPeerIdMid st),
           tracksByPeerIdMid := oset peerIdMid
             \<lparr>ti_track = track, ti_mid = at_mid payload, ti_association = Some a\<rparr> (tracksByPeerIdMid st)\<rparr>,
        w))"

definition removeTrack ::
  "track \<Rightarrow> streams_state \<times> 'p stream_world \<Rightarrow> streams_state \<times> 'p stream_world"
where
  "removeTrack track = (\<lambda>(st, w).
    let peerIdMid = key_string (oget (trackIdToPeerIdMid st) (tr_id track)) in
    case oget (tracksByPeerIdMid st) peerIdMid of
      None \<Rightarrow> (st, w)
    | Some t \<Rightarrow> (case ti_association t of
        None \<Rightarrow> (st, w)
      | Some a \<Rightarrow> (case oget (streamsByUserId st) (ta_userId a) of
          None \<Rightarrow> (st, w)
        | Some userStreams \<Rightarrow>
          (case List.find (\<lambda>s. sw_streamId s = ta_streamId a) (us_streams userStreams) of
             None \<Rightarrow> (st, w)
           | Some s \<Rightarrow>
               let w = stream_removeTrack (sw_stream s) track w;
                   (streams, w) =
                     (if heap w (sw_stream s) = []
                      then (filter (\<lambda>s'. s' \<noteq> s) (us_streams userStreams), revoke (sw_url s) w)
                      else (us_streams userStreams, w));
                   tracks = oset peerIdMid
                     \<lparr>ti_track = track, ti_mid = ti_mid t, ti_association = None\<rparr> (tracksByPeerIdMid st)
               in if streams \<noteq> []
                  then (st\<lparr>streamsByUserId :=
                             oset (ta_userId a) (userStreams\<lparr>us_streams := streams\<rparr>) (streamsByUserId st),
                           tracksByPeerIdMid := tracks\<rparr>, w)
                  else (st\<lparr>streamsByUserId := omit (streamsByUserId st) [ta_userId a],
                           tracksByPeerIdMid := tracks\<rparr>, w)))))"

text \<open>The loop of \<open>unassociateUserTracks\<close> reads the state before the action and collects the
  entries to overwrite; a track that is not registered makes it throw.\<close>

fun unassociate_tracks ::
  "streams_state \<Rightarrow> nat \<Rightarrow> track list \<Rightarrow> track_info obj \<times> 'p stream_world \<Rightarrow>
     js_error option \<times> track_info obj \<times> 'p stream_world"
where
  "unassociate_tracks st a [] acc = (None, acc)"
| "unassociate_tracks st a (track # ts) (acc, w) =
    (let peerIdMid = key_string (oget (trackIdToPeerIdMid st) (tr_id track)) in
     case oget (tracksByPeerIdMid st) peerIdMid of
       None \<Rightarrow> (Some TypeError, acc, w)
     | Some t \<Rightarrow> unassociate_tracks st a ts
         (oset peerIdMid \<lparr>ti_track = track, ti_mid = ti_mid t, ti_association = None\<rparr> acc,
          stream_removeTrack a track w))"

fun unassociate_streams ::
  "streams_state \<Rightarrow> stream_with_url list \<Rightarrow> track_info obj \<times> 'p stream_world \<Rightarrow>
     js_error option \<times> track_info obj \<times> 'p stream_world"
where
  "unassociate_streams st [] acc = (None, acc)"
| "unassociate_streams st (s # ss) (acc, w) =
    (case unassociate_tracks st (sw_stream s) (heap w (sw_stream s)) (acc, w) of
       (Some e, acc') \<Rightarrow> (Some e, acc')
     | (None, acc') \<Rightarrow> unassociate_streams st ss acc')"

definition unassociateUserTracks ::
  "string \<Rightarrow> streams_state \<times> 'p stream_world \<Rightarrow> (js_error + streams_state) \<times> 'p stream_world"
where
  "unassociateUserTracks userId = (\<lambda>(st, w).
    case oget (streamsByUserId st) userId of
      None \<Rightarrow> (Inr st, w)
    | Some userStreams \<Rightarrow>
        (case unassociate_streams st (us_streams userStreams) ([], w) of
           (Some e, acc, w) \<Rightarrow> (Inl e, w)
         | (None, acc, w) \<Rightarrow>
             (Inr (st\<lparr>streamsByUserId := omit (streamsByUserId st) [userId],
                      tracksByPeerIdMid := fold (\<lambda>(k, v). oset k v) acc (tracksByPeerIdMid st)\<rparr>), w)))"

section \<open>Metadata and peers\<close>

definition setMetadata ::
  "'p browser \<Rightarrow> metadata_payload \<Rightarrow> streams_state \<times> 'p stream_world \<Rightarrow> streams_state \<times> 'p stream_world"
where
  "setMetadata br payload = (\<lambda>(st, w).
    let metadata = fold (\<lambda>md. oset (getPeerIdMid (mp_userId payload) (md_mid md)) md) (mp_metadata payload) [];
        (st1, w1) = fold (\<lambda>(peerIdMid, t) new.
            if oget metadata peerIdMid = None \<and> ti_association t \<noteq> None
            then removeTrack (ti_track t) new else new)
          (tracksByPeerIdMid st) (st, w)
    in fold (\<lambda>md new.
         let peerIdMid = getPeerIdMid (mp_userId payload) (md_mid md) in
         case oget (tracksByPeerIdMid st) peerIdMid of
           None \<Rightarrow> new
         | Some t \<Rightarrow> (case ti_association t of
             None \<Rightarrow> addTrack br \<lparr>at_mid = md_mid md, at_streamId = md_streamId md,
                       at_userId = mp_userId payload, at_track = ti_track t\<rparr> new
           | Some a \<Rightarrow>
               if ta_streamId a = md_streamId md \<and> ta_userId a = md_userId md then new
               else addTrack br \<lparr>at_mid = md_mid md, at_streamId = ta_streamId a,
                      at_userId = mp_userId payload, at_track = ti_track t\<rparr>
                    (removeTrack (ti_track t) new)))
       (mp_metadata payload) (st1\<lparr>metadataByPeerIdMid := metadata\<rparr>, w1))"

definition startsWith :: "string \<Rightarrow> string \<Rightarrow> bool" where
  "startsWith s p \<longleftrightarrow> take (length p) s = p"

text \<open>\<open>delete\<close> works on the object that the state and all states derived from it share, so the
  following \<open>removeTrack\<close> reads it.\<close>

definition removePeer ::
  "string \<Rightarrow> streams_state \<times> 'p stream_world \<Rightarrow> streams_state \<times> 'p stream_world"
where
  "removePeer userId = (\<lambda>(st, w).
    let keysToRemove = filter (\<lambda>key. startsWith key (userId @ peerIdMidSeparator)) (okeys (tracksByPeerIdMid st));
        (st1, w1) = fold (\<lambda>key (new, w).
            case oget (tracksByPeerIdMid st) key of
              None \<Rightarrow> (new, w)
            | Some t \<Rightarrow>
                let (new, w) = (if ti_association t \<noteq> None then removeTrack (ti_track t) (new, w) else (new, w))
                in (new\<lparr>trackIdToPeerIdMid := odel (tr_id (ti_track t)) (trackIdToPeerIdMid new)\<rparr>, w))
          keysToRemove (st, w)
    in (st1\<lparr>tracksByPeerIdMid := omit (tracksByPeerIdMid st) keysToRemove\<rparr>, w1))"

section \<open>Local streams and recording\<close>

definition stopStream :: "'a stream_with_url_scheme \<Rightarrow> 'p stream_world \<Rightarrow> 'p stream_world" where
  "stopStream s w =
    (let ts = heap w (sw_stream s)
     in revoke (sw_url s) (w\<lparr>stopped := stopped w @ ts, onmute := filter (\<lambda>t. t \<notin> set ts) (onmute w),
          onunmute := filter (\<lambda>(t, _). t \<notin> set ts) (onunmute w)\<rparr>))"

definition stopAllTracks :: "stream_with_url list \<Rightarrow> 'p stream_world \<Rightarrow> 'p stream_world" where
  "stopAllTracks streams w = fold stopStream streams w"

definition initializeMediaRecorder ::
  "'p browser \<Rightarrow> string \<Rightarrow> string \<Rightarrow> nat \<Rightarrow> 'p stream_world \<Rightarrow> (js_error + string) \<times> 'p stream_world"
where
  "initializeMediaRecorder br roomID userID stream w =
    (if roomID = '''' \<and> userID = '''' then
       (case peerInstance w of
          None \<Rightarrow> (Inl TypeError, w)
        | Some p \<Rightarrow> (case peerStreams br (peers w ! p) of
            None \<Rightarrow> (Inl TypeError, w)
          | Some ss \<Rightarrow>
              if (\<exists>s \<in> set ss. streamObjId br s = streamObjId br stream)
              then (Inr (streamObjId br stream), w)
              else (case peerAddStream br stream (peers w ! p) of
                  Inl e \<Rightarrow> (Inl e, w)
                | Inr peer \<Rightarrow> (Inr (streamObjId br stream), w\<lparr>peers := (peers w)[p := peer]\<rparr>))))
     else (Inr (streamObjId br stream),
           w\<lparr>peers := peers w @ [newPeer br roomID userID stream], peerInstance := Some (length (peers w))\<rparr>))"

definition recordAdditionalStream ::
  "'p browser \<Rightarrow> local_stream \<Rightarrow> string \<Rightarrow> 'p stream_world \<Rightarrow> (js_error + string) \<times> 'p stream_world"
where
  "recordAdditionalStream br localStream url w =
     initializeMediaRecorder br '''' '''' (sw_stream localStream) w"

definition recorder_ids :: "recorders \<Rightarrow> 'p stream_world \<Rightarrow> string list" where
  "recorder_ids r w = (case r of DefaultArray \<Rightarrow> defaultRecorders w | OwnArray ids \<Rightarrow> ids)"

definition push_recorder :: "recorders \<Rightarrow> string \<Rightarrow> 'p stream_world \<Rightarrow> recorders \<times> 'p stream_world" where
  "push_recorder r x w = (case r of
      DefaultArray \<Rightarrow> (DefaultArray, w\<lparr>defaultRecorders := defaultRecorders w @ [x]\<rparr>)
    | OwnArray ids \<Rightarrow> (OwnArray (ids @ [x]), w))"

definition addLocalStream ::
  "'p browser \<Rightarrow> stream_type \<Rightarrow> nat \<Rightarrow> streams_state \<times> 'p stream_world \<Rightarrow>
     (js_error + streams_state) \<times> 'p stream_world"
where
  "addLocalStream br type stream = (\<lambda>(st, w).
    let streamWithURL = \<lparr>sw_stream = stream, sw_streamId = streamObjId br stream, sw_url = objectURL br stream,
          ls_type = type,
          ls_mirror = (type = Camera \<and>
            (\<exists>t \<in> set (heap w stream). tr_kind t = ''video'' \<and> \<not> notMirroredRegexp (tr_label t)))\<rparr>;
        w = (case map_of (localStreams st) type of
            Some existingStream \<Rightarrow> stopStream existingStream w
          | None \<Rightarrow> w);
        new = st\<lparr>localStreams := AList.update type streamWithURL (localStreams st)\<rparr>
    in if isRecording st then
         (case recordAdditionalStream br streamWithURL (streamsRecordUrl st) w of
            (Inl e, w) \<Rightarrow> (Inl e, w)
          | (Inr recorder, w) \<Rightarrow>
              let (r, w) = push_recorder (localRecorders st) recorder w
              in (Inr (new\<lparr>localRecorders := r\<rparr>), w))
       else (Inr new, w))"

definition stopRecordAdditionalStream ::
  "'p browser \<Rightarrow> string list \<Rightarrow> local_stream \<Rightarrow> 'p stream_world \<Rightarrow> (js_error + string list) \<times> 'p stream_world"
where
  "stopRecordAdditionalStream br recorders localStream w =
    (case peerInstance w of
       None \<Rightarrow> (Inl TypeError, w)
     | Some p \<Rightarrow> (case peerRemoveStream br (sw_stream localStream) (peers w ! p) of
         Inl e \<Rightarrow> (Inl e, w)
       | Inr peer \<Rightarrow> (Inr (filter (\<lambda>r. r \<noteq> sw_streamId localStream) recorders),
                     w\<lparr>peers := (peers w)[p := peer]\<rparr>)))"

definition removeLocalStream ::
  "'p browser \<Rightarrow> stream_type \<Rightarrow> streams_state \<times> 'p stream_world \<Rightarrow>
     (js_error + streams_state) \<times> 'p stream_world"
where
  "removeLocalStream br streamType = (\<lambda>(st, w).
    case map_of (localStreams st) streamType of
      None \<Rightarrow> (Inr st, w)
    | Some existing \<Rightarrow>
        let new = st\<lparr>localStreams := AList.delete streamType (localStreams st)\<rparr> in
        if isRecording st then
          (case stopRecordAdditionalStream br (recorder_ids (localRecorders st) w) existing w of
             (Inl e, w) \<Rightarrow> (Inl e, w)
           | (Inr rs, w) \<Rightarrow> (Inr (new\<lparr>localRecorders := OwnArray rs\<rparr>), w))
        else (Inr (new\<lparr>localRecorders := OwnArray []\<rparr>), w))"

fun record_all ::
  "'p browser \<Rightarrow> string \<Rightarrow> string \<Rightarrow> (stream_type \<times> local_stream) list \<Rightarrow> 'p stream_world \<Rightarrow>
     (js_error + string list) \<times> 'p stream_world"
where
  "record_all br roomID userID [] w = (Inr [], w)"
| "record_all br roomID userID ((_, s) # ss) w =
    (case initializeMediaRecorder br roomID userID (sw_stream s) w of
       (Inl e, w) \<Rightarrow> (Inl e, w)
     | (Inr r, w) \<Rightarrow> (case record_all br roomID userID ss w of
         (Inl e, w) \<Rightarrow> (Inl e, w)
       | (Inr rs, w) \<Rightarrow> (Inr (r # rs), w)))"

definition recordLocalStream ::
  "'p browser \<Rightarrow> string \<Rightarrow> string \<Rightarrow> string \<Rightarrow> streams_state \<times> 'p stream_world \<Rightarrow>
     (js_error + streams_state) \<times> 'p stream_world"
where
  "recordLocalStream br recordUrl roomID userID = (\<lambda>(st, w).
    case record_all br roomID userID (localStreams st) w of
      (Inl e, w) \<Rightarrow> (Inl e, w)
    | (Inr mediaRecorders, w) \<Rightarrow>
        (Inr (st\<lparr>localRecorders := OwnArray mediaRecorders, streamsRecordUrl := recordUrl,
                 isRecording := \<not> isRecording st\<rparr>),
         w\<lparr>recordingFlag := True\<rparr>))"

definition destroy_peer :: "'p browser \<Rightarrow> 'p stream_world \<Rightarrow> 'p stream_world" where
  "destroy_peer br w = (case peerInstance w of
      None \<Rightarrow> w
    | Some p \<Rightarrow> w\<lparr>peers := (peers w)[p := peerDestroy br (peers w ! p)]\<rparr>)"

definition stopRecordLocalStream ::
  "'p browser \<Rightarrow> streams_state \<times> 'p stream_world \<Rightarrow> streams_state \<times> 'p stream_world"
where
  "stopRecordLocalStream br = (\<lambda>(st, w).
     (st\<lparr>isRecording := \<not> isRecording st\<rparr>, (destroy_peer br w)\<lparr>recordingFlag := False\<rparr>))"

definition setLocalStreamMirror :: "media_track_payload \<Rightarrow> streams_state \<Rightarrow> streams_state" where
  "setLocalStreamMirror payload st =
    (case (mt_track payload, map_of (localStreams st) (mt_type payload)) of
       (Some t, Some existingStream) \<Rightarrow>
         if tr_kind t = ''video'' \<and> mt_type payload = Camera
         then st\<lparr>localStreams := AList.update (mt_type payload)
                (existingStream\<lparr>ls_mirror := \<not> notMirroredRegexp (tr_label t)\<rparr>) (localStreams st)\<rparr>
         else st
     | _ \<Rightarrow> st)"

section \<open>The reducer\<close>

datatype stream_action =
    STREAM_REMOVE stream_type
  | STREAM_TRACK_ADD add_track_payload
  | STREAM_TRACK_REMOVE track
  | STREAM_LOCAL_RECORD string string string
  | STREAM_LOCAL_STOP_RECORD
  | NICKNAME_REMOVE string
  | TRACKS_METADATA metadata_payload
  | PEER_REMOVE string
  | HANG_UP
  | MEDIA_STREAM "(stream_type \<times> nat) async_action"
  | MEDIA_TRACK "media_track_payload async_action"
  | OTHER

definition hang_up :: "'p browser \<Rightarrow> streams_state \<times> 'p stream_world \<Rightarrow> streams_state \<times> 'p stream_world" where
  "hang_up br = (\<lambda>(st, w).
    let w = destroy_peer br w;
        w = fold (\<lambda>(_, ls). stopStream ls) (localStreams st) w;
        w = fold (\<lambda>(_, us). stopAllTracks (us_streams us)) (streamsByUserId st) w
    in (defaultState, w))"

abbreviation returns :: "'s \<times> 'w \<Rightarrow> (js_error + 's) \<times> 'w" where
  "returns \<equiv> map_prod Inr id"

fun streams ::
  "'p browser \<Rightarrow> stream_action \<Rightarrow> streams_state \<times> 'p stream_world \<Rightarrow>
     (js_error + streams_state) \<times> 'p stream_world"
where
  "streams br (STREAM_REMOVE streamType) sw = removeLocalStream br streamType sw"
| "streams br (STREAM_TRACK_ADD payload) sw = returns (addTrack br payload sw)"
| "streams br (STREAM_TRACK_REMOVE track) sw = returns (removeTrack track sw)"
| "streams br (STREAM_LOCAL_RECORD recordUrl roomID userID) sw = recordLocalStream br recordUrl roomID userID sw"
| "streams br STREAM_LOCAL_STOP_RECORD sw = returns (stopRecordLocalStream br sw)"
| "streams br (NICKNAME_REMOVE userId) sw = unassociateUserTracks userId sw"
| "streams br (TRACKS_METADATA payload) sw = returns (setMetadata br payload sw)"
| "streams br (PEER_REMOVE userId) sw = returns (removePeer userId sw)"
| "streams br HANG_UP sw = returns (hang_up br sw)"
| "streams br (MEDIA_STREAM action) (st, w) =
    (case action of
       Resolved (type, stream) \<Rightarrow> addLocalStream br type stream (st, w)
     | _ \<Rightarrow> (Inr st, w))"
| "streams br (MEDIA_TRACK action) (st, w) =
    (case action of
       Resolved payload \<Rightarrow> (Inr (setLocalStreamMirror payload st), w)
     | _ \<Rightarrow> (Inr st, w))"
| "streams br OTHER (st, w) = (Inr st, w)"

text \<open>A reducer that throws leaves the store with the state it had; what it did to the world
  stays.\<close>

definition dispatch ::
  "'p browser \<Rightarrow> streams_state \<times> 'p stream_world \<Rightarrow> stream_action \<Rightarrow> streams_state \<times> 'p stream_world"
where
  "dispatch br sw action = (case streams br action sw of
      (Inl e, w) \<Rightarrow> (fst sw, w)
    | (Inr st, w) \<Rightarrow> (st, w))"

section \<open>The streams of the users as a map\<close>

text \<open>\<open>stream_at ob u sid\<close> is the stream of user \<open>u\<close> with the identifier \<open>sid\<close>. With
  \<open>shape\<close>, every stream the object holds is found this way.\<close>

definition stream_at :: "user_streams obj \<Rightarrow> string \<Rightarrow> string \<Rightarrow> stream_with_url option" where
  "stream_at ob u sid = (case oget ob u of
      None \<Rightarrow> None
    | Some us \<Rightarrow> List.find (\<lambda>s. sw_streamId s = sid) (us_streams us))"

definition shape :: "user_streams obj \<Rightarrow> bool" where
  "shape ob \<longleftrightarrow> wf_obj ob \<and>
     (\<forall>u us. oget ob u = Some us \<longrightarrow> us_streams us \<noteq> [] \<and> distinct (map sw_streamId (us_streams us)))"

lemma find_append:
  "List.find P (xs @ ys) = (case List.find P xs of Some x \<Rightarrow> Some x | None \<Rightarrow> List.find P ys)"
  by (induction xs) simp_all

lemma find_filter_neq_aux:
  "(\<And>x. x \<in> set xs \<Longrightarrow> f x = k \<longleftrightarrow> x = y) \<Longrightarrow>
   List.find (\<lambda>x. f x = k') (filter (\<lambda>x. x \<noteq> y) xs) =
    (if k' = k then None else List.find (\<lambda>x. f x = k') xs)"
proof (induction xs)
  case (Cons x xs)
  have "List.find (\<lambda>x. f x = k') (filter (\<lambda>x. x \<noteq> y) xs) =
      (if k' = k then None else List.find (\<lambda>x. f x = k') xs)"
    using Cons.prems by (intro Cons.IH) simp
  with Cons.prems [of x] show ?case by auto
qed simp

lemma find_filter_neq:
  assumes "distinct (map f xs)" and "List.find (\<lambda>x. f x = k) xs = Some y"
  shows "List.find (\<lambda>x. f x = k') (filter (\<lambda>x. x \<noteq> y) xs) =
    (if k' = k then None else List.find (\<lambda>x. f x = k') xs)"
proof -
  have y: "y \<in> set xs" "f y = k" using find_Some_in [OF assms(2)] by simp_all
  have "inj_on f (set xs)" using assms(1) by (simp add: distinct_map)
  with y have "x \<in> set xs \<Longrightarrow> f x = k \<longleftrightarrow> x = y" for x by (auto dest: inj_onD)
  then show ?thesis by (rule find_filter_neq_aux)
qed

lemma find_self:
  "distinct (map f xs) \<Longrightarrow> x \<in> set xs \<Longrightarrow> List.find (\<lambda>y. f y = f x) xs = Some x"
  by (induction xs) (auto simp: rev_image_eqI)

lemma stream_at_member:
  "shape ob \<Longrightarrow> oget ob u = Some us \<Longrightarrow> s \<in> set (us_streams us) \<Longrightarrow> stream_at ob u (sw_streamId s) = Some s"
  unfolding shape_def stream_at_def by (simp add: find_self)

lemma stream_at_id: "stream_at ob u sid = Some s \<Longrightarrow> sw_streamId s = sid"
  by (auto simp: stream_at_def split: option.splits dest: find_Some_in)

lemma stream_at_empty [simp]: "stream_at [] u sid = None"
  by (simp add: stream_at_def)

text \<open>The two writes of the reducer: a stream added to a user, and a stream removed with the user
  that has no other.\<close>

definition put_stream :: "string \<Rightarrow> stream_with_url \<Rightarrow> user_streams obj \<Rightarrow> user_streams obj" where
  "put_stream u s ob =
    (let us = (case oget ob u of Some us \<Rightarrow> us | None \<Rightarrow> \<lparr>us_userId = u, us_streams = []\<rparr>)
     in oset u (us\<lparr>us_streams := us_streams us @ [s]\<rparr>) ob)"

definition drop_stream :: "string \<Rightarrow> stream_with_url \<Rightarrow> user_streams obj \<Rightarrow> user_streams obj" where
  "drop_stream u s ob = (case oget ob u of
      None \<Rightarrow> ob
    | Some us \<Rightarrow>
        let streams = filter (\<lambda>s'. s' \<noteq> s) (us_streams us) in
        if streams \<noteq> [] then oset u (us\<lparr>us_streams := streams\<rparr>) ob else omit ob [u])"

lemma stream_at_put:
  "stream_at ob u (sw_streamId s) = None \<Longrightarrow>
     stream_at (put_stream u s ob) u' sid =
       (if u' = u \<and> sid = sw_streamId s then Some s else stream_at ob u' sid)"
  by (auto simp: stream_at_def put_stream_def Let_def find_append split: option.splits)

lemma shape_put:
  "shape ob \<Longrightarrow> stream_at ob u (sw_streamId s) = None \<Longrightarrow> shape (put_stream u s ob)"
  by (auto simp: shape_def stream_at_def put_stream_def Let_def find_None_all split: option.splits)

lemma stream_at_drop:
  assumes "shape ob" and "stream_at ob u sid = Some s"
  shows "stream_at (drop_stream u s ob) u' sid' =
    (if u' = u \<and> sid' = sid then None else stream_at ob u' sid')"
proof -
  obtain us where us: "oget ob u = Some us" "List.find (\<lambda>s. sw_streamId s = sid) (us_streams us) = Some s"
    using assms(2) by (auto simp: stream_at_def split: option.splits)
  have d: "distinct (map sw_streamId (us_streams us))" using assms(1) us(1) by (simp add: shape_def)
  note ff = find_filter_neq [OF d us(2)]
  show ?thesis
  proof (cases "filter (\<lambda>s'. s' \<noteq> s) (us_streams us) = []")
    case True
    with ff [of sid'] us show ?thesis
      by (auto simp: stream_at_def drop_stream_def Let_def split: option.splits if_splits)
  next
    case False
    with ff [of sid'] us show ?thesis
      by (auto simp: stream_at_def drop_stream_def Let_def split: option.splits)
  qed
qed

lemma shape_drop: "shape ob \<Longrightarrow> shape (drop_stream u s ob)"
  by (auto simp: shape_def drop_stream_def Let_def distinct_map_filter split: option.splits)

section \<open>Associations and contents agree\<close>

text \<open>The reachable part of a state. \<open>linked\<close>: a track is in a user's stream exactly if a
  registered track has this association. \<open>indexed\<close>: the identifier of a registered track leads
  back to its key. \<open>apart\<close>: two streams are two objects.\<close>

type_synonym 'p sw = "streams_state \<times> 'p stream_world"

abbreviation at :: "'p sw \<Rightarrow> string \<Rightarrow> string \<Rightarrow> stream_with_url option" where
  "at sw u sid \<equiv> stream_at (streamsByUserId (fst sw)) u sid"

abbreviation tracks_of :: "'p sw \<Rightarrow> stream_with_url \<Rightarrow> track list" where
  "tracks_of sw s \<equiv> heap (snd sw) (sw_stream s)"

abbreviation info :: "'p sw \<Rightarrow> string \<Rightarrow> track_info option" where
  "info sw key \<equiv> oget (tracksByPeerIdMid (fst sw)) key"

definition contains :: "'p sw \<Rightarrow> string \<Rightarrow> string \<Rightarrow> track \<Rightarrow> bool" where
  "contains sw u sid tr \<longleftrightarrow> (\<exists>s. at sw u sid = Some s \<and> tr \<in> set (tracks_of sw s))"

definition associated :: "'p sw \<Rightarrow> string \<Rightarrow> string \<Rightarrow> track \<Rightarrow> bool" where
  "associated sw u sid tr \<longleftrightarrow> (\<exists>key t a. info sw key = Some t \<and> ti_track t = tr \<and>
     ti_association t = Some a \<and> ta_userId a = u \<and> ta_streamId a = sid)"

definition linked :: "'p sw \<Rightarrow> bool" where
  "linked sw \<longleftrightarrow> (\<forall>u sid tr. contains sw u sid tr \<longleftrightarrow> associated sw u sid tr)"

definition indexed :: "'p sw \<Rightarrow> bool" where
  "indexed sw \<longleftrightarrow> (\<forall>key t. info sw key = Some t \<longrightarrow>
     oget (trackIdToPeerIdMid (fst sw)) (tr_id (ti_track t)) = Some key)"

definition apart :: "'p sw \<Rightarrow> bool" where
  "apart sw \<longleftrightarrow>
     (\<forall>u sid s. at sw u sid = Some s \<longrightarrow> sw_stream s < nextStream (snd sw)) \<and>
     (\<forall>u sid s u' sid' s'. at sw u sid = Some s \<and> at sw u' sid' = Some s' \<and> sw_stream s = sw_stream s' \<longrightarrow>
        u = u' \<and> sid = sid')"

definition inhabited :: "'p sw \<Rightarrow> bool" where
  "inhabited sw \<longleftrightarrow> (\<forall>u sid s. at sw u sid = Some s \<longrightarrow> tracks_of sw s \<noteq> [])"

definition streams_inv :: "'p sw \<Rightarrow> bool" where
  "streams_inv sw \<longleftrightarrow> shape (streamsByUserId (fst sw)) \<and> wf_obj (tracksByPeerIdMid (fst sw)) \<and>
     linked sw \<and> indexed sw \<and> apart sw \<and> inhabited sw"

section \<open>Adding a track\<close>

lemma heap_stream_addTrack [simp]:
  "set (heap (stream_addTrack a tr w) b) = (if b = a then insert tr (set (heap w a)) else set (heap w b))"
  by (auto simp: stream_addTrack_def)

lemma nextStream_stream_addTrack [simp]: "nextStream (stream_addTrack a tr w) = nextStream w"
  by (simp add: stream_addTrack_def)

lemma heap_stream_removeTrack [simp]:
  "heap (stream_removeTrack a tr w) b = (if b = a then filter (\<lambda>t. t \<noteq> tr) (heap w a) else heap w b)"
  by (simp add: stream_removeTrack_def)

lemma nextStream_stream_removeTrack [simp]: "nextStream (stream_removeTrack a tr w) = nextStream w"
  by (simp add: stream_removeTrack_def)

lemma revoke_simps [simp]: "heap (revoke url w) = heap w" "nextStream (revoke url w) = nextStream w"
  by (simp_all add: revoke_def split: option.split)

definition target :: "'p sw \<Rightarrow> add_track_payload \<Rightarrow> track_association" where
  "target sw p = getUserId (fst sw) p"

abbreviation key_of :: "add_track_payload \<Rightarrow> string" where
  "key_of p \<equiv> getPeerIdMid (at_userId p) (at_mid p)"

lemma addTrack_tables:
  "tracksByPeerIdMid (fst (addTrack br p sw)) = oset (key_of p)
     \<lparr>ti_track = at_track p, ti_mid = at_mid p, ti_association = Some (target sw p)\<rparr> (tracksByPeerIdMid (fst sw))"
  "trackIdToPeerIdMid (fst (addTrack br p sw)) =
     oset (tr_id (at_track p)) (key_of p) (trackIdToPeerIdMid (fst sw))"
  "metadataByPeerIdMid (fst (addTrack br p sw)) = metadataByPeerIdMid (fst sw)"
  by (cases sw, simp add: addTrack_def target_def Let_def split: option.split)+

lemma addTrack_existing:
  assumes "shape (streamsByUserId (fst sw))" and s: "at sw (ta_userId (target sw p)) (ta_streamId (target sw p)) = Some s"
  shows "stream_at (streamsByUserId (fst (addTrack br p sw))) = stream_at (streamsByUserId (fst sw)) \<and>
    shape (streamsByUserId (fst (addTrack br p sw))) \<and>
    snd (addTrack br p sw) = stream_addTrack (sw_stream s) (at_track p) (snd sw)"
proof -
  obtain st w where sw: "sw = (st, w)" by fastforce
  obtain us where us: "oget (streamsByUserId st) (ta_userId (target sw p)) = Some us"
    and f: "List.find (\<lambda>s. sw_streamId s = ta_streamId (target sw p)) (us_streams us) = Some s"
    using s by (auto simp: stream_at_def sw split: option.splits)
  have "streamsByUserId (fst (addTrack br p sw)) = oset (ta_userId (target sw p)) us (streamsByUserId st)"
    "snd (addTrack br p sw) = stream_addTrack (sw_stream s) (at_track p) w"
    using us f by (simp_all add: addTrack_def target_def sw Let_def)
  then show ?thesis using assms(1) us by (auto simp: sw shape_def stream_at_def fun_eq_iff)
qed

lemma addTrack_fresh:
  assumes "at sw (ta_userId (target sw p)) (ta_streamId (target sw p)) = None"
  shows "streamsByUserId (fst (addTrack br p sw)) = put_stream (ta_userId (target sw p))
      \<lparr>sw_stream = nextStream (snd sw), sw_streamId = ta_streamId (target sw p),
       sw_url = objectURL br (nextStream (snd sw))\<rparr> (streamsByUserId (fst sw)) \<and>
    nextStream (snd (addTrack br p sw)) = Suc (nextStream (snd sw)) \<and>
    heap (snd (addTrack br p sw)) = (heap (snd sw))(nextStream (snd sw) := [at_track p])"
proof -
  obtain st w where sw: "sw = (st, w)" by fastforce
  have "List.find (\<lambda>s. sw_streamId s = ta_streamId (getUserId st p))
      (us_streams (case oget (streamsByUserId st) (ta_userId (getUserId st p)) of
         Some us \<Rightarrow> us | None \<Rightarrow> \<lparr>us_userId = ta_userId (getUserId st p), us_streams = []\<rparr>)) = None"
    using assms unfolding target_def sw by (auto simp: stream_at_def split: option.splits)
  then show ?thesis
    unfolding target_def sw by (simp add: addTrack_def Let_def put_stream_def stream_addTrack_def)
qed

lemma apart_heap: "apart (st, w\<lparr>heap := h\<rparr>) \<longleftrightarrow> apart (st, w)"
  by (simp add: apart_def)

lemma addTrack_streams:
  assumes inv: "shape (streamsByUserId (fst sw))" "apart sw"
  shows "contains (addTrack br p sw) u sid tr \<longleftrightarrow> contains sw u sid tr \<or>
    u = ta_userId (target sw p) \<and> sid = ta_streamId (target sw p) \<and> tr = at_track p" (is ?contains)
    and "apart (addTrack br p sw)" and "shape (streamsByUserId (fst (addTrack br p sw)))"
    and "inhabited sw \<Longrightarrow> inhabited (addTrack br p sw)"
proof -
  let ?u = "ta_userId (target sw p)" and ?sid = "ta_streamId (target sw p)" and ?sw = "addTrack br p sw"
  have "?contains \<and> apart ?sw \<and> shape (streamsByUserId (fst ?sw)) \<and> (inhabited sw \<longrightarrow> inhabited ?sw)"
  proof (cases "at sw ?u ?sid")
    case None
    obtain url where new: "streamsByUserId (fst ?sw) = put_stream ?u
        \<lparr>sw_stream = nextStream (snd sw), sw_streamId = ?sid, sw_url = url\<rparr> (streamsByUserId (fst sw))"
      "nextStream (snd ?sw) = Suc (nextStream (snd sw))"
      "heap (snd ?sw) = (heap (snd sw))(nextStream (snd sw) := [at_track p])"
      using addTrack_fresh [OF None] by blast
    let ?s = "\<lparr>sw_stream = nextStream (snd sw), sw_streamId = ?sid, sw_url = url\<rparr>"
    have at: "at ?sw u sid = (if u = ?u \<and> sid = ?sid then Some ?s else at sw u sid)" for u sid
      using stream_at_put [of "streamsByUserId (fst sw)" ?u ?s u sid] None new(1) by simp
    have old: "at sw u sid = Some s \<Longrightarrow> sw_stream s < nextStream (snd sw)" for u sid s
      using inv(2) unfolding apart_def by blast
    have same: "tracks_of ?sw s = tracks_of sw s" if "at sw u sid = Some s" for u sid s
      using old [OF that] by (simp add: new(3))
    have ?contains
    proof (cases "u = ?u \<and> sid = ?sid")
      case True
      then show ?thesis using None by (simp add: contains_def at new(3))
    next
      case False
      then have "contains ?sw u sid tr \<longleftrightarrow> contains sw u sid tr"
        using same unfolding contains_def at by auto
      with False show ?thesis by blast
    qed
    moreover have "apart ?sw"
      using inv(2) old unfolding apart_def at new(2)
      by (auto simp: less_Suc_eq split: if_splits) (metis less_irrefl_nat)+
    moreover have "shape (streamsByUserId (fst ?sw))"
      unfolding new(1) using inv(1) None by (intro shape_put) simp_all
    moreover have "inhabited sw \<longrightarrow> inhabited ?sw"
      using same by (auto simp: inhabited_def at new(3))
    ultimately show ?thesis by blast
  next
    case (Some s)
    have at: "at ?sw = at sw" and shape: "shape (streamsByUserId (fst ?sw))"
      and w: "snd ?sw = stream_addTrack (sw_stream s) (at_track p) (snd sw)"
      using addTrack_existing [OF inv(1) Some] by blast+
    have one: "at sw u sid = Some s' \<Longrightarrow> sw_stream s' = sw_stream s \<Longrightarrow> u = ?u \<and> sid = ?sid" for u sid s'
      using inv(2) Some unfolding apart_def by blast
    have ?contains
    proof (cases "u = ?u \<and> sid = ?sid")
      case True
      then show ?thesis using Some by (auto simp: contains_def at w)
    next
      case False
      then have "sw_stream s' \<noteq> sw_stream s" if "at sw u sid = Some s'" for s'
        using one that by blast
      then have "contains ?sw u sid tr \<longleftrightarrow> contains sw u sid tr"
        unfolding contains_def at w heap_stream_addTrack by fastforce
      with False show ?thesis by blast
    qed
    moreover have "apart ?sw"
      using inv(2) unfolding apart_def at w by simp
    moreover have "inhabited sw \<longrightarrow> inhabited ?sw"
      unfolding inhabited_def at w by (simp add: stream_addTrack_def)
    ultimately show ?thesis using shape by blast
  qed
  then show ?contains "apart ?sw" "shape (streamsByUserId (fst ?sw))" "inhabited sw \<Longrightarrow> inhabited ?sw"
    by blast+
qed

section \<open>Removing a track\<close>

lemma invD:
  assumes "streams_inv sw"
  shows "shape (streamsByUserId (fst sw))" "wf_obj (tracksByPeerIdMid (fst sw))" "apart sw" "inhabited sw"
    and "contains sw u sid tr \<longleftrightarrow> associated sw u sid tr"
    and "info sw key = Some t \<Longrightarrow> oget (trackIdToPeerIdMid (fst sw)) (tr_id (ti_track t)) = Some key"
  using assms by (simp_all add: streams_inv_def linked_def indexed_def)

lemma association_at:
  assumes inv: "streams_inv sw" and t: "info sw key = Some t" "ti_association t = Some a"
  obtains s where "at sw (ta_userId a) (ta_streamId a) = Some s" "ti_track t \<in> set (tracks_of sw s)"
proof -
  have "associated sw (ta_userId a) (ta_streamId a) (ti_track t)"
    using t by (auto simp: associated_def)
  then have "contains sw (ta_userId a) (ta_streamId a) (ti_track t)" by (simp add: invD(5) [OF inv])
  then show thesis using that by (auto simp: contains_def)
qed

lemma removeTrack_idle:
  "info sw (key_string (oget (trackIdToPeerIdMid (fst sw)) (tr_id tr))) = None \<Longrightarrow> removeTrack tr sw = sw"
  "info sw (key_string (oget (trackIdToPeerIdMid (fst sw)) (tr_id tr))) = Some t \<Longrightarrow>
     ti_association t = None \<Longrightarrow> removeTrack tr sw = sw"
  by (cases sw, simp add: removeTrack_def)+

text \<open>The branch of \<open>removeTrack\<close> that does the work.\<close>

lemma removeTrack_eq:
  assumes key: "oget (trackIdToPeerIdMid (fst sw)) (tr_id tr) = Some key"
    and t: "info sw key = Some t" "ti_association t = Some a"
    and s: "at sw (ta_userId a) (ta_streamId a) = Some s"
  shows "tracksByPeerIdMid (fst (removeTrack tr sw)) =
      oset key \<lparr>ti_track = tr, ti_mid = ti_mid t, ti_association = None\<rparr> (tracksByPeerIdMid (fst sw))"
    and "trackIdToPeerIdMid (fst (removeTrack tr sw)) = trackIdToPeerIdMid (fst sw)"
    and "metadataByPeerIdMid (fst (removeTrack tr sw)) = metadataByPeerIdMid (fst sw)"
    and "heap (snd (removeTrack tr sw)) = heap (stream_removeTrack (sw_stream s) tr (snd sw))"
    and "nextStream (snd (removeTrack tr sw)) = nextStream (snd sw)"
    and "heap (stream_removeTrack (sw_stream s) tr (snd sw)) (sw_stream s) = [] \<Longrightarrow>
      streamsByUserId (fst (removeTrack tr sw)) = drop_stream (ta_userId a) s (streamsByUserId (fst sw))"
    and "heap (stream_removeTrack (sw_stream s) tr (snd sw)) (sw_stream s) \<noteq> [] \<Longrightarrow> shape (streamsByUserId (fst sw)) \<Longrightarrow>
      stream_at (streamsByUserId (fst (removeTrack tr sw))) = stream_at (streamsByUserId (fst sw)) \<and>
      shape (streamsByUserId (fst (removeTrack tr sw)))"
proof -
  obtain st w where sw: "sw = (st, w)" by fastforce
  obtain us where us: "oget (streamsByUserId st) (ta_userId a) = Some us"
    and f: "List.find (\<lambda>s. sw_streamId s = ta_streamId a) (us_streams us) = Some s"
    using s by (auto simp: stream_at_def sw split: option.splits)
  have ne: "us_streams us \<noteq> []" using f by auto
  note simps = removeTrack_def sw key_string_def key [unfolded sw, simplified] t [unfolded sw, simplified]
    us f ne Let_def
  show "tracksByPeerIdMid (fst (removeTrack tr sw)) =
      oset key \<lparr>ti_track = tr, ti_mid = ti_mid t, ti_association = None\<rparr> (tracksByPeerIdMid (fst sw))"
    "trackIdToPeerIdMid (fst (removeTrack tr sw)) = trackIdToPeerIdMid (fst sw)"
    "metadataByPeerIdMid (fst (removeTrack tr sw)) = metadataByPeerIdMid (fst sw)"
    "heap (snd (removeTrack tr sw)) = heap (stream_removeTrack (sw_stream s) tr (snd sw))"
    "nextStream (snd (removeTrack tr sw)) = nextStream (snd sw)"
    by (simp_all add: simps)
  show "heap (stream_removeTrack (sw_stream s) tr (snd sw)) (sw_stream s) = [] \<Longrightarrow>
      streamsByUserId (fst (removeTrack tr sw)) = drop_stream (ta_userId a) s (streamsByUserId (fst sw))"
    by (simp add: simps drop_stream_def)
  assume "heap (stream_removeTrack (sw_stream s) tr (snd sw)) (sw_stream s) \<noteq> []"
  then have "streamsByUserId (fst (removeTrack tr sw)) = oset (ta_userId a) us (streamsByUserId st)"
    by (simp add: simps)
  then show "shape (streamsByUserId (fst sw)) \<Longrightarrow>
      stream_at (streamsByUserId (fst (removeTrack tr sw))) = stream_at (streamsByUserId (fst sw)) \<and>
      shape (streamsByUserId (fst (removeTrack tr sw)))"
    using us by (auto simp: sw shape_def stream_at_def fun_eq_iff)
qed

lemma removeTrack_streams:
  assumes inv: "streams_inv sw" and t: "info sw key = Some t" "ti_association t = Some a"
  defines "sw' \<equiv> removeTrack (ti_track t) sw"
  shows "contains sw' u sid tr \<longleftrightarrow> contains sw u sid tr \<and>
      \<not> (u = ta_userId a \<and> sid = ta_streamId a \<and> tr = ti_track t)" (is ?contains)
    and "apart sw'" and "shape (streamsByUserId (fst sw'))" and "inhabited sw'"
proof -
  obtain s where s: "at sw (ta_userId a) (ta_streamId a) = Some s" "ti_track t \<in> set (tracks_of sw s)"
    using association_at [OF inv t] .
  note eq = removeTrack_eq [OF invD(6) [OF inv t(1)] t s(1), folded sw'_def]
  have heap: "tracks_of sw' s' = (if sw_stream s' = sw_stream s
      then filter (\<lambda>x. x \<noteq> ti_track t) (tracks_of sw s) else tracks_of sw s')" for s' :: stream_with_url
    unfolding eq(4) heap_stream_removeTrack by simp
  have one: "u = ta_userId a \<and> sid = ta_streamId a" if "at sw u sid = Some s'" "sw_stream s' = sw_stream s" for u sid s'
    using invD(3) [OF inv] s(1) that unfolding apart_def by blast
  have "?contains \<and> apart sw' \<and> shape (streamsByUserId (fst sw')) \<and> inhabited sw'"
  proof (cases "filter (\<lambda>x. x \<noteq> ti_track t) (tracks_of sw s) = []")
    case True
    have d: "streamsByUserId (fst sw') = drop_stream (ta_userId a) s (streamsByUserId (fst sw))"
      by (rule eq(6)) (simp add: True)
    have at: "at sw' u sid = (if u = ta_userId a \<and> sid = ta_streamId a then None else at sw u sid)" for u sid
      unfolding d using stream_at_drop [OF invD(1) [OF inv] s(1)] .
    have ?contains
    proof (cases "u = ta_userId a \<and> sid = ta_streamId a")
      case True
      then show ?thesis using \<open>filter _ _ = []\<close> s(1) by (auto simp: contains_def at filter_empty_conv)
    next
      case False
      then have "contains sw' u sid tr \<longleftrightarrow> contains sw u sid tr"
        using one unfolding contains_def at heap by fastforce
      with False show ?thesis by blast
    qed
    moreover have "apart sw'"
      using invD(3) [OF inv] unfolding apart_def at eq(5) by (auto split: if_splits)
    moreover have "inhabited sw'"
      using invD(4) [OF inv] one unfolding inhabited_def at heap by (auto split: if_splits)
    ultimately show ?thesis unfolding d using shape_drop [OF invD(1) [OF inv]] by blast
  next
    case False
    have at: "at sw' = at sw" and sh: "shape (streamsByUserId (fst sw'))"
      using eq(7) [OF _ invD(1) [OF inv]] False by simp_all
    have ?contains
    proof (cases "u = ta_userId a \<and> sid = ta_streamId a")
      case True
      then show ?thesis using s(1) by (auto simp: contains_def at heap)
    next
      case False
      then have "contains sw' u sid tr \<longleftrightarrow> contains sw u sid tr"
        using one unfolding contains_def at heap by fastforce
      with False show ?thesis by blast
    qed
    moreover have "apart sw'" using invD(3) [OF inv] unfolding apart_def at eq(5) .
    moreover have "inhabited sw'"
      using invD(4) [OF inv] False one unfolding inhabited_def at heap by auto
    ultimately show ?thesis using sh by blast
  qed
  then show ?contains "apart sw'" "shape (streamsByUserId (fst sw'))" "inhabited sw'" by blast+
qed

section \<open>The invariant\<close>

text \<open>What the peer connections guarantee of a track that is added: the transceiver \<open>mid\<close> of a
  peer always carries the same track object, a track identifier belongs to one transceiver, and a
  track that is associated already is added again only with the same association.\<close>

definition add_ok :: "'p sw \<Rightarrow> add_track_payload \<Rightarrow> bool" where
  "add_ok sw p \<longleftrightarrow>
     (\<forall>t. info sw (key_of p) = Some t \<longrightarrow> ti_track t = at_track p \<and>
        (ti_association t = None \<or> ti_association t = Some (target sw p))) \<and>
     (\<forall>k. oget (trackIdToPeerIdMid (fst sw)) (tr_id (at_track p)) = Some k \<longrightarrow> k = key_of p)"

definition remove_ok :: "'p sw \<Rightarrow> track \<Rightarrow> bool" where
  "remove_ok sw tr \<longleftrightarrow>
     (\<forall>t. info sw (key_string (oget (trackIdToPeerIdMid (fst sw)) (tr_id tr))) = Some t \<longrightarrow> ti_track t = tr)"

lemma info_addTrack:
  "info (addTrack br p sw) k = (if k = key_of p
     then Some \<lparr>ti_track = at_track p, ti_mid = at_mid p, ti_association = Some (target sw p)\<rparr> else info sw k)"
  by (simp add: addTrack_tables)

lemma associated_addTrack:
  assumes "add_ok sw p"
  shows "associated (addTrack br p sw) u sid tr \<longleftrightarrow> associated sw u sid tr \<or>
    u = ta_userId (target sw p) \<and> sid = ta_streamId (target sw p) \<and> tr = at_track p"
proof
  assume "associated (addTrack br p sw) u sid tr"
  then show "associated sw u sid tr \<or>
      u = ta_userId (target sw p) \<and> sid = ta_streamId (target sw p) \<and> tr = at_track p"
    by (auto simp: associated_def info_addTrack split: if_splits)
next
  assume "associated sw u sid tr \<or>
      u = ta_userId (target sw p) \<and> sid = ta_streamId (target sw p) \<and> tr = at_track p"
  then show "associated (addTrack br p sw) u sid tr"
  proof
    assume "associated sw u sid tr"
    then obtain k t a where t: "info sw k = Some t" "ti_track t = tr" "ti_association t = Some a"
      "ta_userId a = u" "ta_streamId a = sid" by (auto simp: associated_def)
    show ?thesis
    proof (cases "k = key_of p")
      case True
      with t assms have "ti_track t = at_track p" "a = target sw p" by (auto simp: add_ok_def)
      with t show ?thesis unfolding associated_def info_addTrack by (intro exI [of _ "key_of p"]) simp
    next
      case False
      with t show ?thesis unfolding associated_def info_addTrack by (intro exI [of _ k]) simp
    qed
  next
    assume "u = ta_userId (target sw p) \<and> sid = ta_streamId (target sw p) \<and> tr = at_track p"
    then show ?thesis unfolding associated_def info_addTrack by (intro exI [of _ "key_of p"]) simp
  qed
qed

lemma addTrack_inv:
  assumes inv: "streams_inv sw" and ok: "add_ok sw p"
  shows "streams_inv (addTrack br p sw)"
proof -
  note streams = addTrack_streams [OF invD(1,3) [OF inv], of br p]
  have "linked (addTrack br p sw)"
    unfolding linked_def streams(1) associated_addTrack [OF ok] by (simp add: invD(5) [OF inv])
  moreover have "indexed (addTrack br p sw)"
    unfolding indexed_def info_addTrack addTrack_tables(2) oget_oset
    using invD(6) [OF inv] ok unfolding add_ok_def by (metis option.inject track_info.select_convs(1))
  ultimately show ?thesis
    using streams(2,3,4) invD(2,4) [OF inv] by (simp add: streams_inv_def addTrack_tables(1))
qed

lemma info_removeTrack:
  assumes inv: "streams_inv sw" and t: "info sw key = Some t" "ti_association t = Some a"
  shows "info (removeTrack (ti_track t) sw) k = (if k = key then Some (t\<lparr>ti_association := None\<rparr>) else info sw k)"
    and "trackIdToPeerIdMid (fst (removeTrack (ti_track t) sw)) = trackIdToPeerIdMid (fst sw)"
    and "metadataByPeerIdMid (fst (removeTrack (ti_track t) sw)) = metadataByPeerIdMid (fst sw)"
    and "wf_obj (tracksByPeerIdMid (fst (removeTrack (ti_track t) sw)))"
proof -
  obtain s where "at sw (ta_userId a) (ta_streamId a) = Some s" "ti_track t \<in> set (tracks_of sw s)"
    using association_at [OF inv t] .
  note eq = removeTrack_eq [OF invD(6) [OF inv t(1)] t this(1)]
  show "info (removeTrack (ti_track t) sw) k = (if k = key then Some (t\<lparr>ti_association := None\<rparr>) else info sw k)"
    unfolding eq(1) by simp
  show "trackIdToPeerIdMid (fst (removeTrack (ti_track t) sw)) = trackIdToPeerIdMid (fst sw)"
    "metadataByPeerIdMid (fst (removeTrack (ti_track t) sw)) = metadataByPeerIdMid (fst sw)"
    by (rule eq(2), rule eq(3))
  show "wf_obj (tracksByPeerIdMid (fst (removeTrack (ti_track t) sw)))"
    unfolding eq(1) using invD(2) [OF inv] by simp
qed

lemma associated_removeTrack:
  assumes inv: "streams_inv sw" and t: "info sw key = Some t" "ti_association t = Some a"
  shows "associated (removeTrack (ti_track t) sw) u sid tr \<longleftrightarrow> associated sw u sid tr \<and>
      \<not> (u = ta_userId a \<and> sid = ta_streamId a \<and> tr = ti_track t)"
proof -
  note info = info_removeTrack(1) [OF inv t]
  have one: "k = key" if "info sw k = Some t'" "ti_track t' = ti_track t" for k t'
    using invD(6) [OF inv t(1)] invD(6) [OF inv that(1)] that(2) by simp
  show ?thesis
  proof
    assume "associated (removeTrack (ti_track t) sw) u sid tr"
    then obtain k t' a' where k: "k \<noteq> key" "info sw k = Some t'" "ti_track t' = tr"
      "ti_association t' = Some a'" "ta_userId a' = u" "ta_streamId a' = sid"
      unfolding associated_def info by (auto split: if_splits)
    then show "associated sw u sid tr \<and> \<not> (u = ta_userId a \<and> sid = ta_streamId a \<and> tr = ti_track t)"
      unfolding associated_def using one by blast
  next
    assume "associated sw u sid tr \<and> \<not> (u = ta_userId a \<and> sid = ta_streamId a \<and> tr = ti_track t)"
    then obtain k t' a' where k: "info sw k = Some t'" "ti_track t' = tr"
      "ti_association t' = Some a'" "ta_userId a' = u" "ta_streamId a' = sid"
      and other: "\<not> (u = ta_userId a \<and> sid = ta_streamId a \<and> tr = ti_track t)"
      unfolding associated_def by blast
    have "k \<noteq> key" using k other t by auto
    then show "associated (removeTrack (ti_track t) sw) u sid tr"
      unfolding associated_def info using k by (intro exI [of _ k]) simp
  qed
qed

lemma removeTrack_known_inv:
  assumes inv: "streams_inv sw" and t: "info sw key = Some t" "ti_association t = Some a"
  shows "streams_inv (removeTrack (ti_track t) sw)"
proof -
  let ?sw = "removeTrack (ti_track t) sw"
  have "linked ?sw"
    unfolding linked_def removeTrack_streams(1) [OF inv t] associated_removeTrack [OF inv t]
    by (simp add: invD(5) [OF inv])
  moreover have "indexed ?sw"
    using invD(6) [OF inv] t unfolding indexed_def info_removeTrack [OF inv t] by auto
  ultimately show ?thesis
    using removeTrack_streams(2,3,4) [OF inv t] info_removeTrack(4) [OF inv t]
    by (simp add: streams_inv_def)
qed

lemma removeTrack_inv:
  assumes inv: "streams_inv sw" and ok: "remove_ok sw tr"
  shows "streams_inv (removeTrack tr sw)"
proof (cases "info sw (key_string (oget (trackIdToPeerIdMid (fst sw)) (tr_id tr)))")
  case None
  then show ?thesis using inv by (simp add: removeTrack_idle(1))
next
  case (Some t)
  then have "ti_track t = tr" using ok by (simp add: remove_ok_def)
  then show ?thesis
    using Some inv removeTrack_known_inv [OF inv Some]
    by (cases "ti_association t") (simp_all add: removeTrack_idle(2))
qed

section \<open>Metadata\<close>

text \<open>\<open>registry\<close> is the abstract state of the tracks: for each key the track and the user's stream
  it is associated with. \<open>spec_setMetadata\<close> says what a metadata message does to it.\<close>

type_synonym registry = "string \<Rightarrow> (track \<times> track_association option) option"

definition registry :: "'p sw \<Rightarrow> registry" where
  "registry sw key = map_option (\<lambda>t. (ti_track t, ti_association t)) (info sw key)"

definition md_association :: "track_metadata \<Rightarrow> track_association" where
  "md_association md = \<lparr>ta_streamId = md_streamId md, ta_userId = md_userId md\<rparr>"

definition spec_setMetadata :: "metadata_payload \<Rightarrow> registry \<Rightarrow> registry" where
  "spec_setMetadata payload reg key = map_option (\<lambda>(tr, _).
     (tr, map_option md_association
            (List.find (\<lambda>md. getPeerIdMid (mp_userId payload) (md_mid md) = key) (mp_metadata payload))))
     (reg key)"

definition drop_lost :: "track_metadata obj \<Rightarrow> string \<times> track_info \<Rightarrow> 'p sw \<Rightarrow> 'p sw" where
  "drop_lost metadata = (\<lambda>(peerIdMid, t) new.
     if oget metadata peerIdMid = None \<and> ti_association t \<noteq> None then removeTrack (ti_track t) new else new)"

definition apply_metadata :: "'p browser \<Rightarrow> string \<Rightarrow> track_info obj \<Rightarrow> track_metadata \<Rightarrow> 'p sw \<Rightarrow> 'p sw" where
  "apply_metadata br userId tracks md new =
    (let peerIdMid = getPeerIdMid userId (md_mid md) in
     case oget tracks peerIdMid of
       None \<Rightarrow> new
     | Some t \<Rightarrow> (case ti_association t of
         None \<Rightarrow> addTrack br \<lparr>at_mid = md_mid md, at_streamId = md_streamId md,
                   at_userId = userId, at_track = ti_track t\<rparr> new
       | Some a \<Rightarrow>
           if ta_streamId a = md_streamId md \<and> ta_userId a = md_userId md then new
           else addTrack br \<lparr>at_mid = md_mid md, at_streamId = ta_streamId a,
                  at_userId = userId, at_track = ti_track t\<rparr>
                (removeTrack (ti_track t) new)))"

lemma setMetadata_loops:
  "setMetadata br payload (st, w) =
    (let metadata = fold (\<lambda>md. oset (getPeerIdMid (mp_userId payload) (md_mid md)) md) (mp_metadata payload) [];
         (st1, w1) = fold (drop_lost metadata) (tracksByPeerIdMid st) (st, w)
     in fold (apply_metadata br (mp_userId payload) (tracksByPeerIdMid st)) (mp_metadata payload)
          (st1\<lparr>metadataByPeerIdMid := metadata\<rparr>, w1))"
  unfolding setMetadata_def drop_lost_def apply_metadata_def [abs_def] by simp

lemma drop_lost_loop:
  assumes "streams_inv new" and "distinct (okeys es)" and "\<forall>(k, t) \<in> set es. info new k = Some t"
  shows "streams_inv (fold (drop_lost metadata) es new) \<and>
    (\<forall>k. info (fold (drop_lost metadata) es new) k =
      (if k \<in> set (okeys es) \<and> oget metadata k = None
       then map_option (\<lambda>t. t\<lparr>ti_association := None\<rparr>) (info new k) else info new k))"
  using assms
proof (induction es arbitrary: new)
  case (Cons e es)
  obtain key t where e: "e = (key, t)" by fastforce
  have t: "info new key = Some t" using Cons.prems(3) e by simp
  let ?new = "drop_lost metadata e new"
  have step: "streams_inv ?new \<and> (\<forall>k. info ?new k = (if k = key \<and> oget metadata key = None
      then Some (t\<lparr>ti_association := None\<rparr>) else info new k))"
  proof (cases "oget metadata key = None \<and> ti_association t \<noteq> None")
    case True
    then obtain a where a: "ti_association t = Some a" by blast
    show ?thesis
      using True removeTrack_known_inv [OF Cons.prems(1) t a] info_removeTrack(1) [OF Cons.prems(1) t a]
      by (simp add: drop_lost_def e)
  next
    case False
    then have "?new = new" by (auto simp: drop_lost_def e)
    moreover have "oget metadata key = None \<Longrightarrow> t\<lparr>ti_association := None\<rparr> = t" using False by (cases t) simp
    ultimately show ?thesis using Cons.prems(1) t by simp
  qed
  have "\<forall>(k, t) \<in> set es. info ?new k = Some t"
    using Cons.prems(2,3) step e by (auto simp: rev_image_eqI)
  moreover have "distinct (okeys es)" "key \<notin> set (okeys es)" using Cons.prems(2) e by simp_all
  ultimately show ?case
    using Cons.IH [of ?new] step t by (auto simp: e)
qed simp

lemma metadata_lookup:
  assumes "distinct (map md_mid mds)" and "md \<in> set mds"
  shows "oget (fold (\<lambda>md. oset (getPeerIdMid u (md_mid md)) md) mds []) (getPeerIdMid u (md_mid md)) = Some md"
proof -
  have "inj (getPeerIdMid u)" by (rule injI) (simp add: getPeerIdMid_def)
  then have "distinct (map (\<lambda>md. getPeerIdMid u (md_mid md)) mds)"
    using assms(1) by (simp add: distinct_map inj_on_def)
  from last_with_distinct [OF this assms(2)] show ?thesis
    using ob.get_put_all [of "\<lambda>md. getPeerIdMid u (md_mid md)" "\<lambda>md. md" mds "[]"] by simp
qed

lemma apply_metadata_step:
  assumes inv: "streams_inv sw" and t: "info sw key = Some t" and old: "oget tracks key = Some t"
    and key: "key = getPeerIdMid u (md_mid md)" and md: "oget (metadataByPeerIdMid (fst sw)) key = Some md"
    and sw'_def: "sw' = apply_metadata br u tracks md sw"
  shows "streams_inv sw' \<and> metadataByPeerIdMid (fst sw') = metadataByPeerIdMid (fst sw) \<and>
    registry sw' key = Some (ti_track t, Some (md_association md)) \<and> (\<forall>k. k \<noteq> key \<longrightarrow> info sw' k = info sw k)"
proof -
  have add: "streams_inv (addTrack br p new) \<and> metadataByPeerIdMid (fst (addTrack br p new)) = metadataByPeerIdMid (fst sw) \<and>
      registry (addTrack br p new) key = Some (ti_track t, Some (md_association md)) \<and>
      (\<forall>k. k \<noteq> key \<longrightarrow> info (addTrack br p new) k = info sw k)"
    if new: "streams_inv new" "info new key = Some t'" "ti_track t' = ti_track t" "ti_association t' = None"
      "metadataByPeerIdMid (fst new) = metadataByPeerIdMid (fst sw)" "\<forall>k. k \<noteq> key \<longrightarrow> info new k = info sw k"
      and p: "at_userId p = u" "at_mid p = md_mid md" "at_track p = ti_track t" for new t' p
  proof -
    have k: "key_of p = key" using p key by simp
    have "add_ok new p" using new(2,3,4) invD(6) [OF new(1,2)] p k by (simp add: add_ok_def)
    moreover have "target new p = md_association md"
      using md new(5) k by (simp add: target_def getUserId_def md_association_def)
    ultimately show ?thesis
      using addTrack_inv [OF new(1)] new(5,6) p k
      by (simp add: addTrack_tables(3) registry_def info_addTrack)
  qed
  show ?thesis
  proof (cases "ti_association t")
    case None
    then show ?thesis unfolding sw'_def apply_metadata_def Let_def key [symmetric] old
      using add [OF inv t _ None] by simp
  next
    case (Some a)
    show ?thesis
    proof (cases "ta_streamId a = md_streamId md \<and> ta_userId a = md_userId md")
      case True
      then have "a = md_association md" by (simp add: md_association_def)
      then show ?thesis using True Some inv t old key
        by (simp add: sw'_def apply_metadata_def registry_def)
    next
      case False
      let ?r = "removeTrack (ti_track t) sw"
      note r = removeTrack_known_inv [OF inv t Some] info_removeTrack [OF inv t Some]
      show ?thesis unfolding sw'_def apply_metadata_def Let_def key [symmetric] old
        using False Some r add [OF r(1), of "t\<lparr>ti_association := None\<rparr>"] by auto
    qed
  qed
qed

lemma apply_metadata_absent:
  "oget tracks (getPeerIdMid u (md_mid md)) = None \<Longrightarrow> apply_metadata br u tracks md sw = sw"
  by (simp add: apply_metadata_def)

lemma apply_metadata_loop:
  assumes "streams_inv sw" and "distinct (map md_mid mds)"
    and "\<forall>md \<in> set mds. let key = getPeerIdMid u (md_mid md) in
      oget (metadataByPeerIdMid (fst sw)) key = Some md \<and> info sw key = oget tracks key"
  shows "streams_inv (fold (apply_metadata br u tracks) mds sw) \<and>
    metadataByPeerIdMid (fst (fold (apply_metadata br u tracks) mds sw)) = metadataByPeerIdMid (fst sw) \<and>
    (\<forall>key. registry (fold (apply_metadata br u tracks) mds sw) key =
      (case List.find (\<lambda>md. getPeerIdMid u (md_mid md) = key) mds of
         None \<Rightarrow> registry sw key
       | Some md \<Rightarrow> map_option (\<lambda>(tr, _). (tr, Some (md_association md))) (registry sw key)))"
  using assms
proof (induction mds arbitrary: sw)
  case (Cons md mds)
  let ?key = "getPeerIdMid u (md_mid md)" and ?sw = "apply_metadata br u tracks md sw"
  have md: "oget (metadataByPeerIdMid (fst sw)) ?key = Some md" "info sw ?key = oget tracks ?key"
    using Cons.prems(3) by (simp_all add: Let_def)
  have inj: "getPeerIdMid u m = getPeerIdMid u m' \<longleftrightarrow> m = m'" for m m' by (simp add: getPeerIdMid_def)
  have step: "streams_inv ?sw \<and> metadataByPeerIdMid (fst ?sw) = metadataByPeerIdMid (fst sw) \<and>
      registry ?sw ?key = map_option (\<lambda>(tr, _). (tr, Some (md_association md))) (registry sw ?key) \<and>
      (\<forall>k. k \<noteq> ?key \<longrightarrow> info ?sw k = info sw k)"
  proof (cases "oget tracks ?key")
    case None
    then show ?thesis using Cons.prems(1) md by (simp add: apply_metadata_absent registry_def)
  next
    case (Some t)
    then show ?thesis
      using apply_metadata_step [OF Cons.prems(1) _ Some refl md(1) refl] md(2) by (simp add: registry_def)
  qed
  have other: "md' \<in> set mds \<Longrightarrow> md_mid md' \<noteq> md_mid md" for md'
    using Cons.prems(2) by (auto simp: rev_image_eqI)
  have "\<forall>md \<in> set mds. let key = getPeerIdMid u (md_mid md) in
      oget (metadataByPeerIdMid (fst ?sw)) key = Some md \<and> info ?sw key = oget tracks key"
    using step Cons.prems(3) other by (simp add: Let_def inj)
  from Cons.IH [OF _ _ this] step Cons.prems(2)
  have ih: "streams_inv (fold (apply_metadata br u tracks) mds ?sw)"
    "metadataByPeerIdMid (fst (fold (apply_metadata br u tracks) mds ?sw)) = metadataByPeerIdMid (fst sw)"
    "registry (fold (apply_metadata br u tracks) mds ?sw) key =
      (case List.find (\<lambda>md. getPeerIdMid u (md_mid md) = key) mds of
         None \<Rightarrow> registry ?sw key
       | Some md \<Rightarrow> map_option (\<lambda>(tr, _). (tr, Some (md_association md))) (registry ?sw key))" for key
    by simp_all
  have gone: "List.find (\<lambda>md'. getPeerIdMid u (md_mid md') = ?key) mds = None"
    using other by (auto simp: find_None_iff inj)
  have same: "registry ?sw key = registry sw key" if "key \<noteq> ?key" for key
    using step that by (simp add: registry_def)
  have "registry (fold (apply_metadata br u tracks) mds ?sw) key =
      (case List.find (\<lambda>md. getPeerIdMid u (md_mid md) = key) (md # mds) of
         None \<Rightarrow> registry sw key
       | Some md \<Rightarrow> map_option (\<lambda>(tr, _). (tr, Some (md_association md))) (registry sw key))" for key
    using ih(3) [of key] gone step same [of key] by (cases "key = ?key") (auto split: option.split)
  with ih(1,2) show ?case by simp
qed simp

lemma streams_inv_metadata [simp]: "streams_inv (st\<lparr>metadataByPeerIdMid := m\<rparr>, w) = streams_inv (st, w)"
  by (simp add: streams_inv_def linked_def contains_def associated_def indexed_def apart_def inhabited_def)

lemma registry_metadata [simp]: "registry (st\<lparr>metadataByPeerIdMid := m\<rparr>, w) = registry (st, w)"
  by (simp add: registry_def fun_eq_iff)

lemma drop_lost_all:
  assumes inv: "streams_inv (st, w)"
  shows "streams_inv (fold (drop_lost metadata) (tracksByPeerIdMid st) (st, w))"
    and "registry (fold (drop_lost metadata) (tracksByPeerIdMid st) (st, w)) k =
      (if oget metadata k = None then map_option (\<lambda>(tr, _). (tr, None)) (registry (st, w) k) else registry (st, w) k)"
    and "oget metadata k \<noteq> None \<Longrightarrow>
      info (fold (drop_lost metadata) (tracksByPeerIdMid st) (st, w)) k = info (st, w) k"
proof -
  have T: "\<forall>(k, t) \<in> set (tracksByPeerIdMid st). info (st, w) k = Some t" "distinct (okeys (tracksByPeerIdMid st))"
    using invD(2) [OF inv] by (auto simp: wf_obj_def)
  note loop = drop_lost_loop [OF inv T(2,1), of metadata]
  show "streams_inv (fold (drop_lost metadata) (tracksByPeerIdMid st) (st, w))" using loop by blast
  show "oget metadata k \<noteq> None \<Longrightarrow>
      info (fold (drop_lost metadata) (tracksByPeerIdMid st) (st, w)) k = info (st, w) k" using loop by auto
  have "info (st, w) k = None" if "k \<notin> set (okeys (tracksByPeerIdMid st))"
    using that [folded oget_None_iff] by simp
  then show "registry (fold (drop_lost metadata) (tracksByPeerIdMid st) (st, w)) k =
      (if oget metadata k = None then map_option (\<lambda>(tr, _). (tr, None)) (registry (st, w) k) else registry (st, w) k)"
    unfolding registry_def using loop
    by (cases "k \<in> set (okeys (tracksByPeerIdMid st))") (auto simp: option.map_comp comp_def)
qed

lemma metadata_absent:
  "oget (fold (\<lambda>md. oset (getPeerIdMid u (md_mid md)) md) mds []) key = None \<longleftrightarrow>
     List.find (\<lambda>md. getPeerIdMid u (md_mid md) = key) mds = None"
  using ob.get_put_all [of "\<lambda>md. getPeerIdMid u (md_mid md)" "\<lambda>md. md" mds "[]" key]
    last_with_None [of "\<lambda>md. getPeerIdMid u (md_mid md)" key mds]
  by (auto simp: find_None_iff split: option.splits)

lemma setMetadata_correct:
  assumes inv: "streams_inv sw" and d: "distinct (map md_mid (mp_metadata payload))"
  shows "streams_inv (setMetadata br payload sw) \<and>
    registry (setMetadata br payload sw) = spec_setMetadata payload (registry sw)"
proof -
  obtain st w where sw: "sw = (st, w)" by fastforce
  let ?u = "mp_userId payload" and ?T = "tracksByPeerIdMid st"
  let ?M = "fold (\<lambda>md. oset (getPeerIdMid ?u (md_mid md)) md) (mp_metadata payload) []"
  obtain st1 w1 where one: "fold (drop_lost ?M) ?T (st, w) = (st1, w1)" by fastforce
  note lost = drop_lost_all [OF inv [unfolded sw], of ?M, unfolded one]
  let ?sw1 = "(st1\<lparr>metadataByPeerIdMid := ?M\<rparr>, w1)"
  have "\<forall>md \<in> set (mp_metadata payload). let key = getPeerIdMid ?u (md_mid md) in
      oget (metadataByPeerIdMid (fst ?sw1)) key = Some md \<and> info ?sw1 key = oget ?T key"
    using metadata_lookup [OF d] lost(3) by (simp add: Let_def)
  from apply_metadata_loop [OF _ d this, of br] lost(1)
  have loop: "streams_inv (setMetadata br payload sw)"
    "registry (setMetadata br payload sw) key =
      (case List.find (\<lambda>md. getPeerIdMid ?u (md_mid md) = key) (mp_metadata payload) of
         None \<Rightarrow> registry (st1, w1) key
       | Some md \<Rightarrow> map_option (\<lambda>(tr, _). (tr, Some (md_association md))) (registry (st1, w1) key))" for key
    unfolding sw setMetadata_loops Let_def one prod.case registry_metadata by simp_all
  have "registry (setMetadata br payload sw) key = spec_setMetadata payload (registry sw) key" for key
    unfolding loop(2) spec_setMetadata_def lost(2) metadata_absent sw [symmetric]
    by (auto split: option.split)
  with loop(1) show ?thesis by blast
qed

section \<open>A peer that leaves\<close>

text \<open>\<open>forget\<close> is what the loop of \<open>removePeer\<close> does for one key together with the deletion of
  the key itself, which the code does for all keys after the loop.\<close>

definition forget_index :: "track \<Rightarrow> 'p sw \<Rightarrow> 'p sw" where
  "forget_index tr = (\<lambda>(st, w). (st\<lparr>trackIdToPeerIdMid := odel (tr_id tr) (trackIdToPeerIdMid st)\<rparr>, w))"

definition forget_track :: "track_info \<Rightarrow> 'p sw \<Rightarrow> 'p sw" where
  "forget_track t sw =
     forget_index (ti_track t) (if ti_association t \<noteq> None then removeTrack (ti_track t) sw else sw)"

definition set_tracks :: "track_info obj \<Rightarrow> 'p sw \<Rightarrow> 'p sw" where
  "set_tracks T = (\<lambda>(st, w). (st\<lparr>tracksByPeerIdMid := T\<rparr>, w))"

definition forget :: "string \<times> track_info \<Rightarrow> 'p sw \<Rightarrow> 'p sw" where
  "forget = (\<lambda>(key, t) sw.
     let sw = forget_track t sw in set_tracks (odel key (tracksByPeerIdMid (fst sw))) sw)"

lemma set_tracks_simps [simp]:
  "tracksByPeerIdMid (fst (set_tracks T sw)) = T"
  "trackIdToPeerIdMid (fst (set_tracks T sw)) = trackIdToPeerIdMid (fst sw)"
  "streamsByUserId (fst (set_tracks T sw)) = streamsByUserId (fst sw)"
  "snd (set_tracks T sw) = snd sw"
  "set_tracks T (set_tracks T' sw) = set_tracks T sw"
  by (cases sw, simp add: set_tracks_def)+

lemma forget_index_simps [simp]:
  "tracksByPeerIdMid (fst (forget_index tr sw)) = tracksByPeerIdMid (fst sw)"
  "trackIdToPeerIdMid (fst (forget_index tr sw)) = odel (tr_id tr) (trackIdToPeerIdMid (fst sw))"
  "streamsByUserId (fst (forget_index tr sw)) = streamsByUserId (fst sw)"
  "snd (forget_index tr sw) = snd sw"
  "forget_index tr (set_tracks T sw) = set_tracks T (forget_index tr sw)"
  by (cases sw, simp add: forget_index_def set_tracks_def)+

lemma forget_correct:
  assumes inv: "streams_inv sw" and t: "info sw key = Some t"
  shows "streams_inv (forget (key, t) sw)"
    and "info (forget (key, t) sw) k = (if k = key then None else info sw k)"
proof -
  let ?r = "if ti_association t \<noteq> None then removeTrack (ti_track t) sw else sw"
  have r: "streams_inv ?r" "info ?r k = (if k = key then Some (t\<lparr>ti_association := None\<rparr>) else info sw k)"
    "trackIdToPeerIdMid (fst ?r) = trackIdToPeerIdMid (fst sw)" for k
    using inv t removeTrack_known_inv [OF inv t] info_removeTrack [OF inv t] by auto
  let ?f = "forget (key, t) sw"
  have f: "streamsByUserId (fst ?f) = streamsByUserId (fst ?r)" "snd ?f = snd ?r"
    "tracksByPeerIdMid (fst ?f) = odel key (tracksByPeerIdMid (fst ?r))"
    "trackIdToPeerIdMid (fst ?f) = odel (tr_id (ti_track t)) (trackIdToPeerIdMid (fst sw))"
    using r(3) by (simp_all add: forget_def forget_track_def Let_def)
  show info: "info ?f k = (if k = key then None else info sw k)" for k
    using r(2) [of k] by (simp add: f(3))
  have "associated ?f u sid tr \<longleftrightarrow> associated ?r u sid tr" for u sid tr
    unfolding associated_def info r(2) by (auto split: if_splits)
  then have "linked ?f"
    using invD(5) [OF r(1)] by (simp add: linked_def contains_def f)
  moreover have "indexed ?f"
    using invD(6) [OF inv] invD(6) [OF inv t] unfolding indexed_def info f(4)
    by (auto split: if_splits) (metis option.inject)
  ultimately show "streams_inv ?f"
    using invD(1-4) [OF r(1)] by (simp add: streams_inv_def f apart_def inhabited_def)
qed

lemma forget_loop:
  assumes "streams_inv sw" and "distinct (okeys es)" and "\<forall>(k, t) \<in> set es. info sw k = Some t"
  shows "streams_inv (fold forget es sw) \<and>
    (\<forall>k. info (fold forget es sw) k = (if k \<in> set (okeys es) then None else info sw k))"
  using assms
proof (induction es arbitrary: sw)
  case (Cons e es)
  obtain key t where e: "e = (key, t)" by fastforce
  have t: "info sw key = Some t" using Cons.prems(3) e by simp
  note step = forget_correct [OF Cons.prems(1) t]
  have "\<forall>(k, t) \<in> set es. info (forget e sw) k = Some t"
    using Cons.prems(2,3) step e by (auto simp: rev_image_eqI)
  then show ?case using Cons.IH [of "forget e sw"] step Cons.prems(2) by (auto simp: e)
qed simp

lemma removeTrack_works:
  assumes "removeTrack tr (st, w) \<noteq> (st, w)"
  shows "\<exists>t a us s. oget (tracksByPeerIdMid st) (key_string (oget (trackIdToPeerIdMid st) (tr_id tr))) = Some t \<and>
    ti_association t = Some a \<and> oget (streamsByUserId st) (ta_userId a) = Some us \<and>
    List.find (\<lambda>s. sw_streamId s = ta_streamId a) (us_streams us) = Some s"
proof (rule ccontr)
  let ?k = "key_string (oget (trackIdToPeerIdMid st) (tr_id tr))"
  assume no: "\<not> ?thesis"
  have "removeTrack tr (st, w) = (st, w)"
  proof (cases "oget (tracksByPeerIdMid st) ?k")
    case (Some t)
    show ?thesis
    proof (cases "ti_association t")
      case (Some a)
      with \<open>oget _ ?k = Some t\<close> no show ?thesis
        by (cases "oget (streamsByUserId st) (ta_userId a)") (simp_all add: removeTrack_def)
    qed (simp add: removeTrack_def Some)
  qed (simp add: removeTrack_def)
  with assms show False ..
qed

text \<open>\<open>removeTrack\<close> reads the table of tracks at one key only, and writes it there only.\<close>

lemma removeTrack_tracks:
  assumes "oget T (key_string (oget (trackIdToPeerIdMid (fst sw)) (tr_id tr))) =
    info sw (key_string (oget (trackIdToPeerIdMid (fst sw)) (tr_id tr)))"
  shows "\<exists>T'. removeTrack tr (set_tracks T sw) = set_tracks T' (removeTrack tr sw) \<and>
    (\<forall>k. k \<noteq> key_string (oget (trackIdToPeerIdMid (fst sw)) (tr_id tr)) \<longrightarrow> oget T' k = oget T k)"
proof -
  obtain st w where sw: "sw = (st, w)" by fastforce
  let ?k = "key_string (oget (trackIdToPeerIdMid st) (tr_id tr))"
  have T: "oget T ?k = oget (tracksByPeerIdMid st) ?k" using assms sw by simp
  show ?thesis
  proof (cases "removeTrack tr (set_tracks T sw) = set_tracks T sw \<and> removeTrack tr sw = sw")
    case True
    then show ?thesis by auto
  next
    case False
    then obtain t a us s where
      "oget (tracksByPeerIdMid st) ?k = Some t" "ti_association t = Some a"
      "oget (streamsByUserId st) (ta_userId a) = Some us"
      "List.find (\<lambda>s. sw_streamId s = ta_streamId a) (us_streams us) = Some s"
      using T removeTrack_works [of tr st w] removeTrack_works [of tr "st\<lparr>tracksByPeerIdMid := T\<rparr>" w]
      by (auto simp: sw set_tracks_def)
    then have "removeTrack tr (set_tracks T sw) = set_tracks
        (oset ?k \<lparr>ti_track = tr, ti_mid = ti_mid t, ti_association = None\<rparr> T) (removeTrack tr sw)"
      using T by (simp add: removeTrack_def sw set_tracks_def Let_def)
    then show ?thesis by (auto simp: sw)
  qed
qed

lemma forget_track_tracks:
  assumes inv: "streams_inv sw" and t: "info sw key = Some t" and T: "oget T key = Some t"
  shows "\<exists>T'. forget_track t (set_tracks T sw) = set_tracks T' (forget (key, t) sw) \<and>
    (\<forall>k. k \<noteq> key \<longrightarrow> oget T' k = oget T k)"
proof (cases "ti_association t")
  case None
  then show ?thesis by (auto simp: forget_def forget_track_def Let_def)
next
  case (Some a)
  have "key_string (oget (trackIdToPeerIdMid (fst sw)) (tr_id (ti_track t))) = key"
    using invD(6) [OF inv t] by (simp add: key_string_def)
  with removeTrack_tracks [of T sw "ti_track t"] t T Some show ?thesis
    by (auto simp: forget_def forget_track_def Let_def)
qed

lemma forget_track_loop:
  assumes "streams_inv sw" and "distinct (okeys es)" and "\<forall>(k, t) \<in> set es. info sw k = Some t \<and> oget T k = Some t"
  shows "\<exists>T'. fold (\<lambda>(k, t). forget_track t) es (set_tracks T sw) = set_tracks T' (fold forget es sw)"
  using assms
proof (induction es arbitrary: sw T)
  case Nil
  then show ?case by auto
next
  case (Cons e es)
  obtain key t where e: "e = (key, t)" by fastforce
  have t: "info sw key = Some t" "oget T key = Some t" using Cons.prems(3) e by simp_all
  obtain T' where T': "forget_track t (set_tracks T sw) = set_tracks T' (forget e sw)"
    "\<forall>k. k \<noteq> key \<longrightarrow> oget T' k = oget T k"
    using forget_track_tracks [OF Cons.prems(1) t] e by auto
  note step = forget_correct [OF Cons.prems(1) t(1), folded e]
  have "\<forall>(k, t) \<in> set es. info (forget e sw) k = Some t \<and> oget T' k = Some t"
  proof (clarify, rule conjI)
    fix k t' assume k: "(k, t') \<in> set es"
    have "k \<noteq> key" using Cons.prems(2) e k by (auto simp: rev_image_eqI)
    with k Cons.prems(3) step(2) T'(2) show "info (forget e sw) k = Some t'" "oget T' k = Some t'" by auto
  qed
  with Cons.IH [OF step(1) _ this] Cons.prems(2) show ?case by (simp add: e T'(1))
qed

definition spec_removePeer :: "string \<Rightarrow> registry \<Rightarrow> registry" where
  "spec_removePeer userId reg key = (if startsWith key (userId @ peerIdMidSeparator) then None else reg key)"

lemma set_tracks_self: "set_tracks (tracksByPeerIdMid (fst sw)) sw = sw"
  by (cases sw) (simp add: set_tracks_def)

lemma removePeer_loop:
  "removePeer userId (st, w) =
    (let es = filter (\<lambda>(k, t). startsWith k (userId @ peerIdMidSeparator)) (tracksByPeerIdMid st)
     in set_tracks (omit (tracksByPeerIdMid st) (okeys es)) (fold (\<lambda>(k, t). forget_track t) es (st, w)))"
  if "wf_obj (tracksByPeerIdMid st)"
proof -
  let ?P = "\<lambda>k. startsWith k (userId @ peerIdMidSeparator)"
  let ?es = "filter (\<lambda>(k, t). ?P k) (tracksByPeerIdMid st)"
  have keys: "filter ?P (okeys (tracksByPeerIdMid st)) = okeys ?es"
    by (simp add: filter_map comp_def case_prod_unfold)
  have "\<forall>(k, t) \<in> set ?es. oget (tracksByPeerIdMid st) k = Some t"
    using that by (auto simp: wf_obj_def)
  then have "fold (\<lambda>key (new, w). case oget (tracksByPeerIdMid st) key of None \<Rightarrow> (new, w)
       | Some t \<Rightarrow>
          let (new, w) = (if ti_association t \<noteq> None then removeTrack (ti_track t) (new, w) else (new, w))
          in (new\<lparr>trackIdToPeerIdMid := odel (tr_id (ti_track t)) (trackIdToPeerIdMid new)\<rparr>, w))
      (okeys es) sw = fold (\<lambda>(k, t). forget_track t) es sw" if "set es \<subseteq> set ?es" for es sw
    using that
    by (induction es arbitrary: sw) (auto simp: forget_track_def forget_index_def Let_def split: prod.splits)
  from this [of ?es "(st, w)"] show ?thesis
    unfolding removePeer_def prod.case Let_def keys by (simp add: set_tracks_def case_prod_unfold)
qed

lemma removePeer_correct:
  assumes inv: "streams_inv sw"
  shows "streams_inv (removePeer userId sw) \<and> registry (removePeer userId sw) = spec_removePeer userId (registry sw)"
proof -
  obtain st w where sw: "sw = (st, w)" by fastforce
  let ?T = "tracksByPeerIdMid st"
  let ?es = "filter (\<lambda>(k, t). startsWith k (userId @ peerIdMidSeparator)) ?T"
  have wf: "wf_obj ?T" using invD(2) [OF inv] by (simp add: sw)
  have T: "tracksByPeerIdMid (fst sw) = ?T" by (simp add: sw)
  have d: "distinct (okeys ?es)" using wf by (simp add: wf_obj_def distinct_map_filter)
  have es: "\<forall>(k, t) \<in> set ?es. info sw k = Some t" using wf by (auto simp: wf_obj_def sw)
  note ideal = forget_loop [OF inv d es]
  obtain T' where "fold (\<lambda>(k, t). forget_track t) ?es sw = set_tracks T' (fold forget ?es sw)"
    using forget_track_loop [OF inv d, of ?T] es set_tracks_self [of sw] by (auto simp: sw)
  then have r: "removePeer userId sw = set_tracks (omit ?T (okeys ?es)) (fold forget ?es sw)"
    using removePeer_loop [OF wf, of userId w] by (simp add: sw Let_def)
  have info: "info (removePeer userId sw) k = info (fold forget ?es sw) k" for k
    using ideal T by (simp add: r)
  have "streams_inv (removePeer userId sw)"
  proof -
    have "associated (removePeer userId sw) = associated (fold forget ?es sw)"
      by (simp add: associated_def info fun_eq_iff)
    then show ?thesis using ideal wf
      unfolding streams_inv_def linked_def indexed_def apart_def inhabited_def contains_def info
      by (simp add: r)
  qed
  moreover have "registry (removePeer userId sw) key = spec_removePeer userId (registry sw) key" for key
  proof -
    have "info (removePeer userId sw) key =
        (if startsWith key (userId @ peerIdMidSeparator) then None else info sw key)"
      by (cases "oget ?T key") (auto simp: r T image_iff dest: map_of_SomeD)
    then show ?thesis by (simp add: registry_def spec_removePeer_def)
  qed
  ultimately show ?thesis by blast
qed

section \<open>A user that leaves\<close>

definition reg_key :: "streams_state \<Rightarrow> track \<Rightarrow> string" where
  "reg_key st tr = key_string (oget (trackIdToPeerIdMid st) (tr_id tr))"

definition cleared :: "streams_state \<Rightarrow> track \<Rightarrow> track_info" where
  "cleared st tr = \<lparr>ti_track = tr,
     ti_mid = (case oget (tracksByPeerIdMid st) (reg_key st tr) of None \<Rightarrow> '''' | Some t \<Rightarrow> ti_mid t),
     ti_association = None\<rparr>"

definition registered :: "streams_state \<Rightarrow> track \<Rightarrow> bool" where
  "registered st tr \<longleftrightarrow> oget (tracksByPeerIdMid st) (reg_key st tr) \<noteq> None"

lemma unassociate_tracks_eq:
  "\<forall>tr \<in> set ts. registered st tr \<Longrightarrow> unassociate_tracks st a ts (acc, w) =
     (None, fold (\<lambda>tr. oset (reg_key st tr) (cleared st tr)) ts acc, fold (stream_removeTrack a) ts w)"
  by (induction ts arbitrary: acc w) (auto simp: registered_def cleared_def reg_key_def Let_def)

lemma fold_stream_removeTrack:
  "heap (fold (stream_removeTrack a) ts w) b = (if b = a then filter (\<lambda>t. t \<notin> set ts) (heap w a) else heap w b)"
  "nextStream (fold (stream_removeTrack a) ts w) = nextStream w"
  by (induction ts arbitrary: w) (auto simp: conj_commute intro: filter_cong)

lemma unassociate_streams_eq:
  assumes "distinct (map sw_stream ss)" and "\<forall>s \<in> set ss. \<forall>tr \<in> set (heap w (sw_stream s)). registered st tr"
  shows "\<exists>w'. unassociate_streams st ss (acc, w) =
      (None, fold (\<lambda>tr. oset (reg_key st tr) (cleared st tr)) (concat (map (\<lambda>s. heap w (sw_stream s)) ss)) acc, w') \<and>
    (\<forall>b. b \<notin> sw_stream ` set ss \<longrightarrow> heap w' b = heap w b) \<and> nextStream w' = nextStream w"
  using assms
proof (induction ss arbitrary: acc w)
  case (Cons s ss)
  let ?ts = "heap w (sw_stream s)"
  let ?w = "fold (stream_removeTrack (sw_stream s)) ?ts w"
  let ?acc = "fold (\<lambda>tr. oset (reg_key st tr) (cleared st tr)) ?ts acc"
  have same: "heap ?w (sw_stream s') = heap w (sw_stream s')" if "s' \<in> set ss" for s'
    using Cons.prems(1) that by (auto simp: fold_stream_removeTrack(1) rev_image_eqI)
  have eq: "map (\<lambda>s. heap ?w (sw_stream s)) ss = map (\<lambda>s. heap w (sw_stream s)) ss"
    using same by simp
  have "distinct (map sw_stream ss)" "\<forall>s \<in> set ss. \<forall>tr \<in> set (heap ?w (sw_stream s)). registered st tr"
    using Cons.prems same by simp_all
  from Cons.IH [OF this, of ?acc, unfolded eq] obtain w' where ih: "unassociate_streams st ss (?acc, ?w) =
      (None, fold (\<lambda>tr. oset (reg_key st tr) (cleared st tr)) (concat (map (\<lambda>s. heap w (sw_stream s)) ss)) ?acc, w')"
    "\<forall>b. b \<notin> sw_stream ` set ss \<longrightarrow> heap w' b = heap ?w b" "nextStream w' = nextStream ?w"
    by blast
  have "unassociate_tracks st (sw_stream s) ?ts (acc, w) = (None, ?acc, ?w)"
    using Cons.prems(2) by (intro unassociate_tracks_eq) simp
  with ih(1) have "unassociate_streams st (s # ss) (acc, w) =
      (None, fold (\<lambda>tr. oset (reg_key st tr) (cleared st tr)) (concat (map (\<lambda>s. heap w (sw_stream s)) (s # ss))) acc, w')"
    by simp
  moreover have "\<forall>b. b \<notin> sw_stream ` set (s # ss) \<longrightarrow> heap w' b = heap w b" "nextStream w' = nextStream w"
    using ih(2,3) by (simp_all add: fold_stream_removeTrack)
  ultimately show ?case by blast
qed simp

lemma last_with_fst: "wf_obj ob \<Longrightarrow> last_with fst k ob = map_option (Pair k) (oget ob k)"
proof (induction ob)
  case (Cons e ob)
  then have ih: "last_with fst k ob = map_option (Pair k) (oget ob k)" by (simp add: wf_obj_def)
  have "k = fst e \<Longrightarrow> oget ob k = None" using Cons.prems by (simp add: wf_obj_def oget_None_iff)
  with ih show ?case by (cases e) (auto split: option.split)
qed simp

lemma oget_merge:
  assumes "wf_obj acc"
  shows "oget (fold (\<lambda>(k, v). oset k v) acc T) k = (case oget acc k of Some v \<Rightarrow> Some v | None \<Rightarrow> oget T k)"
  using ob.get_put_all [of fst snd acc T k] last_with_fst [OF assms, of k]
  by (simp add: case_prod_unfold split: option.splits)

lemma wf_merge: "wf_obj T \<Longrightarrow> wf_obj (fold (\<lambda>(k, v). oset k v) acc T)"
  using ob.invar_put_all [of T fst snd acc] by (simp add: case_prod_unfold)

definition spec_unassociate :: "string \<Rightarrow> registry \<Rightarrow> registry" where
  "spec_unassociate userId reg key = map_option (\<lambda>(tr, a).
     (tr, if \<exists>x. a = Some x \<and> ta_userId x = userId then None else a)) (reg key)"

lemma associated_registered:
  assumes inv: "streams_inv (st, w)" and "associated (st, w) u sid tr"
  obtains t a where "oget (tracksByPeerIdMid st) (reg_key st tr) = Some t" "ti_track t = tr"
    "ti_association t = Some a" "ta_userId a = u" "ta_streamId a = sid"
proof -
  obtain key t a where t: "info (st, w) key = Some t" "ti_track t = tr" "ti_association t = Some a"
    "ta_userId a = u" "ta_streamId a = sid" using assms(2) by (auto simp: associated_def)
  have "reg_key st tr = key" using invD(6) [OF inv t(1)] t(2) by (simp add: reg_key_def key_string_def)
  then show thesis using that t by simp
qed

lemma user_tracks:
  assumes inv: "streams_inv (st, w)" and us: "oget (streamsByUserId st) u = Some us"
  shows "(\<exists>s \<in> set (us_streams us). tr \<in> set (heap w (sw_stream s))) \<longleftrightarrow> (\<exists>sid. associated (st, w) u sid tr)"
proof -
  have "(\<exists>s \<in> set (us_streams us). tr \<in> set (heap w (sw_stream s))) \<longleftrightarrow> (\<exists>sid. contains (st, w) u sid tr)"
  proof
    assume "\<exists>s \<in> set (us_streams us). tr \<in> set (heap w (sw_stream s))"
    then show "\<exists>sid. contains (st, w) u sid tr"
      using stream_at_member [OF invD(1) [OF inv]] us by (fastforce simp: contains_def)
  next
    assume "\<exists>sid. contains (st, w) u sid tr"
    then show "\<exists>s \<in> set (us_streams us). tr \<in> set (heap w (sw_stream s))"
      using us by (auto simp: contains_def stream_at_def dest: find_Some_in)
  qed
  then show ?thesis by (simp add: invD(5) [OF inv])
qed

lemma user_streams_apart:
  assumes inv: "streams_inv (st, w)" and us: "oget (streamsByUserId st) u = Some us"
  shows "distinct (map sw_stream (us_streams us))"
proof -
  have at: "s \<in> set (us_streams us) \<Longrightarrow> at (st, w) u (sw_streamId s) = Some s" for s
    using stream_at_member [OF invD(1) [OF inv]] us by simp
  have "s = s'" if "s \<in> set (us_streams us)" "s' \<in> set (us_streams us)" "sw_stream s = sw_stream s'" for s s'
  proof -
    have "sw_streamId s = sw_streamId s'"
      using invD(3) [OF inv] at [OF that(1)] at [OF that(2)] that(3) unfolding apart_def by blast
    then show ?thesis using at [OF that(1)] at [OF that(2)] by simp
  qed
  moreover have "distinct (us_streams us)"
    using invD(1) [OF inv] us by (auto simp: shape_def distinct_map)
  ultimately show ?thesis by (simp add: distinct_map inj_on_def)
qed

definition clear_user :: "string \<Rightarrow> track_info \<Rightarrow> track_info" where
  "clear_user u t =
     (if \<exists>a. ti_association t = Some a \<and> ta_userId a = u then t\<lparr>ti_association := None\<rparr> else t)"

lemma clear_user_simps [simp]:
  "ti_track (clear_user u t) = ti_track t"
  "ti_association (clear_user u t) = Some a \<longleftrightarrow> ti_association t = Some a \<and> ta_userId a \<noteq> u"
  by (auto simp: clear_user_def)

text \<open>The effect of the collected entries: the association is cleared exactly for the tracks of
  the user.\<close>

lemma cleared_entries:
  assumes inv: "streams_inv (st, w)" and us: "oget (streamsByUserId st) u = Some us"
  defines "acc \<equiv> fold (\<lambda>tr. oset (reg_key st tr) (cleared st tr)) (concat (map (\<lambda>s. heap w (sw_stream s)) (us_streams us))) []"
  shows "oget (fold (\<lambda>(k, v). oset k v) acc (tracksByPeerIdMid st)) k =
    map_option (clear_user u) (oget (tracksByPeerIdMid st) k)"
proof -
  let ?U = "concat (map (\<lambda>s. heap w (sw_stream s)) (us_streams us))" and ?T = "tracksByPeerIdMid st"
  have U: "tr \<in> set ?U \<longleftrightarrow> (\<exists>sid. associated (st, w) u sid tr)" for tr
    using user_tracks [OF inv us, of tr] by auto
  have "wf_obj acc"
    unfolding acc_def by (rule ob.invar_put_all) simp
  have merged: "oget (fold (\<lambda>(k, v). oset k v) acc ?T) k =
      (case last_with (reg_key st) k ?U of Some tr \<Rightarrow> Some (cleared st tr) | None \<Rightarrow> oget ?T k)"
    using ob.get_put_all [of "reg_key st" "cleared st" ?U "[]" k]
    unfolding oget_merge [OF \<open>wf_obj acc\<close>] by (simp add: acc_def split: option.splits)
  show ?thesis
  proof (cases "last_with (reg_key st) k ?U")
    case None
    have "\<not> (ti_association t = Some a \<and> ta_userId a = u)" if "oget ?T k = Some t" for t a
    proof
      assume a: "ti_association t = Some a \<and> ta_userId a = u"
      then have "associated (st, w) u (ta_streamId a) (ti_track t)" using that by (auto simp: associated_def)
      then have "ti_track t \<in> set ?U" using U by blast
      moreover have "reg_key st (ti_track t) = k"
        using invD(6) [OF inv] that by (simp add: reg_key_def key_string_def)
      ultimately show False using None unfolding last_with_None by blast
    qed
    then show ?thesis unfolding merged None by (cases "oget ?T k") (auto simp: clear_user_def)
  next
    case (Some tr)
    then have "tr \<in> set ?U" "reg_key st tr = k" using last_with_Some [OF Some] by blast+
    then obtain t a where "oget ?T k = Some t" "ti_track t = tr" "ti_association t = Some a" "ta_userId a = u"
      using U associated_registered [OF inv] by metis
    then show ?thesis
      unfolding merged Some by (simp add: clear_user_def cleared_def \<open>reg_key st tr = k\<close>)
  qed
qed

lemma registry_clear_user:
  assumes "\<And>k. info sw' k = map_option (clear_user u) (info sw k)"
  shows "registry sw' = spec_unassociate u (registry sw)"
proof
  fix key
  show "registry sw' key = spec_unassociate u (registry sw) key"
    by (cases "info sw key") (auto simp: assms registry_def spec_unassociate_def clear_user_def)
qed

lemma drop_user_inv:
  assumes inv: "streams_inv sw"
    and info: "\<And>k. info sw' k = map_option (clear_user u) (info sw k)"
    and at: "\<And>u' sid. at sw' u' sid = (if u' = u then None else at sw u' sid)"
    and same: "\<And>u' sid s. at sw u' sid = Some s \<Longrightarrow> u' \<noteq> u \<Longrightarrow> tracks_of sw' s = tracks_of sw s"
    and rest: "trackIdToPeerIdMid (fst sw') = trackIdToPeerIdMid (fst sw)" "nextStream (snd sw') = nextStream (snd sw)"
      "wf_obj (tracksByPeerIdMid (fst sw'))" "shape (streamsByUserId (fst sw'))"
  shows "streams_inv sw'"
proof -
  have c: "contains sw' u' sid tr \<longleftrightarrow> u' \<noteq> u \<and> contains sw u' sid tr" for u' sid tr
    using same unfolding contains_def at by auto
  have a: "associated sw' u' sid tr \<longleftrightarrow> u' \<noteq> u \<and> associated sw u' sid tr" for u' sid tr
  proof
    assume "associated sw' u' sid tr"
    then obtain k t b where "info sw k = Some t" "ti_track t = tr" "ti_association t = Some b" "ta_userId b \<noteq> u"
      "ta_userId b = u'" "ta_streamId b = sid"
      unfolding associated_def info by auto
    then show "u' \<noteq> u \<and> associated sw u' sid tr" unfolding associated_def by blast
  next
    assume "u' \<noteq> u \<and> associated sw u' sid tr"
    then obtain k t b where t: "info sw k = Some t" "ti_track t = tr" "ti_association t = Some b" "ta_userId b \<noteq> u"
      "ta_userId b = u'" "ta_streamId b = sid"
      unfolding associated_def by blast
    then have "info sw' k = Some (clear_user u t)" "ti_track (clear_user u t) = tr"
      "ti_association (clear_user u t) = Some b" by (simp_all add: info)
    with t(5,6) show "associated sw' u' sid tr" unfolding associated_def by blast
  qed
  have "linked sw'" unfolding linked_def c a by (simp add: invD(5) [OF inv])
  moreover have "indexed sw'" unfolding indexed_def info rest using invD(6) [OF inv] by auto
  moreover have "apart sw'" using invD(3) [OF inv] unfolding apart_def at rest by (auto split: if_splits)
  moreover have "inhabited sw'" using invD(4) [OF inv] same unfolding inhabited_def at by (auto split: if_splits)
  ultimately show ?thesis using rest by (simp add: streams_inv_def)
qed

lemma shape_omit: "shape ob \<Longrightarrow> shape (omit ob [u])"
  by (simp add: shape_def)

lemma unassociateUserTracks_correct:
  assumes inv: "streams_inv (st, w)"
  shows "\<exists>st' w'. unassociateUserTracks u (st, w) = (Inr st', w') \<and> streams_inv (st', w') \<and>
    registry (st', w') = spec_unassociate u (registry (st, w))"
proof (cases "oget (streamsByUserId st) u")
  case None
  have "clear_user u t = t" if t: "info (st, w) key = Some t" for key t
  proof (cases "ti_association t")
    case (Some a)
    obtain s where "at (st, w) (ta_userId a) (ta_streamId a) = Some s"
      using association_at [OF inv t Some] by blast
    then show ?thesis using None Some by (auto simp: stream_at_def clear_user_def)
  qed (simp add: clear_user_def)
  then have "info (st, w) k = map_option (clear_user u) (info (st, w) k)" for k
    by (cases "info (st, w) k") simp_all
  from registry_clear_user [OF this]
  have "registry (st, w) = spec_unassociate u (registry (st, w))" .
  then show ?thesis using None inv by (simp add: unassociateUserTracks_def)
next
  case (Some us)
  let ?acc = "fold (\<lambda>tr. oset (reg_key st tr) (cleared st tr)) (concat (map (\<lambda>s. heap w (sw_stream s)) (us_streams us))) []"
  let ?T = "fold (\<lambda>(k, v). oset k v) ?acc (tracksByPeerIdMid st)"
  have "\<forall>s \<in> set (us_streams us). \<forall>tr \<in> set (heap w (sw_stream s)). registered st tr"
  proof (intro ballI)
    fix s tr assume "s \<in> set (us_streams us)" "tr \<in> set (heap w (sw_stream s))"
    then obtain sid where "associated (st, w) u sid tr" using user_tracks [OF inv Some, of tr] by blast
    then show "registered st tr" by (rule associated_registered [OF inv]) (simp add: registered_def)
  qed
  from unassociate_streams_eq [OF user_streams_apart [OF inv Some] this, of "[]"]
  obtain w' where loop: "unassociate_streams st (us_streams us) ([], w) = (None, ?acc, w')"
    and heap: "\<forall>b. b \<notin> sw_stream ` set (us_streams us) \<longrightarrow> heap w' b = heap w b"
    and next_id: "nextStream w' = nextStream w" by blast
  let ?st = "st\<lparr>streamsByUserId := omit (streamsByUserId st) [u], tracksByPeerIdMid := ?T\<rparr>"
  have eq: "unassociateUserTracks u (st, w) = (Inr ?st, w')"
    using Some loop by (simp add: unassociateUserTracks_def)
  have info: "info (?st, w') k = map_option (clear_user u) (info (st, w) k)" for k
    using cleared_entries [OF inv Some, of k] by simp
  have "streams_inv (?st, w')"
  proof (rule drop_user_inv [OF inv info])
    fix u' sid s assume s: "at (st, w) u' sid = Some s" "u' \<noteq> u"
    have "sw_stream s \<noteq> sw_stream s'" if "s' \<in> set (us_streams us)" for s'
      using invD(3) [OF inv] s stream_at_member [OF invD(1) [OF inv] _ that] Some
      unfolding apart_def by fastforce
    then show "tracks_of (?st, w') s = tracks_of (st, w) s" using heap by auto
  qed (use invD(1,2) [OF inv] next_id in \<open>simp_all add: stream_at_def shape_omit wf_merge\<close>)
  with registry_clear_user [OF info] eq show ?thesis by blast
qed

section \<open>The reducer as a machine\<close>

definition same_tracks :: "'p sw \<Rightarrow> 'p sw \<Rightarrow> bool" where
  "same_tracks sw' sw \<longleftrightarrow>
     streamsByUserId (fst sw') = streamsByUserId (fst sw) \<and> tracksByPeerIdMid (fst sw') = tracksByPeerIdMid (fst sw) \<and>
     trackIdToPeerIdMid (fst sw') = trackIdToPeerIdMid (fst sw) \<and> metadataByPeerIdMid (fst sw') = metadataByPeerIdMid (fst sw) \<and>
     heap (snd sw') = heap (snd sw) \<and> nextStream (snd sw') = nextStream (snd sw)"

lemma same_tracks_refl [simp]: "same_tracks sw sw"
  by (simp add: same_tracks_def)

lemma same_tracks_inv: "same_tracks sw' sw \<Longrightarrow> streams_inv sw \<Longrightarrow> streams_inv sw'"
  by (simp add: same_tracks_def streams_inv_def linked_def contains_def associated_def indexed_def apart_def
      inhabited_def)

lemma stopStream_simps [simp]: "heap (stopStream s w) = heap w" "nextStream (stopStream s w) = nextStream w"
  by (simp_all add: stopStream_def Let_def)

lemma initializeMediaRecorder_same:
  "initializeMediaRecorder br roomID userID stream w = (r, w') \<Longrightarrow> heap w' = heap w \<and> nextStream w' = nextStream w"
  by (auto simp: initializeMediaRecorder_def split: if_splits option.splits sum.splits)

lemma record_all_same:
  "record_all br roomID userID ss w = (r, w') \<Longrightarrow> heap w' = heap w \<and> nextStream w' = nextStream w"
proof (induction ss arbitrary: w r w')
  case (Cons s ss)
  obtain x1 w1 where one: "initializeMediaRecorder br roomID userID (sw_stream (snd s)) w = (x1, w1)" by fastforce
  obtain x2 w2 where two: "record_all br roomID userID ss w1 = (x2, w2)" by fastforce
  show ?case
    using Cons.prems Cons.IH [OF two] two initializeMediaRecorder_same [OF one] one
    by (cases s) (auto split: sum.splits)
qed simp

lemma push_recorder_same:
  "push_recorder r x w = (r', w') \<Longrightarrow> heap w' = heap w \<and> nextStream w' = nextStream w"
  by (auto simp: push_recorder_def split: recorders.splits)

lemma destroy_peer_simps [simp]: "heap (destroy_peer br w) = heap w" "nextStream (destroy_peer br w) = nextStream w"
  by (simp_all add: destroy_peer_def split: option.split)

lemma addLocalStream_same:
  assumes "addLocalStream br type stream (st, w) = (r, w')"
  shows "heap w' = heap w \<and> nextStream w' = nextStream w \<and> (\<forall>st'. r = Inr st' \<longrightarrow> same_tracks (st', w') (st, w))"
  using assms unfolding addLocalStream_def recordAdditionalStream_def Let_def
  by (auto simp: same_tracks_def split: if_splits option.splits prod.splits sum.splits
      dest!: initializeMediaRecorder_same push_recorder_same)

lemma stopRecordAdditionalStream_same:
  "stopRecordAdditionalStream br rs ls w = (r, w') \<Longrightarrow> heap w' = heap w \<and> nextStream w' = nextStream w"
  by (auto simp: stopRecordAdditionalStream_def split: option.splits sum.splits)

lemma removeLocalStream_same:
  assumes "removeLocalStream br type (st, w) = (r, w')"
  shows "heap w' = heap w \<and> nextStream w' = nextStream w \<and> (\<forall>st'. r = Inr st' \<longrightarrow> same_tracks (st', w') (st, w))"
  using assms unfolding removeLocalStream_def Let_def
  by (auto simp: same_tracks_def split: if_splits option.splits prod.splits sum.splits
      dest!: stopRecordAdditionalStream_same)

lemma recordLocalStream_same:
  assumes "recordLocalStream br url roomID userID (st, w) = (r, w')"
  shows "heap w' = heap w \<and> nextStream w' = nextStream w \<and> (\<forall>st'. r = Inr st' \<longrightarrow> same_tracks (st', w') (st, w))"
  using assms unfolding recordLocalStream_def
  by (auto simp: same_tracks_def split: prod.splits sum.splits dest!: record_all_same)

text \<open>The actions that have nothing to do with remote tracks, hanging up excepted.\<close>

fun local_action :: "stream_action \<Rightarrow> bool" where
  "local_action (STREAM_REMOVE _) \<longleftrightarrow> True"
| "local_action (STREAM_LOCAL_RECORD _ _ _) \<longleftrightarrow> True"
| "local_action STREAM_LOCAL_STOP_RECORD \<longleftrightarrow> True"
| "local_action (MEDIA_STREAM _) \<longleftrightarrow> True"
| "local_action (MEDIA_TRACK _) \<longleftrightarrow> True"
| "local_action OTHER \<longleftrightarrow> True"
| "local_action _ \<longleftrightarrow> False"

lemma local_action_same:
  assumes "local_action action"
  shows "same_tracks (dispatch br (st, w) action) (st, w)"
proof -
  obtain r w' where r: "streams br action (st, w) = (r, w')" by fastforce
  have "heap w' = heap w \<and> nextStream w' = nextStream w \<and> (\<forall>st'. r = Inr st' \<longrightarrow> same_tracks (st', w') (st, w))"
  proof (cases action)
    case (STREAM_REMOVE type)
    then show ?thesis using r removeLocalStream_same [of br type st w r w'] by simp
  next
    case (STREAM_LOCAL_RECORD url roomID userID)
    then show ?thesis using r recordLocalStream_same [of br url roomID userID st w r w'] by simp
  next
    case (MEDIA_STREAM act)
    then show ?thesis
      using r addLocalStream_same [of br _ _ st w r w'] by (auto split: async_action.splits)
  next
    case (MEDIA_TRACK act)
    then show ?thesis
      using r by (auto simp: setLocalStreamMirror_def same_tracks_def split: async_action.splits option.splits)
  qed (use assms r in \<open>auto simp: stopRecordLocalStream_def setLocalStreamMirror_def same_tracks_def
      split: if_splits option.splits\<close>)
  then show ?thesis using r by (auto simp: dispatch_def same_tracks_def split: sum.split)
qed

fun action_ok :: "'p sw \<Rightarrow> stream_action \<Rightarrow> bool" where
  "action_ok sw (STREAM_TRACK_ADD p) \<longleftrightarrow> add_ok sw p"
| "action_ok sw (STREAM_TRACK_REMOVE tr) \<longleftrightarrow> remove_ok sw tr"
| "action_ok sw (TRACKS_METADATA payload) \<longleftrightarrow> distinct (map md_mid (mp_metadata payload))"
| "action_ok sw _ \<longleftrightarrow> True"

lemma dispatch_returns: "streams br action sw = returns x \<Longrightarrow> dispatch br sw action = x"
  by (cases x) (simp add: dispatch_def)

lemma streams_inv_default: "streams_inv (defaultState, w)"
  by (simp add: streams_inv_def shape_def linked_def contains_def associated_def indexed_def apart_def
      inhabited_def defaultState_def)

lemma dispatch_inv:
  assumes inv: "streams_inv sw" and ok: "action_ok sw action"
  shows "streams_inv (dispatch br sw action)"
proof -
  obtain st w where sw: "sw = (st, w)" by fastforce
  consider "local_action action" | p where "action = STREAM_TRACK_ADD p"
    | tr where "action = STREAM_TRACK_REMOVE tr" | u where "action = NICKNAME_REMOVE u"
    | m where "action = TRACKS_METADATA m" | u where "action = PEER_REMOVE u" | "action = HANG_UP"
    by (cases action) simp_all
  then show ?thesis
  proof cases
    case 1
    then show ?thesis using same_tracks_inv [OF local_action_same] inv by (simp add: sw)
  next
    case 2
    then show ?thesis using inv ok dispatch_returns [of br action sw] by (simp add: addTrack_inv)
  next
    case 3
    then show ?thesis using inv ok dispatch_returns [of br action sw] by (simp add: removeTrack_inv)
  next
    case (4 u)
    then show ?thesis
      using unassociateUserTracks_correct [OF inv [unfolded sw], of u] by (auto simp: dispatch_def sw)
  next
    case 5
    then show ?thesis using inv ok dispatch_returns [of br action sw] by (simp add: setMetadata_correct)
  next
    case 6
    then show ?thesis using inv dispatch_returns [of br action sw] by (simp add: removePeer_correct)
  next
    case 7
    then show ?thesis by (simp add: dispatch_def hang_up_def sw Let_def streams_inv_default)
  qed
qed

interpretation reducer: machine "dispatch br" action_ok streams_inv for br
  by unfold_locales (rule dispatch_inv)

section \<open>What the reducer guarantees\<close>

lemma associated_registry:
  "associated sw u sid tr \<longleftrightarrow>
     (\<exists>key a. registry sw key = Some (tr, Some a) \<and> ta_userId a = u \<and> ta_streamId a = sid)"
proof
  assume "associated sw u sid tr"
  then show "\<exists>key a. registry sw key = Some (tr, Some a) \<and> ta_userId a = u \<and> ta_streamId a = sid"
    by (auto simp: associated_def registry_def)
next
  assume "\<exists>key a. registry sw key = Some (tr, Some a) \<and> ta_userId a = u \<and> ta_streamId a = sid"
  then obtain key t a where "info sw key = Some t" "ti_track t = tr" "ti_association t = Some a"
    "ta_userId a = u" "ta_streamId a = sid" by (auto simp: registry_def)
  then show "associated sw u sid tr" unfolding associated_def by blast
qed

text \<open>
  After every sequence of actions that the peer connections can cause, a track is in the
  stream \<open>sid\<close> of the user \<open>u\<close> exactly if the table of tracks associates it with them; every
  user entry has a stream, every stream a track, and the streams of a user have different
  identifiers.
\<close>

lemma streams_hold_associated_tracks:
  assumes "admissible (dispatch br) action_ok (defaultState, w) actions"
    and "sw = run (dispatch br) (defaultState, w) actions"
  shows "(\<forall>u sid tr. contains sw u sid tr \<longleftrightarrow> associated sw u sid tr) \<and>
    (\<forall>u us. oget (streamsByUserId (fst sw)) u = Some us \<longrightarrow>
       us_streams us \<noteq> [] \<and> distinct (map sw_streamId (us_streams us)) \<and>
       (\<forall>s \<in> set (us_streams us). tracks_of sw s \<noteq> []))"
proof -
  have inv: "streams_inv sw"
    using reducer.run_inv [OF streams_inv_default assms(1)] assms(2) by simp
  have "tracks_of sw s \<noteq> []" if "oget (streamsByUserId (fst sw)) u = Some us" "s \<in> set (us_streams us)" for u us s
    using invD(4) [OF inv] stream_at_member [OF invD(1) [OF inv] that] unfolding inhabited_def by blast
  then show ?thesis using invD(1,5) [OF inv] unfolding shape_def by blast
qed

text \<open>
  C10. In a reachable state, a metadata message with different \<open>mid\<close>s refines its
  specification on the registry: a registered track becomes associated with the user and the
  stream of the entry for its key, and a track without an entry becomes unassociated. The
  contents of the streams follow.
\<close>

theorem setMetadata_refines:
  assumes "streams_inv sw" and "distinct (map md_mid (mp_metadata payload))"
  shows "registry (setMetadata br payload sw) = spec_setMetadata payload (registry sw) \<and>
    (\<forall>u sid tr. contains (setMetadata br payload sw) u sid tr \<longleftrightarrow>
       (\<exists>key a. spec_setMetadata payload (registry sw) key = Some (tr, Some a) \<and>
          ta_userId a = u \<and> ta_streamId a = sid))"
proof -
  have c: "streams_inv (setMetadata br payload sw)"
    "registry (setMetadata br payload sw) = spec_setMetadata payload (registry sw)"
    using setMetadata_correct [OF assms] by blast+
  show ?thesis unfolding invD(5) [OF c(1)] associated_registry c(2) by blast
qed

lemma startsWith_peer:
  assumes "CHR '':'' \<notin> set u" and "CHR '':'' \<notin> set u'"
  shows "startsWith (getPeerIdMid u' mid) (u @ peerIdMidSeparator) \<longleftrightarrow> u' = u"
proof
  assume "startsWith (getPeerIdMid u' mid) (u @ peerIdMidSeparator)"
  then obtain r where "u' @ ''::'' @ mid = u @ ''::'' @ r"
    unfolding startsWith_def getPeerIdMid_def peerIdMidSeparator_def
    by (metis append.assoc append_take_drop_id)
  then have "takeWhile (\<lambda>c. c \<noteq> CHR '':'') (u' @ ''::'' @ mid) = takeWhile (\<lambda>c. c \<noteq> CHR '':'') (u @ ''::'' @ r)"
    by simp
  moreover have "takeWhile (\<lambda>c. c \<noteq> CHR '':'') (x @ ''::'' @ y) = x" if "CHR '':'' \<notin> set x" for x y
    using that by (subst takeWhile_append2) auto
  ultimately show "u' = u" using assms by simp
qed (simp add: startsWith_def getPeerIdMid_def)

text \<open>
  When a peer leaves, exactly its tracks are forgotten: the registry loses the keys of this
  peer and keeps those of the others, provided that no user identifier contains a colon, and the
  result is a state in which streams and associations agree.
\<close>

lemma removePeer_exact:
  assumes "streams_inv sw" and "CHR '':'' \<notin> set u" and "CHR '':'' \<notin> set u'"
  shows "streams_inv (removePeer u sw) \<and>
    registry (removePeer u sw) (getPeerIdMid u' mid) = (if u' = u then None else registry sw (getPeerIdMid u' mid))"
  using removePeer_correct [OF assms(1), of u] startsWith_peer [OF assms(2,3), of mid]
  by (simp add: spec_removePeer_def)

text \<open>
  C24. When a user's nickname is removed, the reducer does not throw, the user's entry is gone,
  exactly the tracks that were associated with the user are unassociated, and no other
  registered track changes.
\<close>

theorem unassociate_refines:
  assumes "streams_inv (st, w)"
  shows "\<exists>st' w'. unassociateUserTracks u (st, w) = (Inr st', w') \<and> streams_inv (st', w') \<and>
    registry (st', w') = spec_unassociate u (registry (st, w)) \<and> (\<forall>sid tr. \<not> contains (st', w') u sid tr)"
proof -
  obtain st' w' where r: "unassociateUserTracks u (st, w) = (Inr st', w')" "streams_inv (st', w')"
    "registry (st', w') = spec_unassociate u (registry (st, w))"
    using unassociateUserTracks_correct [OF assms] by blast
  have "\<not> associated (st', w') u sid tr" for sid tr
  proof
    assume "associated (st', w') u sid tr"
    then obtain key a where "registry (st', w') key = Some (tr, Some a)" "ta_userId a = u"
      unfolding associated_registry by blast
    then show False by (auto simp: r(3) spec_unassociate_def split: if_splits)
  qed
  then show ?thesis using r invD(5) [OF r(2)] by blast
qed

text \<open>
  Adding a track that is not registered puts it into the stream that the metadata of its
  transceiver names, or else into the announced one, and into no other; removing it again leaves
  every stream with the tracks it had, and the track registered without an association.
\<close>

lemma add_remove_track:
  assumes inv: "streams_inv sw" and new: "info sw (key_of p) = None"
    "oget (trackIdToPeerIdMid (fst sw)) (tr_id (at_track p)) = None"
  shows "(contains (addTrack br p sw) u sid tr \<longleftrightarrow> contains sw u sid tr \<or>
      tr = at_track p \<and> u = ta_userId (getUserId (fst sw) p) \<and> sid = ta_streamId (getUserId (fst sw) p)) \<and>
    (contains (removeTrack (at_track p) (addTrack br p sw)) u sid tr \<longleftrightarrow> contains sw u sid tr) \<and>
    registry (removeTrack (at_track p) (addTrack br p sw)) = (registry sw)(key_of p \<mapsto> (at_track p, None))"
proof -
  let ?a = "addTrack br p sw"
  have ok: "add_ok sw p" using new by (simp add: add_ok_def)
  note inv1 = addTrack_inv [OF inv ok, of br]
  have info: "info ?a (key_of p) =
      Some \<lparr>ti_track = at_track p, ti_mid = at_mid p, ti_association = Some (target sw p)\<rparr>"
    by (simp add: info_addTrack)
  have added: "contains ?a u sid tr \<longleftrightarrow> contains sw u sid tr \<or>
      u = ta_userId (target sw p) \<and> sid = ta_streamId (target sw p) \<and> tr = at_track p"
    by (rule addTrack_streams(1) [OF invD(1,3) [OF inv]])
  have fresh: "\<not> contains sw u sid (at_track p)"
    using invD(6) [OF inv] new(2) unfolding invD(5) [OF inv] associated_def by fastforce
  have "contains (removeTrack (at_track p) ?a) u sid tr \<longleftrightarrow> contains ?a u sid tr \<and>
      \<not> (u = ta_userId (target sw p) \<and> sid = ta_streamId (target sw p) \<and> tr = at_track p)"
    using removeTrack_streams(1) [OF inv1 info] by simp
  then have "contains (removeTrack (at_track p) ?a) u sid tr \<longleftrightarrow> contains sw u sid tr"
    using added fresh by blast
  moreover have "registry (removeTrack (at_track p) ?a) = (registry sw)(key_of p \<mapsto> (at_track p, None))"
    using info_removeTrack(1) [OF inv1 info] by (auto simp: registry_def fun_eq_iff info_addTrack)
  ultimately show ?thesis using added unfolding target_def by blast
qed

lemma stopStream_effect:
  "stopped (stopStream s w) = stopped w @ heap w (sw_stream s)"
  "set (revoked (stopStream s w)) = set (revoked w) \<union> (case sw_url s of Some u \<Rightarrow> if u = '''' then {} else {u} | None \<Rightarrow> {})"
  by (simp_all add: stopStream_def revoke_def Let_def split: option.split)

lemma stop_fold:
  "heap (fold (\<lambda>x. stopStream (f x)) xs w) = heap w \<and>
   stopped (fold (\<lambda>x. stopStream (f x)) xs w) = stopped w @ concat (map (\<lambda>x. heap w (sw_stream (f x))) xs)"
  by (induction xs arbitrary: w) (simp_all add: stopStream_effect)

lemma stop_users_fold:
  "heap (fold (\<lambda>(_, us). stopAllTracks (us_streams us)) xs w) = heap w \<and>
   stopped (fold (\<lambda>(_, us). stopAllTracks (us_streams us)) xs w) =
     stopped w @ concat (map (\<lambda>(_, us). concat (map (\<lambda>s. heap w (sw_stream s)) (us_streams us))) xs)"
proof (induction xs arbitrary: w)
  case (Cons x xs)
  then show ?case
    using stop_fold [of "\<lambda>s. s" "us_streams (snd x)" w]
    by (cases x) (simp add: stopAllTracks_def Cons.IH)
qed simp

text \<open>
  Hanging up stops every track of every local stream and of every stream of every user and
  leaves the default state.
\<close>

lemma hang_up_stops_everything:
  "fst (hang_up br (st, w)) = defaultState \<and>
   set (stopped (snd (hang_up br (st, w)))) = set (stopped w) \<union>
     (\<Union>(_, ls) \<in> set (localStreams st). set (heap w (sw_stream ls))) \<union>
     (\<Union>(_, us) \<in> set (streamsByUserId st). \<Union>s \<in> set (us_streams us). set (heap w (sw_stream s)))"
proof -
  let ?w1 = "destroy_peer br w"
  let ?w2 = "fold (\<lambda>x. stopStream (snd x)) (localStreams st) ?w1"
  have d: "heap ?w1 = heap w" "stopped ?w1 = stopped w"
    by (simp_all add: destroy_peer_def split: option.split)
  note local_fold = stop_fold [of snd "localStreams st" ?w1] and users = stop_users_fold [of "streamsByUserId st" ?w2]
  show ?thesis
    using local_fold users d by (auto simp: hang_up_def Let_def case_prod_unfold)
qed

lemma record_all_new_peers:
  "roomID \<noteq> '''' \<or> userID \<noteq> '''' \<Longrightarrow> record_all br roomID userID ss w =
     (Inr (map (\<lambda>(_, s). streamObjId br (sw_stream s)) ss),
      if ss = [] then w
      else w\<lparr>peers := peers w @ map (\<lambda>(_, s). newPeer br roomID userID (sw_stream s)) ss,
             peerInstance := Some (length (peers w) + length ss - 1)\<rparr>)"
  by (induction ss arbitrary: w) (auto simp: initializeMediaRecorder_def)

text \<open>
  C38. Recording creates one peer for each local stream but remembers only the last: stopping
  the recording destroys that one, and the peers of all other local streams live on.
\<close>

theorem recording_keeps_last_peer:
  assumes "roomID \<noteq> '''' \<or> userID \<noteq> ''''" and "localStreams st = ss @ [(type, s)]"
  shows "\<exists>st1 w1. recordLocalStream br url roomID userID (st, w) = (Inr st1, w1) \<and>
    peers (snd (stopRecordLocalStream br (st1, w1))) =
      peers w @ map (\<lambda>(_, s). newPeer br roomID userID (sw_stream s)) ss @
      [peerDestroy br (newPeer br roomID userID (sw_stream s))] \<and>
    isRecording (fst (stopRecordLocalStream br (st1, w1))) = isRecording st"
  using assms
  by (simp add: recordLocalStream_def record_all_new_peers stopRecordLocalStream_def destroy_peer_def
      nth_append list_update_append)

text \<open>
  Stopping toggles the flag instead of clearing it: a stop without a recording turns the
  recording state on, and the next local stream is then added to a recording peer that does not
  exist, which throws.
\<close>

lemma stop_without_recording:
  assumes "\<not> isRecording st" and "peerInstance w = None"
  shows "let sw = dispatch br (st, w) STREAM_LOCAL_STOP_RECORD in
    isRecording (fst sw) \<and> \<not> recordingFlag (snd sw) \<and>
    fst (streams br (MEDIA_STREAM (Resolved (type, stream))) sw) = Inl TypeError"
  using assms
  by (simp add: dispatch_def stopRecordLocalStream_def destroy_peer_def addLocalStream_def Let_def
      recordAdditionalStream_def initializeMediaRecorder_def stopStream_def revoke_def Let_def split: option.split)

section \<open>Runs that meet the hypotheses\<close>

definition toy_browser :: "nat browser" where
  "toy_browser = \<lparr>streamObjId = (\<lambda>_. ''id''), objectURL = (\<lambda>_. None), newPeer = (\<lambda>_ _ s. s),
     peerStreams = (\<lambda>_. Some []), peerAddStream = (\<lambda>_ p. Inr p), peerRemoveStream = (\<lambda>_ p. Inr p),
     peerDestroy = (\<lambda>p. p + 100)\<rparr>"

definition toy_world :: "nat stream_world" where
  "toy_world = \<lparr>heap = (\<lambda>_. []), nextStream = 0, stopped = [], onmute = [], onunmute = [], revoked = [], peers = [], peerInstance = None,
     recordingFlag = False, defaultRecorders = []\<rparr>"

definition toy_track :: track where
  "toy_track = \<lparr>tr_obj = 1, tr_id = ''t'', tr_kind = ''video'', tr_label = ''''\<rparr>"

definition toy_add :: add_track_payload where
  "toy_add = \<lparr>at_mid = ''0'', at_streamId = ''s'', at_userId = ''sfu'', at_track = toy_track\<rparr>"

definition toy_metadata :: metadata_payload where
  "toy_metadata = \<lparr>mp_userId = ''sfu'',
     mp_metadata = [\<lparr>md_mid = ''0'', md_kind = ''video'', md_userId = ''ann'', md_streamId = ''c''\<rparr>]\<rparr>"

lemma toy_add_ok: "add_ok (defaultState, toy_world) toy_add"
  by (simp add: add_ok_def defaultState_def)

lemma toy_state_inv: "streams_inv (addTrack toy_browser toy_add (defaultState, toy_world))"
  using addTrack_inv [OF streams_inv_default toy_add_ok] .

lemma toy_state:
  "addTrack toy_browser toy_add (defaultState, toy_world) =
    (defaultState\<lparr>streamsByUserId := [(''sfu'', \<lparr>us_userId = ''sfu'', us_streams =
         [\<lparr>sw_stream = 0, sw_streamId = ''s'', sw_url = None\<rparr>]\<rparr>)],
       trackIdToPeerIdMid := [(''t'', ''sfu::0'')],
       tracksByPeerIdMid := [(''sfu::0'', \<lparr>ti_track = toy_track, ti_mid = ''0'',
         ti_association = Some \<lparr>ta_streamId = ''s'', ta_userId = ''sfu''\<rparr>\<rparr>)]\<rparr>,
     toy_world\<lparr>nextStream := 1, heap := (\<lambda>_. [])(0 := [toy_track])\<rparr>)"
  by (simp add: addTrack_def defaultState_def toy_add_def toy_world_def getUserId_def getPeerIdMid_def
      peerIdMidSeparator_def toy_browser_def stream_addTrack_def toy_track_def Let_def)

theorem setMetadata_refines_witness:
  "contains (setMetadata toy_browser toy_metadata (addTrack toy_browser toy_add (defaultState, toy_world)))
     ''ann'' ''c'' toy_track"
proof -
  have d: "distinct (map md_mid (mp_metadata toy_metadata))" by (simp add: toy_metadata_def)
  have "spec_setMetadata toy_metadata (registry (addTrack toy_browser toy_add (defaultState, toy_world))) ''sfu::0'' =
      Some (toy_track, Some \<lparr>ta_streamId = ''c'', ta_userId = ''ann''\<rparr>)"
    by (simp add: spec_setMetadata_def registry_def toy_state toy_metadata_def getPeerIdMid_def
        peerIdMidSeparator_def md_association_def)
  then show ?thesis using setMetadata_refines [OF toy_state_inv d, of toy_browser] by force
qed

theorem unassociate_refines_witness:
  "\<exists>st' w'. unassociateUserTracks ''sfu'' (addTrack toy_browser toy_add (defaultState, toy_world)) = (Inr st', w') \<and>
     registry (st', w') ''sfu::0'' = Some (toy_track, None)"
proof -
  obtain st w where sw: "addTrack toy_browser toy_add (defaultState, toy_world) = (st, w)" by fastforce
  have "registry (st, w) ''sfu::0'' = Some (toy_track, Some \<lparr>ta_streamId = ''s'', ta_userId = ''sfu''\<rparr>)"
    unfolding sw [symmetric] by (simp add: registry_def toy_state)
  then show ?thesis
    using unassociate_refines [OF toy_state_inv [unfolded sw], of "''sfu''"] unfolding sw
    by (auto simp: spec_unassociate_def)
qed

definition toy_local :: "nat \<Rightarrow> stream_type \<Rightarrow> local_stream" where
  "toy_local n type = \<lparr>sw_stream = n, sw_streamId = ''id'', sw_url = None, ls_type = type, ls_mirror = False\<rparr>"

theorem recording_keeps_last_peer_witness:
  "\<exists>st1 w1. recordLocalStream toy_browser ''url'' ''room'' ''me''
     (defaultState\<lparr>localStreams := [(Camera, toy_local 7 Camera), (Desktop, toy_local 8 Desktop)]\<rparr>, toy_world) = (Inr st1, w1) \<and>
   peers (snd (stopRecordLocalStream toy_browser (st1, w1))) = [7, 108]"
  using recording_keeps_last_peer [of "''room''" "''me''"
      "defaultState\<lparr>localStreams := [(Camera, toy_local 7 Camera), (Desktop, toy_local 8 Desktop)]\<rparr>"
      "[(Camera, toy_local 7 Camera)]" Desktop "toy_local 8 Desktop" toy_browser "''url''" toy_world]
  by (auto simp: toy_world_def toy_browser_def toy_local_def)

end
