(* ===== verification/Peers.thy ===== *)
theory Peers
  imports Streams InsertableStreams
begin

text \<open>
  The reducer of \<open>reducers/peers.ts\<close>: it keeps the peer connection of each user and passes
  changes of the local streams on to all of them. A peer is a number and the calls of its methods
  are a log; whether a call throws and which sender \<open>addTrack\<close> returns are parameters
  (\<open>peer_env\<close>), as the peers are objects of \<open>simple-peer\<close>. Senders go to the encryption codec
  of \<open>InsertableStreams\<close>. The module variable \<open>localStreams\<close>, the enabled flags of the tracks
  and the peers a timer will destroy are part of the world.
\<close>

section \<open>Data\<close>

datatype peer_call =
    AddTrack nat track nat
  | RemoveTrack nat track nat
  | ReplaceTrack nat track track nat
  | Destroy nat
  | Signal nat string
  | Send nat "byte list"

record peer_env =
  call_throws :: "peer_call list \<Rightarrow> peer_call \<Rightarrow> bool"
  sender_of :: "nat \<Rightarrow> track \<Rightarrow> nat"
  encoded_streams :: "nat \<Rightarrow> create_result"

record 'p peer_world =
  pw_streams :: "'p stream_world"
  pw_local :: "(stream_type \<times> nat) list"
  pw_enabled :: "track \<Rightarrow> bool"
  pw_calls :: "peer_call list"
  pw_codec :: codec
  pw_timers :: "nat list"

type_synonym peers_state = "nat obj"

definition tracks_in :: "'p peer_world \<Rightarrow> nat \<Rightarrow> track list" where
  "tracks_in w s = heap (pw_streams w) s"

section \<open>Calls on peers\<close>

definition peer_call :: "peer_env \<Rightarrow> peer_call \<Rightarrow> 'p peer_world \<Rightarrow> js_error option \<times> 'p peer_world" where
  "peer_call env c w =
    (if call_throws env (pw_calls w) c then (Some PeerError, w)
     else (None, w\<lparr>pw_calls := pw_calls w @ [c]\<rparr>))"

definition removeTrackFromPeer ::
  "peer_env \<Rightarrow> nat \<Rightarrow> nat \<Rightarrow> track \<Rightarrow> 'p peer_world \<Rightarrow> js_error option \<times> 'p peer_world"
where
  "removeTrackFromPeer env peer stream track w = (None, snd (peer_call env (RemoveTrack peer track stream) w))"

definition add_and_encrypt ::
  "peer_env \<Rightarrow> nat \<Rightarrow> nat \<Rightarrow> track \<Rightarrow> 'p peer_world \<Rightarrow> js_error option \<times> 'p peer_world"
where
  "add_and_encrypt env peer stream track w =
    (case peer_call env (AddTrack peer track stream) w of
       (Some e, w) \<Rightarrow> (Some e, w)
     | (None, w) \<Rightarrow>
         let sender = sender_of env peer track
         in (None, w\<lparr>pw_codec := fst (codec_encrypt sender (encoded_streams env sender) (pw_codec w))\<rparr>))"

section \<open>Handlers\<close>

definition handleRemoveLocalStream ::
  "peer_env \<Rightarrow> peers_state \<Rightarrow> nat \<Rightarrow> 'p peer_world \<Rightarrow> js_error option \<times> 'p peer_world"
where
  "handleRemoveLocalStream env st stream w =
     for_each (\<lambda>(_, peer) w. for_each (removeTrackFromPeer env peer stream) (tracks_in w stream) w) st w"

definition handleLocalMediaStream ::
  "peer_env \<Rightarrow> peers_state \<Rightarrow> (stream_type \<times> nat) async_action \<Rightarrow> 'p peer_world \<Rightarrow>
     js_error option \<times> 'p peer_world"
where
  "handleLocalMediaStream env st action w = (case action of
      Resolved (streamType, stream) \<Rightarrow>
        (case for_each (\<lambda>(_, peer) w.
             let (_, w) = (case map_of (pw_local w) streamType of
                   None \<Rightarrow> (None, w)
                 | Some localStream \<Rightarrow>
                     for_each (removeTrackFromPeer env peer localStream) (tracks_in w localStream) w)
             in for_each (add_and_encrypt env peer stream) (tracks_in w stream) w) st w of
           (Some e, w) \<Rightarrow> (Some e, w)
         | (None, w) \<Rightarrow> (None, w\<lparr>pw_local := AList.update streamType stream (pw_local w)\<rparr>))
    | _ \<Rightarrow> (None, w))"

fun kind_string :: "media_kind \<Rightarrow> string" where
  "kind_string AudioKind = ''audio''"
| "kind_string VideoKind = ''video''"

definition getTracksByKind :: "'p peer_world \<Rightarrow> nat \<Rightarrow> media_kind \<Rightarrow> track list" where
  "getTracksByKind w stream kind = filter (\<lambda>t. tr_kind t = kind_string kind) (tracks_in w stream)"

definition with_streams :: "('p stream_world \<Rightarrow> 'p stream_world) \<Rightarrow> 'p peer_world \<Rightarrow> 'p peer_world" where
  "with_streams f w = w\<lparr>pw_streams := f (pw_streams w)\<rparr>"

definition handleLocalMediaTrack ::
  "peer_env \<Rightarrow> peers_state \<Rightarrow> media_track_payload async_action \<Rightarrow> 'p peer_world \<Rightarrow>
     js_error option \<times> 'p peer_world"
where
  "handleLocalMediaTrack env st action w = (case action of
      Resolved payload \<Rightarrow>
        (case map_of (pw_local w) (mt_type payload) of
           None \<Rightarrow> (None, w)
         | Some localStream \<Rightarrow>
             (case (getTracksByKind w localStream (mt_kind payload), mt_track payload) of
                (oldTrack # _, Some newTrack) \<Rightarrow>
                  (case for_each (\<lambda>(_, peer). peer_call env (ReplaceTrack peer oldTrack newTrack localStream)) st w of
                     (Some e, w) \<Rightarrow> (Some e, w)
                   | (None, w) \<Rightarrow>
                       (None, with_streams (\<lambda>s. let s = stream_addTrack localStream newTrack (stream_removeTrack localStream oldTrack s)
                                             in s\<lparr>stopped := stopped s @ [oldTrack]\<rparr>) w))
              | (oldTrack # _, None) \<Rightarrow> (None, w\<lparr>pw_enabled := (pw_enabled w)(oldTrack := False)\<rparr>)
              | ([], Some newTrack) \<Rightarrow>
                  (case for_each (\<lambda>(_, peer). add_and_encrypt env peer localStream newTrack) st w of
                     (Some e, w) \<Rightarrow> (Some e, w)
                   | (None, w) \<Rightarrow> (None, with_streams (stream_addTrack localStream newTrack) w))
              | ([], None) \<Rightarrow> (None, w)))
    | _ \<Rightarrow> (None, w))"

definition handleLocalMediaTrackEnable :: "media_kind \<Rightarrow> stream_type \<Rightarrow> 'p peer_world \<Rightarrow> 'p peer_world" where
  "handleLocalMediaTrackEnable kind type w = (case map_of (pw_local w) type of
      None \<Rightarrow> w
    | Some localStream \<Rightarrow>
        fold (\<lambda>t w. w\<lparr>pw_enabled := (pw_enabled w)(t := True)\<rparr>) (getTracksByKind w localStream kind) w)"

section \<open>The reducer\<close>

datatype peers_action =
    PEER_ADD string nat
  | PEER_REMOVE string
  | HANG_UP
  | STREAM_REMOVE nat
  | MEDIA_STREAM "(stream_type \<times> nat) async_action"
  | MEDIA_TRACK "media_track_payload async_action"
  | MEDIA_TRACK_ENABLE media_kind stream_type

fun peers ::
  "peer_env \<Rightarrow> peers_action \<Rightarrow> peers_state \<times> 'p peer_world \<Rightarrow> js_error option \<times> peers_state \<times> 'p peer_world"
where
  "peers env (PEER_ADD userId peer) (st, w) = (None, oset userId peer st, w)"
| "peers env (PEER_REMOVE userId) (st, w) = (None, omit st [userId], w)"
| "peers env HANG_UP (st, w) = (None, [], w\<lparr>pw_local := [], pw_timers := pw_timers w @ map snd st\<rparr>)"
| "peers env (STREAM_REMOVE stream) (st, w) =
    (let (e, w) = handleRemoveLocalStream env st stream w in (e, st, w))"
| "peers env (MEDIA_STREAM action) (st, w) = (let (e, w) = handleLocalMediaStream env st action w in (e, st, w))"
| "peers env (MEDIA_TRACK action) (st, w) = (let (e, w) = handleLocalMediaTrack env st action w in (e, st, w))"
| "peers env (MEDIA_TRACK_ENABLE kind type) (st, w) = (None, st, handleLocalMediaTrackEnable kind type w)"

text \<open>The timer of \<open>HANG_UP\<close>.\<close>

definition destroy_timer :: "peer_env \<Rightarrow> 'p peer_world \<Rightarrow> js_error option \<times> 'p peer_world" where
  "destroy_timer env w = for_each (\<lambda>peer. peer_call env (Destroy peer)) (pw_timers w) (w\<lparr>pw_timers := []\<rparr>)"

section \<open>A new connection\<close>

text \<open>\<open>PeerHandler.handleConnect\<close>: the streams that were opened before the peer connected.\<close>

definition handleConnect ::
  "peer_env \<Rightarrow> nat \<Rightarrow> (stream_type \<times> local_stream) list \<Rightarrow> 'p peer_world \<Rightarrow> js_error option \<times> 'p peer_world"
where
  "handleConnect env peer ls w =
     for_each (\<lambda>(_, s) w. for_each (add_and_encrypt env peer (sw_stream s)) (tracks_in w (sw_stream s)) w) ls w"

section \<open>What a peer is sent\<close>

text \<open>The tracks a peer sends after a log of calls.\<close>

fun effect :: "nat \<Rightarrow> track set \<Rightarrow> peer_call \<Rightarrow> track set" where
  "effect p X (AddTrack q t s) = (if q = p then insert t X else X)"
| "effect p X (RemoveTrack q t s) = (if q = p then X - {t} else X)"
| "effect p X (ReplaceTrack q old new s) = (if q = p \<and> old \<in> X then insert new (X - {old}) else X)"
| "effect p X (Destroy q) = X"
| "effect p X (Signal q s) = X"
| "effect p X (Send q c) = X"

definition sent :: "nat \<Rightarrow> peer_call list \<Rightarrow> track set" where
  "sent p calls = foldl (effect p) {} calls"

lemma sent_append: "sent p (calls @ cs) = foldl (effect p) (sent p calls) cs"
  by (simp add: sent_def)

lemma effects:
  "foldl (effect p) X (map (\<lambda>t. RemoveTrack q t s) ts) = (if q = p then X - set ts else X)"
  "foldl (effect p) X (map (\<lambda>t. AddTrack q t s) ts) = (if q = p then X \<union> set ts else X)"
  by (induction ts arbitrary: X) auto

lemma effects_other:
  "(\<And>q X. q \<in> set ps \<Longrightarrow> q \<noteq> p \<Longrightarrow> foldl (effect p) X (cs q) = X) \<Longrightarrow> p \<notin> set ps \<Longrightarrow>
   foldl (effect p) X (concat (map cs ps)) = X"
  by (induction ps arbitrary: X) auto

lemma effects_concat:
  assumes "\<And>q X. q \<noteq> p \<Longrightarrow> foldl (effect p) X (cs q) = X" and "distinct ps"
  shows "foldl (effect p) X (concat (map cs ps)) = (if p \<in> set ps then foldl (effect p) X (cs p) else X)"
  using assms(2)
proof (induction ps arbitrary: X)
  case (Cons q ps)
  then show ?case using assms(1) effects_other [of ps p cs] by (cases "q = p") auto
qed simp

section \<open>Loops that only call\<close>

text \<open>\<open>calls_only\<close>: a step added the calls \<open>cs\<close> to the log and changed nothing else but the codec.\<close>

definition calls_only :: "peer_call list \<Rightarrow> 'p peer_world \<Rightarrow> 'p peer_world \<Rightarrow> bool" where
  "calls_only cs w w' \<longleftrightarrow> pw_calls w' = pw_calls w @ cs \<and> pw_streams w' = pw_streams w \<and>
     pw_local w' = pw_local w \<and> pw_enabled w' = pw_enabled w \<and> pw_timers w' = pw_timers w"

lemma calls_only_tracks: "calls_only cs w w' \<Longrightarrow> tracks_in w' s = tracks_in w s"
  by (simp add: calls_only_def tracks_in_def)

lemma calls_only_local: "calls_only cs w w' \<Longrightarrow> pw_local w' = pw_local w"
  by (simp add: calls_only_def)

lemma calls_only_trans: "calls_only cs w w' \<Longrightarrow> calls_only ds w' w'' \<Longrightarrow> calls_only (cs @ ds) w w''"
  by (simp add: calls_only_def)

lemma for_each_calls:
  assumes "\<And>x w' ds. x \<in> set xs \<Longrightarrow> calls_only ds w w' \<Longrightarrow> \<exists>w''. f x w' = (None, w'') \<and> calls_only (cs x) w' w''"
  shows "\<exists>w'. for_each f xs w = (None, w') \<and> calls_only (concat (map cs xs)) w w'"
proof -
  have "\<exists>w''. for_each f xs w' = (None, w'') \<and> calls_only (concat (map cs xs)) w' w''"
    if "calls_only ds w w'" for ds w'
    using assms that
  proof (induction xs arbitrary: w' ds)
    case Nil
    show ?case by (simp add: calls_only_def)
  next
    case (Cons x xs)
    obtain w1 where w1: "f x w' = (None, w1)" "calls_only (cs x) w' w1" using Cons.prems by force
    obtain w2 where "for_each f xs w1 = (None, w2)" "calls_only (concat (map cs xs)) w1 w2"
      using Cons.IH [OF _ calls_only_trans [OF Cons.prems(2) w1(2)]] Cons.prems(1) by force
    then show ?case using w1 calls_only_trans [OF w1(2)] by auto
  qed
  from this [of "[]" w] show ?thesis by (simp add: calls_only_def)
qed

definition reliable :: "peer_env \<Rightarrow> bool" where
  "reliable env \<longleftrightarrow> (\<forall>log c. \<not> call_throws env log c)"

lemma call_calls:
  "reliable env \<Longrightarrow> \<exists>w'. peer_call env c w = (None, w') \<and> calls_only [c] w w'"
  by (simp add: reliable_def peer_call_def calls_only_def)

lemma remove_calls:
  assumes "reliable env"
  shows "\<exists>w'. for_each (removeTrackFromPeer env p s) ts w = (None, w') \<and>
    calls_only (map (\<lambda>t. RemoveTrack p t s) ts) w w'"
  using for_each_calls [of ts w "removeTrackFromPeer env p s" "\<lambda>t. [RemoveTrack p t s]"] assms
  by (simp add: removeTrackFromPeer_def peer_call_def reliable_def calls_only_def)

lemma add_calls1:
  "reliable env \<Longrightarrow> \<exists>w'. add_and_encrypt env p s t w = (None, w') \<and> calls_only [AddTrack p t s] w w'"
  by (simp add: add_and_encrypt_def peer_call_def reliable_def calls_only_def Let_def)

lemma add_calls:
  assumes "reliable env"
  shows "\<exists>w'. for_each (add_and_encrypt env p s) ts w = (None, w') \<and>
    calls_only (map (\<lambda>t. AddTrack p t s) ts) w w'"
  using for_each_calls [of ts w "add_and_encrypt env p s" "\<lambda>t. [AddTrack p t s]", OF add_calls1 [OF assms]]
  by simp

section \<open>The handlers as sequences of calls\<close>

definition old_tracks :: "'p peer_world \<Rightarrow> stream_type \<Rightarrow> track set" where
  "old_tracks w type = (case map_of (pw_local w) type of None \<Rightarrow> {} | Some s \<Rightarrow> set (tracks_in w s))"

text \<open>Each handler turns the set \<open>X\<close> of tracks a peer is sent into \<open>g X\<close>, for all peers of the
  state, and leaves the streams alone.\<close>

definition resends ::
  "peers_state \<Rightarrow> (track set \<Rightarrow> track set) \<Rightarrow> 'p peer_world \<Rightarrow> 'p peer_world \<Rightarrow> bool"
where
  "resends st g w w' \<longleftrightarrow> (\<forall>p. sent p (pw_calls w') = (if p \<in> set (map snd st) then g (sent p (pw_calls w)) else sent p (pw_calls w))) \<and>
     pw_streams w' = pw_streams w"

lemma for_each_resends:
  assumes "distinct (map snd st)"
    and body: "\<And>u p w' ds. (u, p) \<in> set st \<Longrightarrow> calls_only ds w w' \<Longrightarrow>
      \<exists>w''. f (u, p) w' = (None, w'') \<and> calls_only (cs p) w' w''"
    and own: "\<And>p q X. q \<noteq> p \<Longrightarrow> foldl (effect p) X (cs q) = X"
    and g: "\<And>p X. foldl (effect p) X (cs p) = g X"
  shows "\<exists>w'. for_each f st w = (None, w') \<and> resends st g w w' \<and> pw_local w' = pw_local w"
proof -
  obtain w' where w': "for_each f st w = (None, w')" "calls_only (concat (map (\<lambda>e. cs (snd e)) st)) w w'"
    using for_each_calls [of st w f "\<lambda>e. cs (snd e)"] body by force
  have eq: "concat (map (\<lambda>e. cs (snd e)) st) = concat (map cs (map snd st))" by (simp add: comp_def)
  have "resends st g w w'"
    using w'(2) effects_concat [of _ cs "map snd st"] own assms(1) g
    unfolding resends_def calls_only_def eq by (simp add: sent_append)
  then show ?thesis using w' by (auto simp: calls_only_def)
qed

lemma handleRemoveLocalStream_resends:
  assumes "reliable env" and "distinct (map snd st)"
  shows "\<exists>w'. handleRemoveLocalStream env st s w = (None, w') \<and>
    resends st (\<lambda>X. X - set (tracks_in w s)) w w' \<and> pw_local w' = pw_local w"
  unfolding handleRemoveLocalStream_def
proof (rule for_each_resends [OF assms(2), where cs = "\<lambda>p. map (\<lambda>t. RemoveTrack p t s) (tracks_in w s)"])
  fix u p w' ds assume "calls_only ds w w'"
  then show "\<exists>w''. (case (u, p) of (_, peer) \<Rightarrow> \<lambda>w. for_each (removeTrackFromPeer env peer s) (tracks_in w s) w) w' =
      (None, w'') \<and> calls_only (map (\<lambda>t. RemoveTrack p t s) (tracks_in w s)) w' w''"
    using remove_calls [OF assms(1)] by (simp add: calls_only_tracks)
qed (simp_all add: effects)

lemma handleLocalMediaStream_resends:
  assumes env: "reliable env" and d: "distinct (map snd st)"
  shows "\<exists>w'. handleLocalMediaStream env st (Resolved (type, s)) w = (None, w') \<and>
    resends st (\<lambda>X. (X - old_tracks w type) \<union> set (tracks_in w s)) w w' \<and>
    pw_local w' = AList.update type s (pw_local w)"
proof -
  define removes where "removes p = (case map_of (pw_local w) type of
      None \<Rightarrow> [] | Some l \<Rightarrow> map (\<lambda>t. RemoveTrack p t l) (tracks_in w l))" for p
  let ?adds = "\<lambda>p. map (\<lambda>t. AddTrack p t s) (tracks_in w s)"
  let ?body = "\<lambda>(_, peer) w. let (_, w) = (case map_of (pw_local w) type of None \<Rightarrow> (None, w)
      | Some l \<Rightarrow> for_each (removeTrackFromPeer env peer l) (tracks_in w l) w)
      in for_each (add_and_encrypt env peer s) (tracks_in w s) w"
  have "\<exists>w'. for_each ?body st w = (None, w') \<and>
      resends st (\<lambda>X. (X - old_tracks w type) \<union> set (tracks_in w s)) w w' \<and> pw_local w' = pw_local w"
  proof (rule for_each_resends [OF d, where cs = "\<lambda>p. removes p @ ?adds p"])
    fix u p w' ds assume w': "calls_only ds w w'"
    have one: "\<exists>w1. (case map_of (pw_local w') type of None \<Rightarrow> (None, w')
        | Some l \<Rightarrow> for_each (removeTrackFromPeer env p l) (tracks_in w' l) w') = (None, w1) \<and> calls_only (removes p) w' w1"
      using remove_calls [OF env, of p _ _ w'] calls_only_local [OF w'] calls_only_tracks [OF w']
      by (cases "map_of (pw_local w) type") (simp_all add: removes_def calls_only_def [of "[]"])
    then obtain w1 where w1: "(case map_of (pw_local w') type of None \<Rightarrow> (None, w')
        | Some l \<Rightarrow> for_each (removeTrackFromPeer env p l) (tracks_in w' l) w') = (None, w1)" "calls_only (removes p) w' w1"
      by blast
    obtain w2 where "for_each (add_and_encrypt env p s) (tracks_in w s) w1 = (None, w2)" "calls_only (?adds p) w1 w2"
      using add_calls [OF env] by blast
    then show "\<exists>w''. ?body (u, p) w' = (None, w'') \<and> calls_only (removes p @ ?adds p) w' w''"
      using w1 calls_only_trans [OF w1(2)] calls_only_tracks [OF w1(2)] calls_only_tracks [OF w'] by simp
  qed (auto simp: effects removes_def old_tracks_def split: option.split)
  then show ?thesis by (auto simp: handleLocalMediaStream_def resends_def)
qed

section \<open>Peers and local streams in step\<close>

text \<open>The peers, the streams that are shared (the \<open>localStreams\<close> of the streams reducer) and the
  peers whose connection was established, under the actions on local streams and the connection
  events. The streams reducer replaces the stream of a type and deletes it.\<close>

record 'p session =
  se_peers :: peers_state
  se_world :: "'p peer_world"
  se_shared :: "(stream_type \<times> local_stream) list"
  se_connected :: "nat set"

datatype session_event =
    Joined string nat
  | Left string
  | HungUp
  | Connected nat
  | Opened stream_type nat
  | Closed stream_type
  | Track media_track_payload
  | Enabled media_kind stream_type

definition as_local :: "stream_type \<Rightarrow> nat \<Rightarrow> local_stream" where
  "as_local type s = \<lparr>sw_stream = s, sw_streamId = '''', sw_url = None, ls_type = type, ls_mirror = False\<rparr>"

definition reduced :: "peer_env \<Rightarrow> peers_action \<Rightarrow> 'p session \<Rightarrow> 'p session" where
  "reduced env action se = (case peers env action (se_peers se, se_world se) of
      (e, st, w) \<Rightarrow> se\<lparr>se_peers := st, se_world := w\<rparr>)"

fun session_step :: "peer_env \<Rightarrow> 'p session \<Rightarrow> session_event \<Rightarrow> 'p session" where
  "session_step env se (Joined userId peer) = reduced env (PEER_ADD userId peer) se"
| "session_step env se (Left userId) = reduced env (PEER_REMOVE userId) se"
| "session_step env se HungUp = (reduced env HANG_UP se)\<lparr>se_shared := []\<rparr>"
| "session_step env se (Connected peer) =
    se\<lparr>se_world := snd (handleConnect env peer (se_shared se) (se_world se)),
       se_connected := insert peer (se_connected se)\<rparr>"
| "session_step env se (Opened type s) =
    (reduced env (MEDIA_STREAM (Resolved (type, s))) se)\<lparr>se_shared := AList.update type (as_local type s) (se_shared se)\<rparr>"
| "session_step env se (Closed type) = (case map_of (se_shared se) type of
      None \<Rightarrow> se
    | Some l \<Rightarrow> (reduced env (STREAM_REMOVE (sw_stream l)) se)\<lparr>se_shared := AList.delete type (se_shared se)\<rparr>)"
| "session_step env se (Track payload) = reduced env (MEDIA_TRACK (Resolved payload)) se"
| "session_step env se (Enabled kind type) = reduced env (MEDIA_TRACK_ENABLE kind type) se"

declare session_step.simps [simp del]

text \<open>What is shared, as a function of the type.\<close>

definition shared :: "'p session \<Rightarrow> stream_type \<Rightarrow> track set" where
  "shared se type = (case map_of (se_shared se) type of
      None \<Rightarrow> {}
    | Some l \<Rightarrow> set (tracks_in (se_world se) (sw_stream l)))"

definition all_shared :: "'p session \<Rightarrow> track set" where
  "all_shared se = (\<Union>type. shared se type)"

fun other :: "stream_type \<Rightarrow> stream_type" where
  "other Camera = Desktop"
| "other Desktop = Camera"

lemma other_simps [simp]: "other type \<noteq> type" "type \<noteq> other type"
  by (cases type; simp)+

lemma all_shared_other: "all_shared se = shared se type \<union> shared se (other type)"
proof -
  have "UNIV = {type, other type}" by (auto, cases type) (metis (full_types) other.simps stream_type.exhaust)+
  then show ?thesis unfolding all_shared_def by auto
qed

definition opened :: "'p session \<Rightarrow> stream_type \<Rightarrow> nat option" where
  "opened se type = map_of (pw_local (se_world se)) type"

definition session_inv :: "'p session \<Rightarrow> bool" where
  "session_inv se \<longleftrightarrow> distinct (map snd (se_peers se)) \<and> distinct (map fst (se_shared se)) \<and>
     (\<forall>type l. map_of (se_shared se) type = Some l \<longrightarrow> opened se type = Some (sw_stream l)) \<and>
     (\<forall>type type' s s'. type \<noteq> type' \<and> opened se type = Some s \<and> opened se type' = Some s' \<longrightarrow>
        s \<noteq> s' \<and> set (tracks_in (se_world se) s) \<inter> set (tracks_in (se_world se) s') = {}) \<and>
     (\<forall>p \<in> set (map snd (se_peers se)). sent p (pw_calls (se_world se)) \<subseteq> all_shared se \<and>
        (p \<in> se_connected se \<longrightarrow> sent p (pw_calls (se_world se)) = all_shared se))"

text \<open>A new peer has not been sent anything, a new stream and a new track share no track with the
  stream of the other type, and a track is replaced in a stream that is shared.\<close>

fun session_ok :: "'p session \<Rightarrow> session_event \<Rightarrow> bool" where
  "session_ok se (Joined userId peer) \<longleftrightarrow>
     peer \<notin> set (map snd (se_peers se)) \<and> peer \<notin> se_connected se \<and> sent peer (pw_calls (se_world se)) = {}"
| "session_ok se (Opened type s) \<longleftrightarrow> (\<forall>type' s'. type' \<noteq> type \<and> opened se type' = Some s' \<longrightarrow>
     s' \<noteq> s \<and> set (tracks_in (se_world se) s) \<inter> set (tracks_in (se_world se) s') = {})"
| "session_ok se (Track payload) \<longleftrightarrow>
     (\<forall>s. opened se (mt_type payload) = Some s \<longrightarrow> (\<exists>l. map_of (se_shared se) (mt_type payload) = Some l)) \<and>
     (\<forall>t type s. mt_track payload = Some t \<and> type \<noteq> mt_type payload \<and> opened se type = Some s \<longrightarrow>
        t \<notin> set (tracks_in (se_world se) s))"
| "session_ok se _ \<longleftrightarrow> True"

lemma session_invD:
  assumes "session_inv se"
  shows "distinct (map snd (se_peers se))"
    and "map_of (se_shared se) type = Some l \<Longrightarrow> opened se type = Some (sw_stream l)"
    and "type \<noteq> type' \<Longrightarrow> opened se type = Some s \<Longrightarrow> opened se type' = Some s' \<Longrightarrow>
      s \<noteq> s' \<and> set (tracks_in (se_world se) s) \<inter> set (tracks_in (se_world se) s') = {}"
    and "p \<in> set (map snd (se_peers se)) \<Longrightarrow> sent p (pw_calls (se_world se)) \<subseteq> all_shared se"
    and "p \<in> set (map snd (se_peers se)) \<Longrightarrow> p \<in> se_connected se \<Longrightarrow> sent p (pw_calls (se_world se)) = all_shared se"
    and "distinct (map fst (se_shared se))"
  using assms unfolding session_inv_def by blast+

lemma all_shared_list:
  assumes "distinct (map fst (se_shared se))"
  shows "all_shared se = (\<Union>e \<in> set (se_shared se). set (tracks_in (se_world se) (sw_stream (snd e))))"
proof -
  have "x \<in> all_shared se \<longleftrightarrow>
      (\<exists>type l. map_of (se_shared se) type = Some l \<and> x \<in> set (tracks_in (se_world se) (sw_stream l)))" for x
    unfolding all_shared_def shared_def by (auto split: option.splits)
  moreover have "map_of (se_shared se) type = Some l \<longleftrightarrow> (type, l) \<in> set (se_shared se)" for type l
    using assms by simp
  ultimately show ?thesis by force
qed

lemma session_invI:
  assumes "distinct (map snd (se_peers se))" and "distinct (map fst (se_shared se))"
    and "\<And>type l. map_of (se_shared se) type = Some l \<Longrightarrow> opened se type = Some (sw_stream l)"
    and "\<And>type type' s s'. type \<noteq> type' \<Longrightarrow> opened se type = Some s \<Longrightarrow> opened se type' = Some s' \<Longrightarrow>
      s \<noteq> s' \<and> set (tracks_in (se_world se) s) \<inter> set (tracks_in (se_world se) s') = {}"
    and "\<And>p. p \<in> set (map snd (se_peers se)) \<Longrightarrow> sent p (pw_calls (se_world se)) \<subseteq> all_shared se \<and>
        (p \<in> se_connected se \<longrightarrow> sent p (pw_calls (se_world se)) = all_shared se)"
  shows "session_inv se"
  unfolding session_inv_def using assms by blast

lemma resends_sent:
  "resends st g w w' \<Longrightarrow> p \<in> set (map snd st) \<Longrightarrow> sent p (pw_calls w') = g (sent p (pw_calls w))"
  by (simp add: resends_def)

lemma resend_inv:
  assumes inv: "session_inv se"
    and same: "se_peers se' = se_peers se" "se_connected se' = se_connected se"
    and sent': "\<And>p. p \<in> set (map snd (se_peers se)) \<Longrightarrow>
      sent p (pw_calls (se_world se')) = g (sent p (pw_calls (se_world se)))"
    and keys: "distinct (map fst (se_shared se'))"
    and two: "\<And>type l. map_of (se_shared se') type = Some l \<Longrightarrow> opened se' type = Some (sw_stream l)"
    and three: "\<And>type type' s s'. type \<noteq> type' \<Longrightarrow> opened se' type = Some s \<Longrightarrow> opened se' type' = Some s' \<Longrightarrow>
      s \<noteq> s' \<and> set (tracks_in (se_world se') s) \<inter> set (tracks_in (se_world se') s') = {}"
    and g: "\<And>X. X \<subseteq> all_shared se \<Longrightarrow> g X \<subseteq> all_shared se'" "g (all_shared se) = all_shared se'"
  shows "session_inv se'"
proof -
  have "sent p (pw_calls (se_world se')) \<subseteq> all_shared se' \<and>
      (p \<in> se_connected se' \<longrightarrow> sent p (pw_calls (se_world se')) = all_shared se')"
    if "p \<in> set (map snd (se_peers se'))" for p
    using that sent' [of p] session_invD(4,5) [OF inv, of p] g unfolding same by auto
  then show ?thesis
    using session_invD(1) [OF inv] keys two three by (intro session_invI) (simp_all add: same)
qed

lemma shared_old: "session_inv se \<Longrightarrow> shared se type \<subseteq> old_tracks (se_world se) type"
  using session_invD(2) [of se type]
  by (auto simp: shared_def old_tracks_def opened_def split: option.splits)

lemma shared_apart:
  assumes "session_inv se" and "type' \<noteq> type"
  shows "shared se type' \<inter> old_tracks (se_world se) type = {}"
proof -
  have "old_tracks (se_world se) type' \<inter> old_tracks (se_world se) type = {}"
    using session_invD(3) [OF assms] by (auto simp: old_tracks_def opened_def split: option.splits)
  then show ?thesis using shared_old [OF assms(1), of type'] by blast
qed

lemma opened_step:
  assumes env: "reliable env" and inv: "session_inv se" and ok: "session_ok se (Opened type s)"
  shows "session_inv (session_step env se (Opened type s))"
proof -
  let ?se = "session_step env se (Opened type s)"
  let ?g = "\<lambda>X. (X - old_tracks (se_world se) type) \<union> set (tracks_in (se_world se) s)"
  obtain w' where w': "handleLocalMediaStream env (se_peers se) (Resolved (type, s)) (se_world se) = (None, w')"
    "resends (se_peers se) ?g (se_world se) w'" "pw_local w' = AList.update type s (pw_local (se_world se))"
    using handleLocalMediaStream_resends [OF env session_invD(1) [OF inv]] by blast
  have se: "se_peers ?se = se_peers se" "se_world ?se = w'" "se_connected ?se = se_connected se"
    "se_shared ?se = AList.update type (as_local type s) (se_shared se)"
    using w'(1) by (simp_all add: session_step.simps reduced_def)
  have tracks: "tracks_in w' x = tracks_in (se_world se) x" for x
    using w'(2) by (simp add: resends_def tracks_in_def)
  have op: "opened ?se t = (if t = type then Some s else opened se t)" for t
    by (simp add: opened_def se(2) w'(3) update_conv)
  have sh: "shared ?se t = (if t = type then set (tracks_in (se_world se) s) else shared se t)" for t
    unfolding shared_def se tracks by (simp add: update_conv as_local_def)
  have all: "all_shared ?se = set (tracks_in (se_world se) s) \<union> shared se (other type)"
    by (simp add: all_shared_other [of _ type] sh)
  show ?thesis
  proof (rule resend_inv [OF inv se(1,3) resends_sent [OF w'(2) [folded se(2)]]])
    show "?g X \<subseteq> all_shared ?se" if "X \<subseteq> all_shared se" for X
      using that shared_old [OF inv, of type] unfolding all all_shared_other [of se type] by blast
    show "?g (all_shared se) = all_shared ?se"
      using shared_old [OF inv, of type] shared_apart [OF inv, of "other type" type]
      unfolding all all_shared_other [of se type] by auto
    show "distinct (map fst (se_shared ?se))" unfolding se(4) using session_invD(6) [OF inv] by (simp add: distinct_update)
    show "opened ?se t = Some (sw_stream l)" if "map_of (se_shared ?se) t = Some l" for t l
      using that session_invD(2) [OF inv, of t l] by (auto simp: op se(4) update_conv as_local_def split: if_splits)
    show "a \<noteq> b \<and> set (tracks_in (se_world ?se) a) \<inter> set (tracks_in (se_world ?se) b) = {}"
      if "t \<noteq> t'" "opened ?se t = Some a" "opened ?se t' = Some b" for t t' a b
    proof -
      note apart = ok [simplified, rule_format]
      show ?thesis
      proof (cases "t = type \<or> t' = type")
        case True
        with that apart [of t' b] apart [of t a] show ?thesis unfolding op se(2) tracks by (auto split: if_splits)
      next
        case False
        with that session_invD(3) [OF inv, of t t' a b] show ?thesis unfolding op se(2) tracks by simp
      qed
    qed
  qed
qed

lemma closed_step:
  assumes env: "reliable env" and inv: "session_inv se"
  shows "session_inv (session_step env se (Closed type))"
proof (cases "map_of (se_shared se) type")
  case None
  then show ?thesis using inv by (simp add: session_step.simps)
next
  case (Some l)
  let ?se = "session_step env se (Closed type)" and ?s = "sw_stream l"
  let ?g = "\<lambda>X. X - set (tracks_in (se_world se) ?s)"
  obtain w' where w': "handleRemoveLocalStream env (se_peers se) ?s (se_world se) = (None, w')"
    "resends (se_peers se) ?g (se_world se) w'" "pw_local w' = pw_local (se_world se)"
    using handleRemoveLocalStream_resends [OF env session_invD(1) [OF inv]] by blast
  have se: "se_peers ?se = se_peers se" "se_world ?se = w'" "se_connected ?se = se_connected se"
    "se_shared ?se = AList.delete type (se_shared se)"
    using w'(1) Some by (simp_all add: session_step.simps reduced_def)
  have tracks: "tracks_in w' x = tracks_in (se_world se) x" for x
    using w'(2) by (simp add: resends_def tracks_in_def)
  have op: "opened ?se = opened se" by (simp add: opened_def se(2) w'(3) fun_eq_iff)
  have sh: "shared ?se t = (if t = type then {} else shared se t)" for t
    unfolding shared_def se tracks by (simp add: delete_conv)
  have old: "old_tracks (se_world se) type = set (tracks_in (se_world se) ?s)"
    using session_invD(2) [OF inv Some] by (simp add: old_tracks_def opened_def)
  have all: "all_shared ?se = shared se (other type)"
    by (simp add: all_shared_other [of _ type] sh)
  show ?thesis
  proof (rule resend_inv [OF inv se(1,3) resends_sent [OF w'(2) [folded se(2)]]])
    show "?g X \<subseteq> all_shared ?se" if "X \<subseteq> all_shared se" for X
      using that shared_old [OF inv, of type] unfolding all old all_shared_other [of se type] by blast
    show "?g (all_shared se) = all_shared ?se"
      using shared_old [OF inv, of type] shared_apart [OF inv, of "other type" type]
      unfolding all old all_shared_other [of se type] by auto
    show "distinct (map fst (se_shared ?se))" unfolding se(4) using session_invD(6) [OF inv] by (simp add: distinct_delete)
    show "opened ?se t = Some (sw_stream l')" if "map_of (se_shared ?se) t = Some l'" for t l'
      using that session_invD(2) [OF inv, of t l'] by (auto simp: op se(4) delete_conv split: if_splits)
    show "a \<noteq> b \<and> set (tracks_in (se_world ?se) a) \<inter> set (tracks_in (se_world ?se) b) = {}"
      if "t \<noteq> t'" "opened ?se t = Some a" "opened ?se t' = Some b" for t t' a b
      using that session_invD(3) [OF inv, of t t' a b] unfolding op se(2) tracks by blast
  qed
qed

lemma connected_step:
  assumes env: "reliable env" and inv: "session_inv se"
  shows "session_inv (session_step env se (Connected p))"
proof -
  let ?se = "session_step env se (Connected p)" and ?w = "se_world se"
  let ?cs = "\<lambda>e. map (\<lambda>t. AddTrack p t (sw_stream (snd e))) (tracks_in ?w (sw_stream (snd e)))"
  have "\<exists>w'. handleConnect env p (se_shared se) ?w = (None, w') \<and> calls_only (concat (map ?cs (se_shared se))) ?w w'"
    unfolding handleConnect_def
  proof (rule for_each_calls)
    fix e w' ds assume "calls_only ds ?w w'"
    then show "\<exists>w''. (case e of (_, s) \<Rightarrow> \<lambda>w. for_each (add_and_encrypt env p (sw_stream s)) (tracks_in w (sw_stream s)) w) w' =
        (None, w'') \<and> calls_only (?cs e) w' w''"
      using add_calls [OF env, of p _ _ w'] by (cases e) (simp add: calls_only_tracks)
  qed
  then obtain w' where w': "handleConnect env p (se_shared se) ?w = (None, w')"
    "calls_only (concat (map ?cs (se_shared se))) ?w w'" by blast
  have se: "se_peers ?se = se_peers se" "se_world ?se = w'" "se_connected ?se = insert p (se_connected se)"
    "se_shared ?se = se_shared se"
    using w'(1) by (simp_all add: session_step.simps)
  note tracks = calls_only_tracks [OF w'(2)]
  have op: "opened ?se = opened se" using w'(2) by (simp add: opened_def se(2) calls_only_def fun_eq_iff)
  have all: "all_shared ?se = all_shared se" unfolding all_shared_def shared_def se tracks ..
  have eff: "foldl (effect q) X (concat (map ?cs es)) =
      (if q = p then X \<union> (\<Union>e \<in> set es. set (tracks_in ?w (sw_stream (snd e)))) else X)" for q X es
    by (induction es arbitrary: X) (auto simp: effects)
  have all_eq: "sent p (pw_calls ?w) \<union> (\<Union>e \<in> set (se_shared se). set (tracks_in ?w (sw_stream (snd e)))) = all_shared se"
    if "sent p (pw_calls ?w) \<subseteq> all_shared se"
    using that unfolding all_shared_list [OF session_invD(6) [OF inv]] by blast
  have "sent q (pw_calls w') \<subseteq> all_shared se \<and> (q \<in> insert p (se_connected se) \<longrightarrow> sent q (pw_calls w') = all_shared se)"
    if q: "q \<in> set (map snd (se_peers se))" for q
  proof -
    have "sent q (pw_calls w') = (if q = p then sent q (pw_calls ?w) \<union>
        (\<Union>e \<in> set (se_shared se). set (tracks_in ?w (sw_stream (snd e)))) else sent q (pw_calls ?w))"
      using w'(2) eff [of q] by (simp only: calls_only_def sent_append)
    then show ?thesis using session_invD(4,5) [OF inv q] all_eq by (cases "q = p") simp_all
  qed
  then show ?thesis
    using session_invD(1,6) [OF inv] session_invD(2) [OF inv] session_invD(3) [OF inv]
    by (intro session_invI) (simp_all only: op all se tracks, simp_all)
qed

lemma replace_resends:
  assumes "reliable env" and "distinct (map snd st)"
  shows "\<exists>w'. for_each (\<lambda>(_, peer). peer_call env (ReplaceTrack peer old new s)) st w = (None, w') \<and>
    resends st (\<lambda>X. if old \<in> X then insert new (X - {old}) else X) w w' \<and> pw_local w' = pw_local w"
  by (rule for_each_resends [OF assms(2), where cs = "\<lambda>p. [ReplaceTrack p old new s]"])
    (use call_calls [OF assms(1)] in auto)

lemma add_resends:
  assumes "reliable env" and "distinct (map snd st)"
  shows "\<exists>w'. for_each (\<lambda>(_, peer). add_and_encrypt env peer s new) st w = (None, w') \<and>
    resends st (insert new) w w' \<and> pw_local w' = pw_local w"
  by (rule for_each_resends [OF assms(2), where cs = "\<lambda>p. [AddTrack p new s]"])
    (use add_calls1 [OF assms(1)] in auto)

text \<open>The stream of one type gets other tracks, the peers follow.\<close>

lemma retrack_inv:
  assumes inv: "session_inv se" and l: "map_of (se_shared se) type = Some l"
    and w': "resends (se_peers se) g (se_world se) w1" "pw_calls w' = pw_calls w1" "pw_local w' = pw_local (se_world se)"
    and tracks: "\<And>s. set (tracks_in w' s) = (if s = sw_stream l then T' else set (tracks_in (se_world se) s))"
    and new: "T' \<subseteq> insert t (set (tracks_in (se_world se) (sw_stream l)))"
    and ok: "\<And>type' s. type' \<noteq> type \<Longrightarrow> opened se type' = Some s \<Longrightarrow> t \<notin> set (tracks_in (se_world se) s)"
    and g: "\<And>X R. R \<inter> set (tracks_in (se_world se) (sw_stream l)) = {} \<Longrightarrow>
      X \<subseteq> set (tracks_in (se_world se) (sw_stream l)) \<union> R \<Longrightarrow> g X \<subseteq> T' \<union> R"
      "\<And>R. R \<inter> set (tracks_in (se_world se) (sw_stream l)) = {} \<Longrightarrow>
        g (set (tracks_in (se_world se) (sw_stream l)) \<union> R) = T' \<union> R"
  shows "session_inv (se\<lparr>se_world := w'\<rparr>)"
proof -
  let ?se = "se\<lparr>se_world := w'\<rparr>" and ?T = "set (tracks_in (se_world se) (sw_stream l))"
  have op: "opened ?se = opened se" by (simp add: opened_def w'(3) fun_eq_iff)
  have ol: "opened se type = Some (sw_stream l)" using session_invD(2) [OF inv l] .
  have sh: "shared ?se type = T'" "shared se type = ?T"
    using l tracks by (simp_all add: shared_def)
  have sho: "shared ?se (other type) = shared se (other type)"
  proof (cases "map_of (se_shared se) (other type)")
    case (Some l')
    have "sw_stream l' \<noteq> sw_stream l"
      using session_invD(3) [OF inv _ session_invD(2) [OF inv Some] ol] by simp
    then show ?thesis using Some tracks by (simp add: shared_def)
  qed (simp add: shared_def)
  have apart: "shared se (other type) \<inter> ?T = {}"
    using shared_apart [OF inv, of "other type" type] ol by (simp add: old_tracks_def opened_def)
  show ?thesis
  proof (rule resend_inv [OF inv, where g = g])
    show "sent p (pw_calls (se_world ?se)) = g (sent p (pw_calls (se_world se)))"
      if "p \<in> set (map snd (se_peers se))" for p
      using resends_sent [OF w'(1) that] by (simp add: w'(2))
    show "g X \<subseteq> all_shared ?se" if "X \<subseteq> all_shared se" for X
      using g(1) [OF apart] that unfolding all_shared_other [of _ type] sh sho by simp
    show "g (all_shared se) = all_shared ?se"
      using g(2) [OF apart] unfolding all_shared_other [of _ type] sh sho .
    show "a \<noteq> b \<and> set (tracks_in (se_world ?se) a) \<inter> set (tracks_in (se_world ?se) b) = {}"
      if "t1 \<noteq> t2" "opened ?se t1 = Some a" "opened ?se t2 = Some b" for t1 t2 a b
    proof -
      have ab: "a \<noteq> b" "set (tracks_in (se_world se) a) \<inter> set (tracks_in (se_world se) b) = {}"
        using session_invD(3) [OF inv that(1)] that(2,3) unfolding op by blast+
      have a: "a = sw_stream l \<Longrightarrow> t1 = type" and b: "b = sw_stream l \<Longrightarrow> t2 = type"
        using session_invD(3) [OF inv _ _ ol] that(2,3) unfolding op by blast+
      have "t \<notin> set (tracks_in (se_world se) b)" if "a = sw_stream l"
        using ok [of t2 b] a [OF that] \<open>t1 \<noteq> t2\<close> \<open>opened ?se t2 = Some b\<close> unfolding op by blast
      moreover have "t \<notin> set (tracks_in (se_world se) a)" if "b = sw_stream l"
        using ok [of t1 a] b [OF that] \<open>t1 \<noteq> t2\<close> \<open>opened ?se t1 = Some a\<close> unfolding op by blast
      ultimately show ?thesis using ab new tracks by auto
    qed
  qed (use session_invD(2,6) [OF inv] op in simp_all)
qed

lemma all_shared_cong:
  "se_shared se' = se_shared se \<Longrightarrow> tracks_in (se_world se') = tracks_in (se_world se) \<Longrightarrow>
   all_shared se' = all_shared se"
  by (simp add: all_shared_def shared_def cong: option.case_cong)

lemma session_inv_cong:
  assumes inv: "session_inv se" and w: "pw_calls w = pw_calls (se_world se)"
    "pw_local w = pw_local (se_world se)" "pw_streams w = pw_streams (se_world se)"
  shows "session_inv (se\<lparr>se_world := w\<rparr>)"
proof -
  have tracks: "tracks_in w = tracks_in (se_world se)" by (simp add: tracks_in_def fun_eq_iff w)
  have "all_shared (se\<lparr>se_world := w\<rparr>) = all_shared se"
    by (rule all_shared_cong) (simp_all add: tracks)
  with inv show ?thesis unfolding session_inv_def opened_def by (simp add: w tracks)
qed

lemma session_world_id: "se\<lparr>se_peers := se_peers se, se_world := w\<rparr> = se\<lparr>se_world := w\<rparr>"
  by simp

lemma tracks_in_with [simp]:
  "tracks_in (with_streams f w) s = heap (f (pw_streams w)) s"
  "pw_calls (with_streams f w) = pw_calls w" "pw_local (with_streams f w) = pw_local w"
  by (simp_all add: with_streams_def tracks_in_def)

lemma track_step:
  assumes env: "reliable env" and inv: "session_inv se" and ok: "session_ok se (Track payload)"
  shows "session_inv (session_step env se (Track payload))"
proof -
  let ?w = "se_world se" and ?type = "mt_type payload"
  let ?h = "handleLocalMediaTrack env (se_peers se) (Resolved payload) ?w"
  have step: "session_step env se (Track payload) = se\<lparr>se_world := snd ?h\<rparr>"
    by (simp add: session_step.simps reduced_def split: prod.split)
  note d = session_invD(1) [OF inv]
  have ok': "t \<notin> set (tracks_in ?w s)"
    if "mt_track payload = Some t" "type' \<noteq> ?type" "opened se type' = Some s" for t type' s
    using ok that by simp
  show ?thesis
  proof (cases "map_of (pw_local ?w) ?type")
    case None
    then show ?thesis unfolding step using inv by (simp add: handleLocalMediaTrack_def)
  next
    case (Some s)
    then obtain l where l: "map_of (se_shared se) ?type = Some l" using ok by (auto simp: opened_def)
    then have s: "s = sw_stream l" using session_invD(2) [OF inv l] Some by (simp add: opened_def)
    let ?T = "set (tracks_in ?w (sw_stream l))" and ?k = "getTracksByKind ?w s (mt_kind payload)"
    show ?thesis
    proof (cases "mt_track payload")
      case None
      have h: "pw_calls (snd ?h) = pw_calls ?w" "pw_local (snd ?h) = pw_local ?w" "pw_streams (snd ?h) = pw_streams ?w"
        using Some None by (simp_all add: handleLocalMediaTrack_def split: list.split)
      show ?thesis unfolding step by (rule session_inv_cong [OF inv h])
    next
      case (Some new)
      show ?thesis
      proof (cases ?k)
        case Nil
        obtain w1 where w1: "for_each (\<lambda>(_, peer). add_and_encrypt env peer s new) (se_peers se) ?w = (None, w1)"
          "resends (se_peers se) (insert new) ?w w1" "pw_local w1 = pw_local ?w"
          using add_resends [OF env d] by blast
        have h: "snd ?h = with_streams (stream_addTrack s new) w1"
          using \<open>map_of _ _ = Some s\<close> Some Nil w1(1) by (simp add: handleLocalMediaTrack_def)
        have st: "pw_streams w1 = pw_streams ?w" using w1(2) by (simp add: resends_def)
        show ?thesis unfolding step h
          by (rule retrack_inv [OF inv l w1(2), where T' = "insert new ?T" and t = new])
            (use w1(3) st s ok' Some in \<open>auto simp: tracks_in_def [of "se_world se"]\<close>)
      next
        case (Cons old rest)
        have old: "old \<in> ?T" using Cons s by (auto simp: getTracksByKind_def dest: filter_eq_ConsD)
        obtain w1 where w1: "for_each (\<lambda>(_, peer). peer_call env (ReplaceTrack peer old new s)) (se_peers se) ?w = (None, w1)"
          "resends (se_peers se) (\<lambda>X. if old \<in> X then insert new (X - {old}) else X) ?w w1" "pw_local w1 = pw_local ?w"
          using replace_resends [OF env d] by blast
        have h: "snd ?h = with_streams (\<lambda>x. let x = stream_addTrack s new (stream_removeTrack s old x)
             in x\<lparr>stopped := stopped x @ [old]\<rparr>) w1"
          using \<open>map_of _ _ = Some s\<close> Some Cons w1(1) by (simp add: handleLocalMediaTrack_def)
        have st: "pw_streams w1 = pw_streams ?w" using w1(2) by (simp add: resends_def)
        show ?thesis unfolding step h
          by (rule retrack_inv [OF inv l w1(2), where T' = "insert new (?T - {old})" and t = new])
            (use w1(3) st s ok' Some old in \<open>auto simp: tracks_in_def [of "se_world se"] Let_def split: if_splits\<close>)
      qed
    qed
  qed
qed

lemma peers_oset: "set (map snd (oset u p st)) \<subseteq> insert p (set (map snd st))"
  by (induction st) auto

lemma distinct_oset: "distinct (map snd st) \<Longrightarrow> p \<notin> set (map snd st) \<Longrightarrow> distinct (map snd (oset u p st))"
proof (induction st)
  case (Cons e st)
  obtain k q where e: "e = (k, q)" by fastforce
  have "q \<noteq> p" "q \<notin> set (map snd st)" using Cons.prems e by auto
  then have "q \<notin> set (map snd (oset u p st))" using peers_oset [of u p st] by blast
  then show ?case using Cons by (auto simp: e)
qed simp

lemma peers_step:
  assumes inv: "session_inv se" and st: "distinct (map snd st)"
    and sub: "\<And>p. p \<in> set (map snd st) \<Longrightarrow> p \<in> set (map snd (se_peers se)) \<or>
      p \<notin> se_connected se \<and> sent p (pw_calls (se_world se)) = {}"
  shows "session_inv (se\<lparr>se_peers := st\<rparr>)"
proof (rule session_invI)
  fix p assume "p \<in> set (map snd (se_peers (se\<lparr>se_peers := st\<rparr>)))"
  then have "p \<in> set (map snd st)" by simp
  from sub [OF this] session_invD(4,5) [OF inv, of p]
  show "sent p (pw_calls (se_world (se\<lparr>se_peers := st\<rparr>))) \<subseteq> all_shared (se\<lparr>se_peers := st\<rparr>) \<and>
      (p \<in> se_connected (se\<lparr>se_peers := st\<rparr>) \<longrightarrow>
        sent p (pw_calls (se_world (se\<lparr>se_peers := st\<rparr>))) = all_shared (se\<lparr>se_peers := st\<rparr>))"
    using all_shared_cong [of "se\<lparr>se_peers := st\<rparr>" se] by auto
qed (use st session_invD(2,3,6) [OF inv] in \<open>simp_all add: opened_def\<close>)

lemma joined_step:
  assumes inv: "session_inv se" and ok: "session_ok se (Joined u p)"
  shows "session_inv (session_step env se (Joined u p))"
proof -
  have "session_inv (se\<lparr>se_peers := oset u p (se_peers se)\<rparr>)"
  proof (rule peers_step [OF inv])
    show "distinct (map snd (oset u p (se_peers se)))"
      using session_invD(1) [OF inv] ok by (intro distinct_oset) simp_all
  next
    fix q assume "q \<in> set (map snd (oset u p (se_peers se)))"
    then have "q = p \<or> q \<in> set (map snd (se_peers se))" using peers_oset [of u p "se_peers se"] by auto
    then show "q \<in> set (map snd (se_peers se)) \<or> q \<notin> se_connected se \<and> sent q (pw_calls (se_world se)) = {}"
      using ok by auto
  qed
  then show ?thesis by (simp add: session_step.simps reduced_def)
qed

lemma left_step:
  assumes inv: "session_inv se"
  shows "session_inv (session_step env se (Left u))"
proof -
  have "session_inv (se\<lparr>se_peers := omit (se_peers se) [u]\<rparr>)"
    by (rule peers_step [OF inv])
      (use session_invD(1) [OF inv] in \<open>auto simp: omit_def distinct_map_filter\<close>)
  then show ?thesis by (simp add: session_step.simps reduced_def)
qed

lemma hung_up_step: "session_inv (session_step env se HungUp)"
  by (rule session_invI) (simp_all add: session_step.simps reduced_def opened_def)

lemma enabled_step:
  assumes inv: "session_inv se"
  shows "session_inv (session_step env se (Enabled kind type))"
proof -
  have "pw_calls (fold (\<lambda>t w. w\<lparr>pw_enabled := (pw_enabled w)(t := True)\<rparr>) ts w) = pw_calls w \<and>
      pw_local (fold (\<lambda>t w. w\<lparr>pw_enabled := (pw_enabled w)(t := True)\<rparr>) ts w) = pw_local w \<and>
      pw_streams (fold (\<lambda>t w. w\<lparr>pw_enabled := (pw_enabled w)(t := True)\<rparr>) ts w) = pw_streams w" for ts and w :: "'a peer_world"
    by (induction ts arbitrary: w) simp_all
  then show ?thesis
    using session_inv_cong [OF inv, of "handleLocalMediaTrackEnable kind type (se_world se)"]
    by (auto simp: session_step.simps reduced_def handleLocalMediaTrackEnable_def split: option.splits)
qed

lemma session_step_inv:
  assumes "session_inv se" and "session_ok se e" and "reliable env"
  shows "session_inv (session_step env se e)"
  using assms
  by (cases e) (simp_all add: joined_step left_step hung_up_step connected_step opened_step closed_step
      track_step enabled_step del: session_ok.simps)

interpretation session: machine "session_step env" "\<lambda>se e. session_ok se e \<and> reliable env" session_inv for env
  by unfold_locales (simp add: session_step_inv)

text \<open>
  Hanging up forgets all peers and local streams at once, and the timer it starts destroys
  each of the peers, in order, even if other peers joined in the meantime.
\<close>

lemma hang_up_destroys_peers:
  assumes "reliable env" and "pw_timers w = []"
  shows "\<exists>w' w''. peers env HANG_UP (st, w) = (None, [], w') \<and> pw_local w' = [] \<and>
    destroy_timer env w' = (None, w'') \<and> pw_calls w'' = pw_calls w @ map Destroy (map snd st) \<and> pw_timers w'' = []"
proof -
  let ?w = "w\<lparr>pw_local := [], pw_timers := []\<rparr>"
  obtain w'' where "for_each (\<lambda>p. peer_call env (Destroy p)) (map snd st) ?w = (None, w'')"
    "calls_only (concat (map (\<lambda>p. [Destroy p]) (map snd st))) ?w w''"
    using for_each_calls [of "map snd st" ?w "\<lambda>p. peer_call env (Destroy p)" "\<lambda>p. [Destroy p]", OF call_calls [OF assms(1)]]
    by blast
  then show ?thesis using assms(2) by (simp add: destroy_timer_def calls_only_def comp_def)
qed

section \<open>Runs that meet the hypotheses\<close>

definition toy_peer_env :: peer_env where
  "toy_peer_env = \<lparr>call_throws = (\<lambda>_ _. False), sender_of = (\<lambda>p _. p), encoded_streams = (\<lambda>_. CreateReturns)\<rparr>"

lemma toy_reliable: "reliable toy_peer_env"
  by (simp add: reliable_def toy_peer_env_def)

end
