(* ===== verification/SocketClient.thy ===== *)
theory SocketClient
  imports Prelude
begin

text \<open>
  The event emitter of \<open>emitter/SimpleEmitter.ts\<close> and the reconnecting web socket of
  \<open>ws/index.ts\<close>. Web sockets, reconnection timers and ping intervals are numbered resources of
  the state; what the browser may do to them is a step relation, so a theorem about the reachable
  states covers every order of openings, closings and timers.
\<close>

section \<open>The emitter\<close>

type_synonym 'l emitter = "('l \<times> bool) list obj"

definition listeners :: "'l emitter \<Rightarrow> string \<Rightarrow> ('l \<times> bool) list" where
  "listeners em name = (case oget em name of None \<Rightarrow> [] | Some ls \<Rightarrow> ls)"

definition em_on :: "string \<Rightarrow> 'l \<Rightarrow> 'l emitter \<Rightarrow> 'l emitter" where
  "em_on name callback em = oset name (listeners em name @ [(callback, False)]) em"

definition em_once :: "string \<Rightarrow> 'l \<Rightarrow> 'l emitter \<Rightarrow> 'l emitter" where
  "em_once name callback em = oset name (listeners em name @ [(callback, True)]) em"

text \<open>The most recently added registration of the callback is removed.\<close>

definition em_removeListener :: "string \<Rightarrow> 'l \<Rightarrow> 'l emitter \<Rightarrow> 'l emitter" where
  "em_removeListener name callback em =
    (let ls = listeners em name;
         keep = rev (dropWhile (\<lambda>l. fst l \<noteq> callback) (rev ls)) ;
         rest = rev (takeWhile (\<lambda>l. fst l \<noteq> callback) (rev ls))
     in oset name (butlast keep @ rest) em)"

definition em_removeAllListeners :: "string option \<Rightarrow> 'l emitter \<Rightarrow> 'l emitter" where
  "em_removeAllListeners event em = (case event of None \<Rightarrow> [] | Some name \<Rightarrow> odel name em)"

text \<open>\<open>emit\<close> calls the listeners that are registered when it starts; a \<open>once\<close> listener is
  removed before it is called.\<close>

definition em_emit :: "string \<Rightarrow> 'l emitter \<Rightarrow> 'l list \<times> 'l emitter" where
  "em_emit name em = (map fst (listeners em name),
     oset name (filter (\<lambda>l. \<not> snd l) (listeners em name)) em)"

lemma listeners_simps [simp]:
  "listeners (em_on name l em) name' = (if name' = name then listeners em name @ [(l, False)] else listeners em name')"
  "listeners (em_once name l em) name' = (if name' = name then listeners em name @ [(l, True)] else listeners em name')"
  "listeners (em_removeAllListeners (Some name) em) name' = (if name' = name then [] else listeners em name')"
  "listeners (snd (em_emit name em)) name' =
     (if name' = name then filter (\<lambda>l. \<not> snd l) (listeners em name) else listeners em name')"
  by (simp_all add: listeners_def em_on_def em_once_def em_removeAllListeners_def em_emit_def)

section \<open>The socket client: state\<close>

datatype socket_state = Connecting | Open | Closed

datatype client_event = Emitted string | Sent nat string

record socket_client =
  connected :: bool
  reconnectTimeout :: nat
  pingIntervalTimeout :: nat
  pingInterval :: "nat option"
  sockets :: "socket_state list"
  ws :: nat
  timers :: nat
  intervals :: "nat list"
  nextInterval :: nat
  log :: "client_event list"

section \<open>The socket client: operations\<close>

definition connect :: "socket_client \<Rightarrow> socket_client" where
  "connect c = c\<lparr>ws := length (sockets c), sockets := sockets c @ [Connecting]\<rparr>"

definition new_client :: socket_client where
  "new_client = connect \<lparr>connected = False, reconnectTimeout = 2000, pingIntervalTimeout = 5000,
     pingInterval = None, sockets = [], ws = 0, timers = 0, intervals = [], nextInterval = 0, log = []\<rparr>"

definition wsHandleClose :: "socket_client \<Rightarrow> socket_client" where
  "wsHandleClose c =
    (let c = (if connected c then c\<lparr>log := log c @ [Emitted ''disconnect''], connected := False\<rparr> else c);
         c = (case pingInterval c of None \<Rightarrow> c | Some i \<Rightarrow> c\<lparr>intervals := filter (\<lambda>j. j \<noteq> i) (intervals c)\<rparr>)
     in if reconnectTimeout c \<noteq> 0 then c\<lparr>timers := Suc (timers c)\<rparr> else c)"

definition wsHandleOpen :: "socket_client \<Rightarrow> socket_client" where
  "wsHandleOpen c =
    (let c = c\<lparr>connected := True, log := log c @ [Emitted ''connect'']\<rparr>
     in if pingIntervalTimeout c \<noteq> 0
        then c\<lparr>pingInterval := Some (nextInterval c), intervals := intervals c @ [nextInterval c],
               nextInterval := Suc (nextInterval c)\<rparr>
        else c)"

definition disconnect :: "socket_client \<Rightarrow> socket_client" where
  "disconnect c = wsHandleClose (c\<lparr>reconnectTimeout := 0\<rparr>)"

text \<open>\<open>emit\<close> sends through the current web socket, which throws while that is connecting.\<close>

definition client_emit :: "string \<Rightarrow> socket_client \<Rightarrow> js_error + socket_client" where
  "client_emit name c =
    (if sockets c ! ws c = Connecting then Inl PeerError
     else if sockets c ! ws c = Open then Inr (c\<lparr>log := log c @ [Sent (ws c) name]\<rparr>)
     else Inr c)"

definition ping :: "socket_client \<Rightarrow> js_error + socket_client" where
  "ping c = client_emit ''ping'' c"

definition wsHandleMessage :: "string \<Rightarrow> socket_client \<Rightarrow> socket_client" where
  "wsHandleMessage type c = c\<lparr>log := log c @ [Emitted type]\<rparr>"

section \<open>The socket client: what can happen\<close>

datatype label = SocketOpens nat | SocketCloses nat | Message nat string | TimerFires | IntervalFires nat | Disconnect

inductive client_step :: "socket_client \<Rightarrow> label \<Rightarrow> socket_client \<Rightarrow> bool" where
  opens: "i < length (sockets c) \<Longrightarrow> sockets c ! i = Connecting \<Longrightarrow>
    client_step c (SocketOpens i) (wsHandleOpen (c\<lparr>sockets := (sockets c)[i := Open]\<rparr>))"
| closes: "i < length (sockets c) \<Longrightarrow> sockets c ! i \<noteq> Closed \<Longrightarrow>
    client_step c (SocketCloses i) (wsHandleClose (c\<lparr>sockets := (sockets c)[i := Closed]\<rparr>))"
| message: "i < length (sockets c) \<Longrightarrow> sockets c ! i = Open \<Longrightarrow> type \<notin> {''connect'', ''disconnect''} \<Longrightarrow>
    client_step c (Message i type) (wsHandleMessage type c)"
| timer: "timers c > 0 \<Longrightarrow> client_step c TimerFires (connect (c\<lparr>timers := timers c - 1\<rparr>))"
| interval: "j \<in> set (intervals c) \<Longrightarrow> client_step c (IntervalFires j) (case ping c of Inl e \<Rightarrow> c | Inr c' \<Rightarrow> c')"
| disconnects: "client_step c Disconnect (disconnect c)"

inductive_cases client_stepE: "client_step c l c'"

text \<open>The states that are reachable without a call of \<open>disconnect\<close>.\<close>

inductive reachable :: "socket_client \<Rightarrow> bool" where
  start: "reachable new_client"
| step: "reachable c \<Longrightarrow> client_step c l c' \<Longrightarrow> l \<noteq> Disconnect \<Longrightarrow> reachable c'"

section \<open>One connection at a time\<close>

text \<open>\<open>live\<close>: the sockets that are not closed. While the client waits, a timer is set and all
  sockets are closed; otherwise no timer is set and exactly the current socket is live.\<close>

definition live :: "socket_client \<Rightarrow> nat list" where
  "live c = filter (\<lambda>i. sockets c ! i \<noteq> Closed) [0..<length (sockets c)]"

definition waiting :: "socket_client \<Rightarrow> bool" where
  "waiting c \<longleftrightarrow> timers c = 1 \<and> (\<forall>i < length (sockets c). sockets c ! i = Closed) \<and> \<not> connected c"

definition using_socket :: "socket_client \<Rightarrow> bool" where
  "using_socket c \<longleftrightarrow> timers c = 0 \<and> ws c < length (sockets c) \<and>
     (\<forall>i < length (sockets c). i \<noteq> ws c \<longrightarrow> sockets c ! i = Closed) \<and>
     sockets c ! ws c = (if connected c then Open else Connecting)"

definition pings :: "socket_client \<Rightarrow> bool" where
  "pings c \<longleftrightarrow> intervals c = (if connected c then [the (pingInterval c)] else []) \<and>
     (connected c \<longrightarrow> pingInterval c \<noteq> None)"

fun alternates :: "bool \<Rightarrow> client_event list \<Rightarrow> bool" where
  "alternates up [] \<longleftrightarrow> True"
| "alternates up (Emitted s # es) \<longleftrightarrow>
    (if s = ''connect'' then \<not> up \<and> alternates True es
     else if s = ''disconnect'' then up \<and> alternates False es else alternates up es)"
| "alternates up (Sent _ _ # es) \<longleftrightarrow> alternates up es"

fun is_up :: "bool \<Rightarrow> client_event list \<Rightarrow> bool" where
  "is_up up [] \<longleftrightarrow> up"
| "is_up up (Emitted s # es) \<longleftrightarrow> is_up (if s = ''connect'' then True else if s = ''disconnect'' then False else up) es"
| "is_up up (Sent _ _ # es) \<longleftrightarrow> is_up up es"

lemma alternates_append: "alternates up (es @ fs) \<longleftrightarrow> alternates up es \<and> alternates (is_up up es) fs"
  by (induction up es rule: alternates.induct) auto

lemma is_up_append: "is_up up (es @ fs) = is_up (is_up up es) fs"
  by (induction up es rule: is_up.induct) auto

definition client_inv :: "socket_client \<Rightarrow> bool" where
  "client_inv c \<longleftrightarrow> reconnectTimeout c \<noteq> 0 \<and> pingIntervalTimeout c \<noteq> 0 \<and> (waiting c \<or> using_socket c) \<and> pings c \<and>
     alternates False (log c) \<and> is_up False (log c) = connected c"

lemmas client_defs = client_inv_def waiting_def using_socket_def pings_def connect_def wsHandleOpen_def
  wsHandleClose_def Let_def

lemma client_inv_start: "client_inv new_client"
  by (simp add: client_defs new_client_def)

lemma client_inv_step:
  assumes inv: "client_inv c" and st: "client_step c l c'" and l: "l \<noteq> Disconnect"
  shows "client_inv c'"
  using st
proof cases
  case (opens i)
  then show ?thesis using inv
    by (auto simp: client_defs alternates_append is_up_append nth_list_update split: if_splits)
next
  case (closes i)
  then show ?thesis using inv
    by (auto simp: client_defs alternates_append is_up_append nth_list_update split: if_splits option.splits)
next
  case (message i type)
  then show ?thesis using inv
    by (auto simp: client_defs wsHandleMessage_def alternates_append is_up_append)
next
  case timer
  then show ?thesis using inv by (auto simp: client_defs nth_append)
next
  case (interval j)
  then show ?thesis using inv
    by (auto simp: client_defs ping_def client_emit_def alternates_append is_up_append split: if_splits)
qed (use l in simp)

lemma reachable_inv: "reachable c \<Longrightarrow> client_inv c"
  by (induction rule: reachable.induct) (auto intro: client_inv_start client_inv_step)

lemma filter_upt_none: "(\<And>i. i < n \<Longrightarrow> \<not> P i) \<Longrightarrow> filter P [0..<n] = []"
  by (induction n) auto

lemma filter_upt_one:
  "k < n \<Longrightarrow> P k \<Longrightarrow> (\<And>i. i < n \<Longrightarrow> i \<noteq> k \<Longrightarrow> \<not> P i) \<Longrightarrow> filter P [0..<n] = [k]"
proof (induction n)
  case (Suc n)
  show ?case
  proof (cases "k = n")
    case True
    then have "filter P [0..<n] = []" using Suc.prems by (intro filter_upt_none) auto
    then show ?thesis using True Suc.prems by simp
  next
    case False
    then have "filter P [0..<n] = [k]" using Suc by simp
    then show ?thesis using False Suc.prems(3) [of n] by simp
  qed
qed simp

lemma live_using: "using_socket c \<Longrightarrow> live c = [ws c]"
  unfolding live_def using_socket_def by (intro filter_upt_one) (auto split: if_splits)

lemma live_waiting: "waiting c \<Longrightarrow> live c = []"
  unfolding live_def waiting_def by (intro filter_upt_none) auto

text \<open>
  C16. The client never has two connections and is never without a plan: in every state that is
  reachable without a call of \<open>disconnect\<close>, either exactly the current socket is live and no
  reconnection is scheduled, or no socket is live and exactly one reconnection is scheduled.
  It is connected exactly if the current socket is open; then one ping interval runs, otherwise
  none, and a ping never throws.
\<close>

theorem one_connection:
  assumes "reachable c"
  shows "(live c = [ws c] \<and> timers c = 0 \<or> live c = [] \<and> timers c = 1) \<and>
    (connected c \<longleftrightarrow> live c = [ws c] \<and> sockets c ! ws c = Open) \<and>
    length (intervals c) = (if connected c then 1 else 0) \<and>
    (intervals c \<noteq> [] \<longrightarrow> ping c = Inr (c\<lparr>log := log c @ [Sent (ws c) ''ping'']\<rparr>))"
proof -
  have inv: "client_inv c" using reachable_inv [OF assms] .
  then have "waiting c \<or> using_socket c" "pings c" by (simp_all add: client_inv_def)
  then show ?thesis
  proof (elim disjE)
    assume "waiting c" "pings c"
    then show ?thesis using live_waiting [of c] by (auto simp: waiting_def pings_def)
  next
    assume "using_socket c" "pings c"
    then show ?thesis using live_using [of c]
      by (auto simp: using_socket_def pings_def ping_def client_emit_def split: if_splits)
  qed
qed

text \<open>
  The \<open>connect\<close> and \<open>disconnect\<close> events that the client emits alternate, beginning with
  \<open>connect\<close>, and from every reachable state the client can be connected again within two steps.
\<close>

lemma connect_events_alternate:
  assumes "reachable c"
  shows "alternates False (log c) \<and> is_up False (log c) = connected c \<and>
    (connected c \<or> (\<exists>i c'. client_step c (SocketOpens i) c' \<and> connected c') \<or>
     (\<exists>i c' c''. client_step c TimerFires c' \<and> client_step c' (SocketOpens i) c'' \<and> connected c''))"
proof -
  have inv: "client_inv c" using reachable_inv [OF assms] .
  have up: "connected (wsHandleOpen x)" for x by (simp add: wsHandleOpen_def Let_def)
  consider "waiting c" | "connected c" | "using_socket c" "\<not> connected c"
    using inv by (auto simp: client_inv_def)
  then have "connected c \<or> (\<exists>i c'. client_step c (SocketOpens i) c' \<and> connected c') \<or>
     (\<exists>i c' c''. client_step c TimerFires c' \<and> client_step c' (SocketOpens i) c'' \<and> connected c'')"
  proof cases
    case 1
    let ?c = "connect (c\<lparr>timers := timers c - 1\<rparr>)"
    have "client_step c TimerFires ?c" using 1 by (intro timer) (simp add: waiting_def)
    moreover have "client_step ?c (SocketOpens (length (sockets c)))
        (wsHandleOpen (?c\<lparr>sockets := (sockets ?c)[length (sockets c) := Open]\<rparr>))"
      by (rule opens) (simp_all add: connect_def)
    ultimately show ?thesis using up by blast
  next
    case 3
    then have "client_step c (SocketOpens (ws c)) (wsHandleOpen (c\<lparr>sockets := (sockets c)[ws c := Open]\<rparr>))"
      by (intro opens) (simp_all add: using_socket_def)
    then show ?thesis using up by blast
  qed simp
  then show ?thesis using inv by (simp add: client_inv_def)
qed

text \<open>
  C39. \<open>disconnect\<close> neither closes the web socket nor cancels a scheduled reconnection: after a
  call of it in a connected state the socket is still live, and after a call while the client
  waits, the timer connects it again.
\<close>

theorem disconnect_does_not_disconnect:
  "(using_socket c \<longrightarrow> live (disconnect c) = [ws c]) \<and>
   (waiting c \<longrightarrow> (\<exists>i c' c''. client_step (disconnect c) TimerFires c' \<and>
      client_step c' (SocketOpens i) c'' \<and> connected c''))"
proof (intro conjI impI)
  assume u: "using_socket c"
  have "live (disconnect c) = live c" by (simp add: disconnect_def wsHandleClose_def Let_def live_def split: option.split)
  then show "live (disconnect c) = [ws c]" using live_using [OF u] by simp
next
  assume w: "waiting c"
  let ?d = "disconnect c"
  let ?c = "connect (?d\<lparr>timers := timers ?d - 1\<rparr>)"
  have "timers ?d > 0" using w by (simp add: disconnect_def wsHandleClose_def waiting_def Let_def split: option.split)
  then have "client_step ?d TimerFires ?c" by (rule timer)
  moreover have "client_step ?c (SocketOpens (length (sockets ?d)))
      (wsHandleOpen (?c\<lparr>sockets := (sockets ?c)[length (sockets ?d) := Open]\<rparr>))"
    by (rule opens) (simp_all add: connect_def)
  moreover have "connected (wsHandleOpen x)" for x by (simp add: wsHandleOpen_def Let_def)
  ultimately show "\<exists>i c' c''. client_step ?d TimerFires c' \<and> client_step c' (SocketOpens i) c'' \<and> connected c''"
    by blast
qed

section \<open>A run\<close>

lemma toy_client: "reachable (wsHandleClose (new_client\<lparr>sockets := [Closed]\<rparr>))"
proof -
  have "client_step new_client (SocketCloses 0) (wsHandleClose (new_client\<lparr>sockets := (sockets new_client)[0 := Closed]\<rparr>))"
    by (rule closes) (simp_all add: new_client_def connect_def)
  then show ?thesis using reachable.step [OF reachable.start] by (simp add: new_client_def connect_def)
qed

theorem one_connection_witness: "live (wsHandleClose (new_client\<lparr>sockets := [Closed]\<rparr>)) = []"
  using one_connection [OF toy_client] by (auto simp: wsHandleClose_def new_client_def connect_def Let_def)

theorem disconnect_does_not_disconnect_witness: "live (disconnect new_client) = [0]"
  using disconnect_does_not_disconnect [of new_client]
  by (simp add: using_socket_def new_client_def connect_def)

end
