(* ===== verification/Media.thy ===== *)
theory Media
  imports Async
begin

text \<open>
  The reducer of \<open>reducers/media.ts\<close>: the state of the call (hung up, dialling, in call), the
  server connection, the devices and constraints, and the errors shown to the user.
\<close>

section \<open>Data\<close>

datatype dial_state = DIAL_STATE_HUNG_UP | DIAL_STATE_DIALLING | DIAL_STATE_IN_CALL

datatype device_type = AudioInput | VideoInput

record media_device =
  dv_id :: string
  dv_name :: string
  dv_type :: device_type

datatype facing_mode = FacingUser | FacingEnvironment

text \<open>\<open>VideoDevice d\<close> is \<open>{deviceId: d}\<close>, \<open>VideoWithoutId n\<close> is \<open>{deviceId: '', name: n}\<close>; microphones likewise.\<close>

datatype video_constraint =
    VideoDevice string
  | VideoWithoutId string
  | VideoOn bool
  | VideoFacing facing_mode
  | VideoExactFacing facing_mode

datatype audio_constraint = AudioDevice string | AudioWithoutId string | AudioOn bool

record media_state =
  socketConnected :: bool
  creatorId :: string
  devices :: "media_device list"
  video :: video_constraint
  audio :: audio_constraint
  dialState :: dial_state
  loading :: bool
  errorText :: string
  autoplayError :: bool
  recordStatus :: bool

definition media_default :: media_state where
  "media_default = \<lparr>socketConnected = False, creatorId = '''', devices = [], video = VideoFacing FacingUser,
     audio = AudioOn True, dialState = DIAL_STATE_HUNG_UP, loading = False, errorText = '''',
     autoplayError = False, recordStatus = False\<rparr>"

section \<open>Handlers\<close>

definition handleEnumerate :: "media_device list async_action \<Rightarrow> media_state \<Rightarrow> media_state" where
  "handleEnumerate action st = (case action of
      Resolved ds \<Rightarrow> st\<lparr>loading := False, devices := ds\<rparr>
    | Pending \<Rightarrow> st\<lparr>loading := True\<rparr>
    | Rejected _ \<Rightarrow> st\<lparr>loading := False, errorText := ''Could not retrieve media devices''\<rparr>)"

definition handleMediaStream :: "'p async_action \<Rightarrow> media_state \<Rightarrow> media_state" where
  "handleMediaStream action st = (case action of
      Resolved _ \<Rightarrow> st
    | Rejected e \<Rightarrow> st\<lparr>errorText := er_message e\<rparr>
    | Pending \<Rightarrow> st)"

definition handlePlay :: "unit async_action \<Rightarrow> media_state \<Rightarrow> media_state" where
  "handlePlay action st = (case action of
      Pending \<Rightarrow> st\<lparr>autoplayError := False\<rparr>
    | Resolved _ \<Rightarrow> st\<lparr>autoplayError := False\<rparr>
    | Rejected e \<Rightarrow> if er_name e \<noteq> ''NotAllowedError'' then st else st\<lparr>autoplayError := True\<rparr>)"

definition handleDial :: "unit async_action \<Rightarrow> media_state \<Rightarrow> media_state" where
  "handleDial action st = (case action of
      Pending \<Rightarrow> st\<lparr>dialState := DIAL_STATE_DIALLING\<rparr>
    | Resolved _ \<Rightarrow> st\<lparr>dialState := DIAL_STATE_IN_CALL\<rparr>
    | Rejected _ \<Rightarrow> st\<lparr>dialState := DIAL_STATE_HUNG_UP\<rparr>)"

section \<open>The reducer\<close>

datatype media_action =
    MEDIA_ENUMERATE "media_device list async_action"
  | MEDIA_AUDIO_CONSTRAINT_SET audio_constraint
  | MEDIA_VIDEO_CONSTRAINT_SET video_constraint
  | MEDIA_STREAM "unit async_action"
  | MEDIA_PLAY "unit async_action"
  | CALL_RECORD bool
  | DIAL "unit async_action"
  | CREATOR_ID_ADD string
  | SOCKET_CONNECTED
  | SOCKET_DISCONNECTED
  | HANG_UP

fun media :: "media_state \<Rightarrow> media_action \<Rightarrow> media_state" where
  "media st (MEDIA_ENUMERATE action) = handleEnumerate action st"
| "media st (MEDIA_AUDIO_CONSTRAINT_SET payload) = st\<lparr>audio := payload\<rparr>"
| "media st (MEDIA_VIDEO_CONSTRAINT_SET payload) = st\<lparr>video := payload\<rparr>"
| "media st (MEDIA_STREAM action) = handleMediaStream action st"
| "media st (MEDIA_PLAY action) = handlePlay action st"
| "media st (CALL_RECORD status) = st\<lparr>recordStatus := status\<rparr>"
| "media st (DIAL action) = handleDial action st"
| "media st (CREATOR_ID_ADD cid) = st\<lparr>creatorId := cid\<rparr>"
| "media st SOCKET_CONNECTED = st\<lparr>socketConnected := True\<rparr>"
| "media st SOCKET_DISCONNECTED = st\<lparr>socketConnected := False\<rparr>"
| "media st HANG_UP = st\<lparr>dialState := DIAL_STATE_HUNG_UP\<rparr>"

section \<open>Errors stay\<close>

text \<open>The message of an action that failed, as the reducer words it.\<close>

fun failure :: "media_action \<Rightarrow> string option" where
  "failure (MEDIA_ENUMERATE (Rejected _)) = Some ''Could not retrieve media devices''"
| "failure (MEDIA_STREAM (Rejected e)) = Some (er_message e)"
| "failure _ = None"

lemma errorText_step:
  "errorText (media st action) = (case failure action of None \<Rightarrow> errorText st | Some m \<Rightarrow> m)"
  by (cases action rule: failure.cases)
    (auto simp: handleEnumerate_def handleMediaStream_def handlePlay_def handleDial_def split: async_action.split)

text \<open>
  The error text is the message of the last enumeration or media stream action that failed;
  no later success, call or hang-up clears it.
\<close>

lemma error_is_last_failure:
  "errorText (run media st actions) =
     (case List.find (\<lambda>a. failure a \<noteq> None) (rev actions) of None \<Rightarrow> errorText st | Some a \<Rightarrow> the (failure a))"
proof (induction actions rule: rev_induct)
  case (snoc a actions)
  then show ?case by (cases "failure a") (simp_all add: errorText_step)
qed simp

end
