(* ===== verification/Room.thy ===== *)
theory Room
  imports Async Decoder
begin

text \<open>
  What the user sees of a room: the nicknames (\<open>reducers/nicknames.ts\<close>, \<open>nickname.ts\<close>), the
  notifications (\<open>actions/NotifyActions.ts\<close>, \<open>reducers/notifications.ts\<close>), the chat
  (\<open>reducers/messages.ts\<close>) and the minimised videos (\<open>reducers/windowStates.ts\<close>). The counter of
  lodash's \<open>uniqueId\<close> is threaded through the action creators; the formatting of a time is a
  parameter.
\<close>

section \<open>Nicknames\<close>

text \<open>The value of a key may be \<open>undefined\<close>.\<close>

type_synonym nicknames = "string option obj"

definition ME :: string where
  "ME = ''_me_''"

definition nick :: "nicknames \<Rightarrow> string \<Rightarrow> string option" where
  "nick st k = (case oget st k of None \<Rightarrow> None | Some v \<Rightarrow> v)"

definition getLocalNickname :: "string option \<Rightarrow> string \<Rightarrow> string" where
  "getLocalNickname stored nickname =
     (case stored of Some s \<Rightarrow> if s = '''' then nickname else s | None \<Rightarrow> nickname)"

definition nicknames_default :: "string option \<Rightarrow> string \<Rightarrow> nicknames" where
  "nicknames_default stored nickname = [(ME, Some (getLocalNickname stored nickname))]"

datatype nickname_action =
    PEER_REMOVE string
  | HANG_UP
  | NICKNAME_REMOVE string
  | NICKNAMES_SET "string obj"

definition removeNickname :: "string \<Rightarrow> nicknames \<Rightarrow> nicknames" where
  "removeNickname userId st = (if userId \<noteq> ME then odel userId st else st)"

fun nicknames :: "string \<Rightarrow> nicknames \<Rightarrow> nickname_action \<Rightarrow> nicknames" where
  "nicknames me st (PEER_REMOVE userId) = omit st [userId]"
| "nicknames me st HANG_UP = [(ME, nick st ME)]"
| "nicknames me st (NICKNAME_REMOVE userId) = removeNickname userId st"
| "nicknames me st (NICKNAMES_SET payload) =
    fold (\<lambda>(key, value) ob. if key = me then oset ME (Some value) ob else oset key (Some value) ob)
      payload [(ME, nick st ME)]"

definition getNickname :: "nicknames \<Rightarrow> string \<Rightarrow> string" where
  "getNickname st userId = (case nick st userId of
      Some nickname \<Rightarrow> if nickname \<noteq> '''' then nickname else if userId = ME then ''You'' else userId
    | None \<Rightarrow> if userId = ME then ''You'' else userId)"

lemma nicknames_set_lookup:
  assumes "wf_obj payload" and "oget payload ME = None"
  shows "oget (fold (\<lambda>(key, value) ob. if key = me then oset ME (Some value) ob else oset key (Some value) ob) payload base) k =
    (if k = ME then (case oget payload me of Some v \<Rightarrow> Some (Some v) | None \<Rightarrow> oget base ME)
     else if k = me then oget base k
     else (case oget payload k of Some v \<Rightarrow> Some (Some v) | None \<Rightarrow> oget base k))"
  using assms
proof (induction payload arbitrary: base)
  case (Cons e payload)
  obtain key v where e: "e = (key, v)" by fastforce
  have wf: "wf_obj payload" "oget payload key = None" and me: "key \<noteq> ME" "oget payload ME = None"
    using Cons.prems by (auto simp: e wf_obj_def oget_None_iff split: if_splits)
  show ?case
    using Cons.IH [OF wf(1) me(2)] wf(2) me(1) by (auto simp: e split: option.splits)
qed simp

text \<open>
  After the server announced the nicknames, the local user has the announced name, or keeps
  the old one if there is none; every other announced user has the announced name; nobody else
  has an entry. What is displayed is never empty.
\<close>

lemma nicknames_set_exact:
  assumes "wf_obj payload" and "oget payload ME = None" and "me \<noteq> ME"
  shows "nick (nicknames me st (NICKNAMES_SET payload)) ME =
      (case oget payload me of Some v \<Rightarrow> Some v | None \<Rightarrow> nick st ME) \<and>
    (\<forall>k. k \<noteq> ME \<longrightarrow> nick (nicknames me st (NICKNAMES_SET payload)) k = (if k = me then None else oget payload k)) \<and>
    (\<forall>k. k \<noteq> '''' \<longrightarrow> getNickname (nicknames me st (NICKNAMES_SET payload)) k \<noteq> '''')"
  using nicknames_set_lookup [OF assms(1,2), of me "[(ME, nick st ME)]"]
  by (auto simp: nick_def getNickname_def split: option.split)

section \<open>Notifications\<close>

datatype notify_type = Info | Warning | NotifyError

record notification =
  nt_id :: string
  nt_type :: notify_type
  nt_message :: string

text \<open>\<open>String.prototype.replace\<close> with a string pattern: the first occurrence only, and dollar
  signs of the replacement are special.\<close>

fun find_sub :: "string \<Rightarrow> string \<Rightarrow> (string \<times> string) option" where
  "find_sub pat s = (if take (length pat) s = pat then Some ([], drop (length pat) s)
     else case s of [] \<Rightarrow> None
     | c # cs \<Rightarrow> (case find_sub pat cs of None \<Rightarrow> None | Some (pre, post) \<Rightarrow> Some (c # pre, post)))"

fun expand :: "string \<Rightarrow> string \<Rightarrow> string \<Rightarrow> string \<Rightarrow> string" where
  "expand pre pat post (c # d # cs) =
    (if c = CHR ''$'' \<and> d = CHR ''$'' then CHR ''$'' # expand pre pat post cs
     else if c = CHR ''$'' \<and> d = CHR ''&'' then pat @ expand pre pat post cs
     else if c = CHR ''$'' \<and> d = CHR ''`'' then pre @ expand pre pat post cs
     else if c = CHR ''$'' \<and> d = CHR 0x27 then post @ expand pre pat post cs
     else c # expand pre pat post (d # cs))"
| "expand pre pat post cs = cs"

definition js_replace :: "string \<Rightarrow> string \<Rightarrow> string \<Rightarrow> string" where
  "js_replace s pat rep = (case find_sub pat s of
      None \<Rightarrow> s
    | Some (pre, post) \<Rightarrow> pre @ expand pre pat post rep @ post)"

definition format :: "string \<Rightarrow> string list \<Rightarrow> string" where
  "format s args = fold (\<lambda>(i, arg) s. js_replace s (''{'' @ dec_nat i @ ''}'') arg) (enumerate 0 args) s"

definition notify :: "notify_type \<Rightarrow> string list \<Rightarrow> nat \<Rightarrow> notification \<times> nat" where
  "notify type args counter =
    (let s = (case args of [] \<Rightarrow> '''' | a # _ \<Rightarrow> a); n = Suc counter
     in (\<lparr>nt_id = ''notification'' @ dec_nat n, nt_type = type, nt_message = format s (drop 1 args)\<rparr>, n))"

text \<open>An error as a string.\<close>

definition error_string :: "err_obj \<Rightarrow> string" where
  "error_string e = (if er_name e = '''' then er_message e
     else if er_message e = '''' then er_name e else er_name e @ '': '' @ er_message e)"

datatype notification_action =
    NOTIFY notification
  | NOTIFY_DISMISS string
  | NOTIFY_CLEAR
  | REJECTED err_obj
  | OTHER

type_synonym notification_state = "notification obj"

fun handleNotifications :: "notification_action \<Rightarrow> notification_state \<Rightarrow> notification_state" where
  "handleNotifications (NOTIFY payload) st = oset (nt_id payload) payload st"
| "handleNotifications (NOTIFY_DISMISS nid) st = filter (\<lambda>(k, _). k \<noteq> nid) st"
| "handleNotifications NOTIFY_CLEAR st = []"
| "handleNotifications _ st = st"

fun notifications :: "notification_action \<Rightarrow> notification_state \<times> nat \<Rightarrow> notification_state \<times> nat" where
  "notifications (REJECTED e) (st, counter) =
    (let (n, counter) = notify NotifyError [error_string e] counter in (handleNotifications (NOTIFY n) st, counter))"
| "notifications action (st, counter) = (handleNotifications action st, counter)"

datatype notice = Show notify_type "string list" | Dismiss string | Clear | Fail err_obj

fun notice_step :: "notification_state \<times> nat \<Rightarrow> notice \<Rightarrow> notification_state \<times> nat" where
  "notice_step (st, counter) (Show type args) =
    (let (n, counter) = notify type args counter in notifications (NOTIFY n) (st, counter))"
| "notice_step sc (Dismiss nid) = notifications (NOTIFY_DISMISS nid) sc"
| "notice_step sc Clear = notifications NOTIFY_CLEAR sc"
| "notice_step sc (Fail e) = notifications (REJECTED e) sc"

definition notices_inv :: "notification_state \<times> nat \<Rightarrow> bool" where
  "notices_inv sc \<longleftrightarrow> (\<forall>k \<in> set (okeys (fst sc)). \<exists>n \<le> snd sc. k = ''notification'' @ dec_nat n)"

lemma oset_fresh: "k \<notin> set (okeys ob) \<Longrightarrow> oset k v ob = ob @ [(k, v)]"
  by (induction ob) auto

lemma fresh_id: "notices_inv (st, c) \<Longrightarrow> ''notification'' @ dec_nat (Suc c) \<notin> set (okeys st)"
  by (auto simp: notices_inv_def dec_nat_inject dest!: bspec)

lemma show_step:
  assumes "notices_inv (st, c)"
  shows "notice_step (st, c) (Show type args) =
    (st @ [(nt_id (fst (notify type args c)), fst (notify type args c))], Suc c)"
  using oset_fresh [OF fresh_id [OF assms]] by (simp add: notify_def Let_def)

lemma fail_step: "notice_step sc (Fail e) = notice_step sc (Show NotifyError [error_string e])"
  by (cases sc) (simp add: Let_def split: prod.split)

lemma notices_inv_show:
  assumes "notices_inv (st, c)"
  shows "notices_inv (notice_step (st, c) (Show type args))"
  unfolding show_step [OF assms] notices_inv_def
proof
  let ?n = "fst (notify type args c)"
  fix k assume "k \<in> set (okeys (fst (st @ [(nt_id ?n, ?n)], Suc c)))"
  then consider "k \<in> set (okeys st)" | "k = ''notification'' @ dec_nat (Suc c)"
    by (auto simp: notify_def Let_def)
  then show "\<exists>n \<le> snd (st @ [(nt_id ?n, ?n)], Suc c). k = ''notification'' @ dec_nat n"
  proof cases
    case 1
    then obtain n where "n \<le> c" "k = ''notification'' @ dec_nat n"
      using assms unfolding notices_inv_def fst_conv snd_conv by blast
    then show ?thesis by (intro exI [of _ n]) simp
  qed auto
qed

lemma notices_inv_step:
  assumes "notices_inv sc"
  shows "notices_inv (notice_step sc e)"
proof -
  obtain st c where sc: "sc = (st, c)" by fastforce
  note inv = assms [unfolded sc]
  show ?thesis
  proof (cases e)
    case (Show type args)
    then show ?thesis using notices_inv_show [OF inv] by (simp only: sc)
  next
    case (Fail err)
    then show ?thesis using notices_inv_show [OF inv] by (simp only: sc fail_step)
  next
    case (Dismiss nid)
    then show ?thesis using inv by (auto simp: sc notices_inv_def)
  qed (simp add: sc notices_inv_def)
qed

interpretation notices: machine notice_step "\<lambda>_ _. True" notices_inv
  by unfold_locales (simp add: notices_inv_step)

text \<open>
  Whatever was shown, dismissed or cleared before, showing a notification appends it as the
  last one and overwrites none; a failed asynchronous action shows its error the same way; and
  dismissing the new notification restores the list.
\<close>

lemma show_appends:
  assumes "sc = run notice_step ([], c) notices"
  shows "(let n = fst (notify type args (snd sc)) in
      fst (notice_step sc (Show type args)) = fst sc @ [(nt_id n, n)] \<and>
      fst (notice_step (notice_step sc (Show type args)) (Dismiss (nt_id n))) = fst sc) \<and>
    notice_step sc (Fail e) = notice_step sc (Show NotifyError [error_string e])"
proof -
  obtain st d where sc: "sc = (st, d)" by fastforce
  have "notices_inv ([], c)" by (simp add: notices_inv_def)
  then have inv: "notices_inv (st, d)"
    using notices.run_inv [of "([], c)" notices] assms sc by (simp add: list_all_iff)
  let ?n = "fst (notify type args d)"
  have "nt_id ?n \<notin> set (okeys st)" using fresh_id [OF inv] by (simp add: notify_def Let_def)
  then have "filter (\<lambda>(k, _). k \<noteq> nt_id ?n) (st @ [(nt_id ?n, ?n)]) = st"
    by (force simp: filter_id_conv)
  then show ?thesis unfolding sc by (simp add: show_step [OF inv] fail_step Let_def del: notice_step.simps(1,4))
qed

lemma dec_nat_small: "dec_nat (Suc 0) = ''1''" "dec_nat (Suc (Suc 0)) = ''2''"
  by code_simp+

section \<open>Chat messages\<close>

record base64_file =
  fl_name :: string
  fl_size :: nat
  fl_type :: string
  fl_data :: string

datatype message_body = TextBody string | FileBody base64_file | OtherBody

record chat_message =
  cm_userId :: string
  cm_body :: message_body
  cm_timestamp :: string

record message =
  ms_userId :: string
  ms_message :: string
  ms_timestamp :: string
  ms_data :: "string option"
  ms_image :: bool
  ms_system :: bool

record messages_state =
  msg_list :: "message list"
  msg_count :: nat

definition messages_default :: messages_state where
  "messages_default = \<lparr>msg_list = [], msg_count = 0\<rparr>"

definition convertNotificationToMessage :: "string \<Rightarrow> notification \<Rightarrow> message" where
  "convertNotificationToMessage now n = \<lparr>ms_userId = ''[PeerCalls]'', ms_message = nt_message n,
     ms_timestamp = now, ms_data = None, ms_image = False, ms_system = True\<rparr>"

definition imageRegexp :: "string \<Rightarrow> bool" where
  "imageRegexp s \<longleftrightarrow> (\<exists>ext \<in> set [''png'', ''jpg'', ''jpeg'', ''gif''].
     let p = ''data:image/'' @ ext @ '';base64'' in take (length p) s = p)"

definition handleMessage :: "(string \<Rightarrow> string) \<Rightarrow> chat_message \<Rightarrow> messages_state \<Rightarrow> messages_state" where
  "handleMessage toLocale payload st =
    (let count = Suc (msg_count st); time = toLocale (cm_timestamp payload) in
     case cm_body payload of
       FileBody f \<Rightarrow> st\<lparr>msg_count := count, msg_list := msg_list st @
         [\<lparr>ms_userId = cm_userId payload, ms_message = fl_name f, ms_timestamp = time, ms_data = Some (fl_data f),
           ms_image = imageRegexp (fl_data f), ms_system = False\<rparr>]\<rparr>
     | TextBody t \<Rightarrow> st\<lparr>msg_count := count, msg_list := msg_list st @
         [\<lparr>ms_userId = cm_userId payload, ms_message = t, ms_timestamp = time, ms_data = None,
           ms_image = False, ms_system = False\<rparr>]\<rparr>
     | OtherBody \<Rightarrow> st)"

datatype chat_action = CHAT_NOTIFY string notification | MESSAGE_ADD chat_message | CHAT_OTHER

fun messages :: "(string \<Rightarrow> string) \<Rightarrow> messages_state \<Rightarrow> chat_action \<Rightarrow> messages_state" where
  "messages toLocale st (CHAT_NOTIFY now n) = st\<lparr>msg_list := msg_list st @ [convertNotificationToMessage now n]\<rparr>"
| "messages toLocale st (MESSAGE_ADD payload) = handleMessage toLocale payload st"
| "messages toLocale st CHAT_OTHER = st"

text \<open>
  The count of chat messages is the number of listed messages that are not system messages,
  after every sequence of actions; nothing is ever removed from the list or reordered.
\<close>

lemma message_count:
  "msg_count (run (messages toLocale) messages_default actions) =
     length (filter (\<lambda>m. \<not> ms_system m) (msg_list (run (messages toLocale) messages_default actions))) \<and>
   (\<exists>new. msg_list (run (messages toLocale) messages_default (actions @ later)) =
     msg_list (run (messages toLocale) messages_default actions) @ new)"
proof
  have step: "\<exists>new. msg_list (messages toLocale st a) = msg_list st @ new \<and>
      msg_count (messages toLocale st a) = msg_count st + length (filter (\<lambda>m. \<not> ms_system m) new)" for st a
    by (cases a) (auto simp: handleMessage_def Let_def convertNotificationToMessage_def split: message_body.split)
  have runs: "\<exists>new. msg_list (run (messages toLocale) st as) = msg_list st @ new \<and>
      msg_count (run (messages toLocale) st as) = msg_count st + length (filter (\<lambda>m. \<not> ms_system m) new)" for st as
  proof (induction as arbitrary: st)
    case (Cons a as)
    show ?case using step [of st a] Cons.IH [of "messages toLocale st a"] by auto
  qed simp
  show "msg_count (run (messages toLocale) messages_default actions) =
      length (filter (\<lambda>m. \<not> ms_system m) (msg_list (run (messages toLocale) messages_default actions)))"
    using runs [of messages_default actions] by (auto simp: messages_default_def)
  show "\<exists>new. msg_list (run (messages toLocale) messages_default (actions @ later)) =
      msg_list (run (messages toLocale) messages_default actions) @ new"
    using runs [of "run (messages toLocale) messages_default actions" later] by auto
qed

section \<open>Minimised videos\<close>

definition getStreamKey :: "string \<Rightarrow> string option \<Rightarrow> string" where
  "getStreamKey userId streamId = userId @ ''_'' @ (case streamId of None \<Rightarrow> ''undefined'' | Some s \<Rightarrow> s)"

type_synonym window_states = "unit obj"

definition unminimize :: "window_states \<Rightarrow> string \<Rightarrow> window_states" where
  "unminimize st key = odel key st"

definition minimize :: "window_states \<Rightarrow> string \<Rightarrow> window_states" where
  "minimize st key = oset key () st"

definition minimizeToggle :: "window_states \<Rightarrow> string \<Rightarrow> string option \<Rightarrow> window_states" where
  "minimizeToggle st userId streamId =
    (let key = getStreamKey userId streamId
     in if oget st key \<noteq> None then unminimize st key else minimize st key)"

text \<open>
  Toggling a video changes its state and, done twice, restores the states of all videos.
  Videos of one user never share a state; two videos of different users can, because the user
  and the stream identifier are joined by an underscore that both may contain.
\<close>

lemma minimize_toggle:
  "(oget (minimizeToggle st u s) (getStreamKey u s) = None \<longleftrightarrow> oget st (getStreamKey u s) \<noteq> None) \<and>
   oget (minimizeToggle (minimizeToggle st u s) u s) k = oget st k \<and>
   (getStreamKey u (Some s1) = getStreamKey u (Some s2) \<longleftrightarrow> s1 = s2) \<and>
   getStreamKey ''a_b'' (Some ''c'') = getStreamKey ''a'' (Some ''b_c'')"
  by (cases "oget st (getStreamKey u s)")
    (auto simp: minimizeToggle_def unminimize_def minimize_def getStreamKey_def Let_def)

end
