(* ===== verification/Store.thy ===== *)
theory Store
  imports Peers Media Room
begin

text \<open>
  The redux store of the client (\<open>reducers/index.ts\<close>, \<open>store.ts\<close>): one record with a field per
  slice, one datatype of the actions the action creators build, and \<open>reducers\<close>, which runs the
  reducers of the slices in the order of \<open>combineReducers\<close>. A reducer that throws leaves all slices
  as they were, but not the browser objects it changed before. On top of it stand the theorems that
  need several slices: hanging up, a peer that leaves, and the invariant of the remote streams in
  the presence of the peers reducer, which changes local streams.
\<close>

section \<open>Actions\<close>

datatype action =
    NotificationAdd notification
  | NotificationDismiss string
  | NotificationClear
  | MessageAdd chat_message
  | NicknamesSet "string obj"
  | NicknameRemove string
  | AddPeer string nat
  | RemovePeer string
  | AddCreatorId string
  | RecordStatus bool
  | DialAction "unit async_action"
  | HangUp
  | SocketConnected
  | SocketDisconnected
  | MediaEnumerate "media_device list async_action"
  | VideoConstraint video_constraint
  | AudioConstraint audio_constraint
  | MediaStreamAction "(stream_type \<times> nat) async_action"
  | MediaTrackAction "media_track_payload async_action"
  | MediaTrackEnable media_kind stream_type
  | MediaPlay "unit async_action"
  | RemoveLocalStream nat stream_type
  | MinimizeToggle string "string option"
  | RemoveTrackAction track
  | AddTrackAction add_track_payload
  | TracksMetadata metadata_payload
  | RecordLocalStream string string string
  | StopRecordLocalStream

section \<open>What each reducer takes from an action\<close>

text \<open>The error of an action that carries the status \<open>rejected\<close>.\<close>

fun async_error :: "'p async_action \<Rightarrow> err_obj option" where
  "async_error (Rejected e) = Some e"
| "async_error _ = None"

fun rejection :: "action \<Rightarrow> err_obj option" where
  "rejection (DialAction a) = async_error a"
| "rejection (MediaEnumerate a) = async_error a"
| "rejection (MediaStreamAction a) = async_error a"
| "rejection (MediaTrackAction a) = async_error a"
| "rejection (MediaPlay a) = async_error a"
| "rejection _ = None"

fun to_notifications :: "action \<Rightarrow> notification_action" where
  "to_notifications (NotificationAdd n) = NOTIFY n"
| "to_notifications (NotificationDismiss nid) = NOTIFY_DISMISS nid"
| "to_notifications NotificationClear = NOTIFY_CLEAR"
| "to_notifications a = (case rejection a of Some e \<Rightarrow> REJECTED e | None \<Rightarrow> notification_action.OTHER)"

fun to_messages :: "string \<Rightarrow> action \<Rightarrow> chat_action" where
  "to_messages now (NotificationAdd n) = CHAT_NOTIFY now n"
| "to_messages now (MessageAdd m) = MESSAGE_ADD m"
| "to_messages now _ = CHAT_OTHER"

fun to_media :: "action \<Rightarrow> media_action option" where
  "to_media (MediaEnumerate a) = Some (MEDIA_ENUMERATE a)"
| "to_media (AudioConstraint c) = Some (MEDIA_AUDIO_CONSTRAINT_SET c)"
| "to_media (VideoConstraint c) = Some (MEDIA_VIDEO_CONSTRAINT_SET c)"
| "to_media (MediaStreamAction a) = Some (media_action.MEDIA_STREAM (map_async_action (\<lambda>_. ()) a))"
| "to_media (MediaPlay a) = Some (MEDIA_PLAY a)"
| "to_media (RecordStatus b) = Some (CALL_RECORD b)"
| "to_media (DialAction a) = Some (DIAL a)"
| "to_media (AddCreatorId c) = Some (CREATOR_ID_ADD c)"
| "to_media SocketConnected = Some SOCKET_CONNECTED"
| "to_media SocketDisconnected = Some SOCKET_DISCONNECTED"
| "to_media HangUp = Some media_action.HANG_UP"
| "to_media _ = None"

fun to_nicknames :: "action \<Rightarrow> nickname_action option" where
  "to_nicknames (RemovePeer u) = Some (nickname_action.PEER_REMOVE u)"
| "to_nicknames HangUp = Some nickname_action.HANG_UP"
| "to_nicknames (NicknameRemove u) = Some (nickname_action.NICKNAME_REMOVE u)"
| "to_nicknames (NicknamesSet ns) = Some (NICKNAMES_SET ns)"
| "to_nicknames _ = None"

fun to_peers :: "action \<Rightarrow> peers_action option" where
  "to_peers (AddPeer u p) = Some (PEER_ADD u p)"
| "to_peers (RemovePeer u) = Some (peers_action.PEER_REMOVE u)"
| "to_peers HangUp = Some peers_action.HANG_UP"
| "to_peers (RemoveLocalStream s t) = Some (peers_action.STREAM_REMOVE s)"
| "to_peers (MediaStreamAction a) = Some (peers_action.MEDIA_STREAM a)"
| "to_peers (MediaTrackAction a) = Some (peers_action.MEDIA_TRACK a)"
| "to_peers (MediaTrackEnable k t) = Some (MEDIA_TRACK_ENABLE k t)"
| "to_peers _ = None"

fun to_streams :: "action \<Rightarrow> stream_action" where
  "to_streams (RemoveLocalStream s t) = stream_action.STREAM_REMOVE t"
| "to_streams (AddTrackAction p) = STREAM_TRACK_ADD p"
| "to_streams (RemoveTrackAction tr) = STREAM_TRACK_REMOVE tr"
| "to_streams (RecordLocalStream url room u) = STREAM_LOCAL_RECORD url room u"
| "to_streams StopRecordLocalStream = STREAM_LOCAL_STOP_RECORD"
| "to_streams (NicknameRemove u) = stream_action.NICKNAME_REMOVE u"
| "to_streams (TracksMetadata m) = TRACKS_METADATA m"
| "to_streams (RemovePeer u) = stream_action.PEER_REMOVE u"
| "to_streams HangUp = stream_action.HANG_UP"
| "to_streams (MediaStreamAction a) = stream_action.MEDIA_STREAM a"
| "to_streams (MediaTrackAction a) = stream_action.MEDIA_TRACK a"
| "to_streams _ = stream_action.OTHER"

section \<open>The store\<close>

text \<open>What the reducers take from outside: the methods of peers and browser objects, the present
  time and the dates as the locale prints them, and the user's identifier from the page.\<close>

record 'p store_env =
  se_peer :: peer_env
  se_browser :: "'p browser"
  se_now :: string
  se_locale :: "string \<Rightarrow> string"
  se_me :: string

record 'p store =
  s_notifications :: notification_state
  s_messages :: messages_state
  s_media :: media_state
  s_nicknames :: nicknames
  s_peers :: peers_state
  s_streams :: streams_state
  s_windowStates :: window_states
  s_counter :: nat
  s_world :: "'p peer_world"

abbreviation s_sw :: "'p store \<Rightarrow> 'p sw" where
  "s_sw s \<equiv> (s_streams s, pw_streams (s_world s))"

definition windowStates :: "window_states \<Rightarrow> action \<Rightarrow> window_states" where
  "windowStates st action = (case action of
      MinimizeToggle userId streamId \<Rightarrow> minimizeToggle st userId streamId
    | _ \<Rightarrow> st)"

definition peers_slice ::
  "'p store_env \<Rightarrow> action \<Rightarrow> 'p store \<Rightarrow> js_error option \<times> peers_state \<times> 'p peer_world"
where
  "peers_slice env action s = (case to_peers action of
      None \<Rightarrow> (None, s_peers s, s_world s)
    | Some a \<Rightarrow> Peers.peers (se_peer env) a (s_peers s, s_world s))"

text \<open>\<open>combineReducers\<close> of \<open>reducers/index.ts\<close>.\<close>

definition reducers :: "'p store_env \<Rightarrow> action \<Rightarrow> 'p store \<Rightarrow> js_error option \<times> 'p store" where
  "reducers env action s =
    (let (ns, counter) = Room.notifications (to_notifications action) (s_notifications s, s_counter s);
         ms = messages (se_locale env) (s_messages s) (to_messages (se_now env) action);
         md = (case to_media action of None \<Rightarrow> s_media s | Some a \<Rightarrow> media (s_media s) a);
         nk = (case to_nicknames action of None \<Rightarrow> s_nicknames s | Some a \<Rightarrow> Room.nicknames (se_me env) (s_nicknames s) a)
     in case peers_slice env action s of
       (Some e, ps, w) \<Rightarrow> (Some e, s\<lparr>s_counter := counter, s_world := w\<rparr>)
     | (None, ps, w) \<Rightarrow>
         (case streams (se_browser env) (to_streams action) (s_streams s, pw_streams w) of
            (Inl e, sw) \<Rightarrow> (Some e, s\<lparr>s_counter := counter, s_world := w\<lparr>pw_streams := sw\<rparr>\<rparr>)
          | (Inr st, sw) \<Rightarrow>
              (None, \<lparr>s_notifications = ns, s_messages = ms, s_media = md, s_nicknames = nk, s_peers = ps,
                      s_streams = st, s_windowStates = windowStates (s_windowStates s) action,
                      s_counter = counter, s_world = w\<lparr>pw_streams := sw\<rparr>\<rparr>)))"

text \<open>The state after \<open>createStore\<close>: every slice has its default; \<open>stored\<close> is the nickname in the
  local storage and \<open>nickname\<close> the one of the page.\<close>

definition initial_store :: "string option \<Rightarrow> string \<Rightarrow> 'p peer_world \<Rightarrow> 'p store" where
  "initial_store stored nickname w =
    \<lparr>s_notifications = [], s_messages = messages_default, s_media = media_default,
     s_nicknames = nicknames_default stored nickname, s_peers = [], s_streams = defaultState,
     s_windowStates = [], s_counter = 0, s_world = w\<rparr>"

text \<open>\<open>dispatch(NotifyActions.info(...))\<close> and its siblings.\<close>

definition dispatch_notify ::
  "'p store_env \<Rightarrow> notify_type \<Rightarrow> string list \<Rightarrow> 'p store \<Rightarrow> js_error option \<times> 'p store"
where
  "dispatch_notify env type args s =
    (let (n, counter) = notify type args (s_counter s)
     in reducers env (NotificationAdd n) (s\<lparr>s_counter := counter\<rparr>))"

section \<open>Remote and local streams do not meet\<close>

text \<open>\<open>held\<close> is the set of the media streams of remote users. \<open>outside\<close> compares two states of the
  streams reducer: a stream that exists already and is no remote stream does not become one, and its
  tracks stay.\<close>

definition held :: "'p sw \<Rightarrow> nat set" where
  "held sw = (\<Union>(u, us) \<in> set (streamsByUserId (fst sw)). sw_stream ` set (us_streams us))"

definition outside :: "'p sw \<Rightarrow> 'p sw \<Rightarrow> bool" where
  "outside sw sw' \<longleftrightarrow> nextStream (snd sw) \<le> nextStream (snd sw') \<and>
     held sw' \<subseteq> held sw \<union> {nextStream (snd sw)..} \<and>
     (\<forall>a. a < nextStream (snd sw) \<and> a \<notin> held sw \<longrightarrow> heap (snd sw') a = heap (snd sw) a)"

lemma outside_refl [simp]: "outside sw sw"
  by (simp add: outside_def)

lemma outsideD:
  assumes "outside sw sw'"
  shows "nextStream (snd sw) \<le> nextStream (snd sw')"
    and "a \<in> held sw' \<Longrightarrow> a \<in> held sw \<or> nextStream (snd sw) \<le> a"
    and "a < nextStream (snd sw) \<Longrightarrow> a \<notin> held sw \<Longrightarrow> heap (snd sw') a = heap (snd sw) a"
  using assms by (auto simp: outside_def)

lemma outsideI:
  assumes "nextStream (snd sw) \<le> nextStream (snd sw')"
    and "\<And>a. a \<in> held sw' \<Longrightarrow> a \<in> held sw \<or> nextStream (snd sw) \<le> a"
    and "\<And>a. a < nextStream (snd sw) \<Longrightarrow> a \<notin> held sw \<Longrightarrow> heap (snd sw') a = heap (snd sw) a"
  shows "outside sw sw'"
  unfolding outside_def using assms by auto

lemma outside_trans:
  assumes ab: "outside a b" and bc: "outside b c"
  shows "outside a c"
proof (rule outsideI)
  show "nextStream (snd a) \<le> nextStream (snd c)" using outsideD(1) [OF ab] outsideD(1) [OF bc] by simp
next
  fix x assume "x \<in> held c"
  then have "x \<in> held b \<or> nextStream (snd b) \<le> x" by (rule outsideD(2) [OF bc])
  then show "x \<in> held a \<or> nextStream (snd a) \<le> x"
    using outsideD(2) [OF ab, of x] outsideD(1) [OF ab] by auto
next
  fix x assume x: "x < nextStream (snd a)" "x \<notin> held a"
  then have "x \<notin> held b" using outsideD(2) [OF ab, of x] by auto
  then show "heap (snd c) x = heap (snd a) x"
    using outsideD(3) [OF ab x] outsideD(3) [OF bc, of x] outsideD(1) [OF ab] x(1) by simp
qed

lemma outside_fold:
  "(\<And>x sw. x \<in> set xs \<Longrightarrow> outside sw (f x sw)) \<Longrightarrow> outside sw (fold f xs sw)"
proof (induction xs arbitrary: sw)
  case (Cons x xs)
  have "outside sw (f x sw)" using Cons.prems by simp
  moreover have "outside (f x sw) (fold f xs (f x sw))" using Cons.prems by (intro Cons.IH) simp
  ultimately show ?case by (simp add: outside_trans)
qed simp

lemma outside_same: "same_tracks sw' sw \<Longrightarrow> outside sw sw'"
  by (simp add: same_tracks_def outside_def held_def)

lemma held_get: "oget (streamsByUserId (fst sw)) u = Some us \<Longrightarrow> s \<in> set (us_streams us) \<Longrightarrow> sw_stream s \<in> held sw"
  by (fastforce simp: held_def dest: map_of_SomeD)

lemma set_oset: "set (oset k v ob) \<subseteq> insert (k, v) (set ob)"
  by (induction ob) auto

lemma held_oset:
  "held (st\<lparr>streamsByUserId := oset u us ob\<rparr>, w) \<subseteq>
     (\<Union>(u, us) \<in> set ob. sw_stream ` set (us_streams us)) \<union> sw_stream ` set (us_streams us)"
  using set_oset [of u us ob] by (fastforce simp: held_def)

lemma held_simps [simp]:
  "held (st\<lparr>trackIdToPeerIdMid := x\<rparr>, w) = held (st, w)"
  "held (st\<lparr>tracksByPeerIdMid := y\<rparr>, w) = held (st, w)"
  "held (st\<lparr>metadataByPeerIdMid := z\<rparr>, w) = held (st, w)"
  by (simp_all add: held_def)

lemma addTrack_outside: "outside sw (addTrack br p sw)"
proof -
  obtain st w where sw: "sw = (st, w)" by fastforce
  let ?a = "Streams.getUserId st p"
  let ?us = "case oget (streamsByUserId st) (ta_userId ?a) of Some us \<Rightarrow> us
    | None \<Rightarrow> \<lparr>us_userId = ta_userId ?a, us_streams = []\<rparr>"
  have us: "sw_stream s \<in> held sw" if "s \<in> set (us_streams ?us)" for s
    using that held_get [of sw "ta_userId ?a" _ s] by (auto simp: sw split: option.splits)
  have sub: "held (addTrack br p sw) \<subseteq> held sw \<union> sw_stream ` set X"
    if "streamsByUserId (fst (addTrack br p sw)) = oset u (us\<lparr>us_streams := X\<rparr>) (streamsByUserId st)" for u us X
    using that set_oset [of u "us\<lparr>us_streams := X\<rparr>" "streamsByUserId st"] by (fastforce simp: held_def sw)
  show ?thesis
  proof (cases "List.find (\<lambda>s. sw_streamId s = ta_streamId ?a) (us_streams ?us)")
    case None
    let ?X = "us_streams ?us @ [\<lparr>sw_stream = nextStream w, sw_streamId = ta_streamId ?a, sw_url = objectURL br (nextStream w)\<rparr>]"
    have eq: "streamsByUserId (fst (addTrack br p sw)) = oset (ta_userId ?a) (?us\<lparr>us_streams := ?X\<rparr>) (streamsByUserId st)"
      "nextStream (snd (addTrack br p sw)) = Suc (nextStream w)"
      "heap (snd (addTrack br p sw)) = (heap w)(nextStream w := [at_track p])"
      using None by (simp_all add: addTrack_def sw Let_def stream_addTrack_def)
    show ?thesis
      using sub [OF eq(1)] us by (intro outsideI) (auto simp: eq(2,3) [unfolded sw] sw)
  next
    case (Some s)
    have eq: "streamsByUserId (fst (addTrack br p sw)) = oset (ta_userId ?a) (?us\<lparr>us_streams := us_streams ?us\<rparr>) (streamsByUserId st)"
      "snd (addTrack br p sw) = stream_addTrack (sw_stream s) (at_track p) w"
      using Some by (simp_all add: addTrack_def sw Let_def)
    have "sw_stream s \<in> held sw" using us find_Some_in [OF Some] by blast
    then show ?thesis
      using sub [OF eq(1)] us by (intro outsideI) (auto simp: eq(2) [unfolded sw] sw stream_addTrack_def)
  qed
qed

lemma removeTrack_cases:
  obtains "removeTrack tr sw = sw"
  | u us s X tracks where "oget (streamsByUserId (fst sw)) u = Some us" and "s \<in> set (us_streams us)"
    and "set X \<subseteq> set (us_streams us)"
    and "streamsByUserId (fst (removeTrack tr sw)) = oset u (us\<lparr>us_streams := X\<rparr>) (streamsByUserId (fst sw)) \<or>
         streamsByUserId (fst (removeTrack tr sw)) = omit (streamsByUserId (fst sw)) [u]"
    and "heap (snd (removeTrack tr sw)) = heap (stream_removeTrack (sw_stream s) tr (snd sw))"
    and "nextStream (snd (removeTrack tr sw)) = nextStream (snd sw)"
    and "localStreams (fst (removeTrack tr sw)) = localStreams (fst sw)"
proof -
  obtain st w where sw: "sw = (st, w)" by fastforce
  let ?key = "key_string (oget (trackIdToPeerIdMid st) (tr_id tr))"
  show thesis
  proof (cases "\<exists>t a us s. oget (tracksByPeerIdMid st) ?key = Some t \<and> ti_association t = Some a \<and>
      oget (streamsByUserId st) (ta_userId a) = Some us \<and>
      List.find (\<lambda>s. sw_streamId s = ta_streamId a) (us_streams us) = Some s")
    case False
    then have "removeTrack tr sw = sw"
      by (fastforce simp: removeTrack_def sw Let_def split: option.split)
    then show thesis by (rule that(1))
  next
    case True
    then obtain t a us s where c: "oget (tracksByPeerIdMid st) ?key = Some t" "ti_association t = Some a"
      "oget (streamsByUserId st) (ta_userId a) = Some us"
      "List.find (\<lambda>s. sw_streamId s = ta_streamId a) (us_streams us) = Some s" by blast
    let ?X = "if heap (stream_removeTrack (sw_stream s) tr w) (sw_stream s) = []
      then filter (\<lambda>s'. s' \<noteq> s) (us_streams us) else us_streams us"
    show thesis
      by (rule that(2) [of "ta_userId a" us s ?X])
        (use c find_Some_in [OF c(4)] in \<open>auto simp: removeTrack_def sw Let_def\<close>)
  qed
qed

lemma removeTrack_outside: "outside sw (removeTrack tr sw)"
proof (rule removeTrack_cases [of tr sw])
  fix u us s X
  assume us: "oget (streamsByUserId (fst sw)) u = Some us" and s: "s \<in> set (us_streams us)"
    and X: "set X \<subseteq> set (us_streams us)"
    and "streamsByUserId (fst (removeTrack tr sw)) = oset u (us\<lparr>us_streams := X\<rparr>) (streamsByUserId (fst sw)) \<or>
         streamsByUserId (fst (removeTrack tr sw)) = omit (streamsByUserId (fst sw)) [u]"
    and heap: "heap (snd (removeTrack tr sw)) = heap (stream_removeTrack (sw_stream s) tr (snd sw))"
    and n: "nextStream (snd (removeTrack tr sw)) = nextStream (snd sw)"
  then have "held (removeTrack tr sw) \<subseteq> held sw \<union> sw_stream ` set X"
    using set_oset [of u "us\<lparr>us_streams := X\<rparr>" "streamsByUserId (fst sw)"]
    by (fastforce simp: held_def omit_def)
  moreover have "sw_stream ` set (us_streams us) \<subseteq> held sw" using held_get [OF us] by blast
  ultimately show ?thesis
    using X held_get [OF us s] by (intro outsideI) (auto simp: heap n)
qed simp

text \<open>\<open>touches A\<close>: nothing but tracks of the streams in \<open>A\<close> was changed.\<close>

definition touches :: "nat set \<Rightarrow> 'p stream_world \<Rightarrow> 'p stream_world \<Rightarrow> bool" where
  "touches A w w' \<longleftrightarrow> nextStream w' = nextStream w \<and> (\<forall>a. a \<notin> A \<longrightarrow> heap w' a = heap w a)"

lemma touches_tracks:
  "unassociate_tracks st a ts (acc, w) = (e, acc', w') \<Longrightarrow> a \<in> A \<Longrightarrow> touches A w w'"
  by (induction ts arbitrary: acc w) (auto simp: touches_def Let_def split: option.splits)

lemma touches_streams:
  assumes "unassociate_streams st ss (acc, w) = (e, acc', w')" and "sw_stream ` set ss \<subseteq> A"
  shows "touches A w w'"
  using assms
proof (induction ss arbitrary: acc w)
  case (Cons s ss)
  obtain e1 acc1 w1 where one: "unassociate_tracks st (sw_stream s) (heap w (sw_stream s)) (acc, w) = (e1, acc1, w1)"
    by (metis prod_cases3)
  have "touches A w w1" using touches_tracks [OF one] Cons.prems(2) by simp
  moreover have "touches A w1 w'"
    using Cons.IH [of acc1 w1] Cons.prems one by (cases e1) (auto simp: touches_def)
  ultimately show ?case by (simp add: touches_def)
qed (simp add: touches_def)

lemma unassociate_outside:
  assumes "unassociateUserTracks u (st, w) = (r, w')"
  shows "outside (st, w) (case r of Inl e \<Rightarrow> st | Inr st' \<Rightarrow> st', w')"
proof (cases "oget (streamsByUserId st) u")
  case None
  then show ?thesis using assms by (auto simp: unassociateUserTracks_def)
next
  case (Some us)
  obtain e acc w1 where loop: "unassociate_streams st (us_streams us) ([], w) = (e, acc, w1)"
    by (metis prod_cases3)
  have "sw_stream ` set (us_streams us) \<subseteq> held (st, w)"
    using held_get [of "(st, w)" u us] Some by auto
  from touches_streams [OF loop this] have t: "touches (held (st, w)) w w1" .
  have "w' = w1"
    using assms loop Some by (auto simp: unassociateUserTracks_def split: option.splits)
  moreover have "held (case r of Inl e \<Rightarrow> st | Inr st' \<Rightarrow> st', w') \<subseteq> held (st, w)"
    using assms loop Some by (auto simp: unassociateUserTracks_def held_def omit_def split: option.splits)
  ultimately show ?thesis using t by (intro outsideI) (auto simp: touches_def)
qed

lemma setMetadata_outside: "outside sw (setMetadata br payload sw)"
proof -
  obtain st w where sw: "sw = (st, w)" by fastforce
  let ?md = "fold (\<lambda>md. oset (getPeerIdMid (mp_userId payload) (md_mid md)) md) (mp_metadata payload) []"
  obtain st1 w1 where one: "fold (drop_lost ?md) (tracksByPeerIdMid st) (st, w) = (st1, w1)" by fastforce
  have "outside (st, w) (fold (drop_lost ?md) (tracksByPeerIdMid st) (st, w))"
    by (rule outside_fold) (auto simp: drop_lost_def removeTrack_outside)
  moreover have "outside (st1, w1) (st1\<lparr>metadataByPeerIdMid := ?md\<rparr>, w1)"
    by (simp add: outside_def)
  moreover have "outside x (fold (apply_metadata br (mp_userId payload) (tracksByPeerIdMid st)) (mp_metadata payload) x)" for x
    by (rule outside_fold)
      (auto simp: apply_metadata_def Let_def intro: addTrack_outside outside_trans [OF removeTrack_outside addTrack_outside]
        split: option.split)
  ultimately show ?thesis
    unfolding sw setMetadata_loops Let_def one prod.case by (blast intro: outside_trans)
qed

lemma removePeer_outside:
  "wf_obj (tracksByPeerIdMid (fst sw)) \<Longrightarrow> outside sw (removePeer u sw)"
proof -
  assume wf: "wf_obj (tracksByPeerIdMid (fst sw))"
  obtain st w where sw: "sw = (st, w)" by fastforce
  have one: "outside x (forget_track t x)" for t and x :: "'a sw"
    using removeTrack_outside [of x "ti_track t"]
    by (cases "ti_association t") (auto simp: forget_track_def outside_def held_def)
  have two: "outside x (set_tracks T x)" for T and x :: "'a sw"
    by (simp add: outside_def held_def)
  let ?es = "filter (\<lambda>(k, t). startsWith k (u @ peerIdMidSeparator)) (tracksByPeerIdMid st)"
  have "outside (st, w) (fold (\<lambda>(k, t). forget_track t) ?es (st, w))"
    by (rule outside_fold) (auto simp: one)
  from outside_trans [OF this two] show ?thesis
    using removePeer_loop [of st u w] wf unfolding sw Let_def by simp
qed

lemma hang_up_keeps:
  "fst (hang_up br (st, w)) = defaultState" "heap (snd (hang_up br (st, w))) = heap w"
  "nextStream (snd (hang_up br (st, w))) = nextStream w"
proof -
  have stop: "heap (fold stopStream ss v) = heap v" "nextStream (fold stopStream ss v) = nextStream v"
    for ss :: "stream_with_url list" and v :: "'a stream_world"
    by (rule fold_keeps, simp)+
  have "heap (fold (\<lambda>(_, us). stopAllTracks (us_streams us)) xs v) = heap v"
    "nextStream (fold (\<lambda>(_, us). stopAllTracks (us_streams us)) xs v) = nextStream v"
    for xs :: "user_streams obj" and v :: "'a stream_world"
    by (rule fold_keeps, auto simp: stopAllTracks_def stop)+
  moreover have "heap (fold (\<lambda>(_, ls). stopStream ls) xs v) = heap v"
    "nextStream (fold (\<lambda>(_, ls). stopStream ls) xs v) = nextStream v"
    for xs :: "(stream_type \<times> local_stream) list" and v :: "'a stream_world"
    by (rule fold_keeps, auto)+
  moreover have "heap (destroy_peer br w) = heap w" "nextStream (destroy_peer br w) = nextStream w"
    by (simp_all add: destroy_peer_def split: option.split)
  ultimately show "fst (hang_up br (st, w)) = defaultState" "heap (snd (hang_up br (st, w))) = heap w"
    "nextStream (snd (hang_up br (st, w))) = nextStream w"
    by (simp_all add: hang_up_def Let_def)
qed

lemma dispatch_outside:
  assumes inv: "streams_inv sw"
  shows "outside sw (Streams.dispatch br sw action)"
proof -
  obtain st w where sw: "sw = (st, w)" by fastforce
  consider "local_action action" | p where "action = STREAM_TRACK_ADD p"
    | tr where "action = STREAM_TRACK_REMOVE tr" | u where "action = stream_action.NICKNAME_REMOVE u"
    | m where "action = TRACKS_METADATA m" | u where "action = stream_action.PEER_REMOVE u"
    | "action = stream_action.HANG_UP"
    by (cases action) simp_all
  then show ?thesis
  proof cases
    case 1
    then show ?thesis using outside_same [OF local_action_same] by (simp add: sw)
  next
    case (4 u)
    obtain r w' where r: "unassociateUserTracks u (st, w) = (r, w')" by fastforce
    then show ?thesis
      using unassociate_outside [OF r] by (simp add: 4 Streams.dispatch_def sw split: sum.splits)
  next
    case 6
    then show ?thesis using removePeer_outside [OF invD(2) [OF inv]] dispatch_returns [of br action sw] by simp
  next
    case 7
    then show ?thesis using hang_up_keeps [of br st w] dispatch_returns [of br action sw]
      by (simp add: sw outside_def held_def defaultState_def)
  qed (use dispatch_returns [of br action sw] in \<open>simp_all add: addTrack_outside removeTrack_outside setMetadata_outside\<close>)
qed

text \<open>What the peers reducer does to the browser objects, even if a call of a peer throws.\<close>

definition only_calls :: "'p peer_world \<Rightarrow> 'p peer_world \<Rightarrow> bool" where
  "only_calls w w' \<longleftrightarrow> pw_streams w' = pw_streams w \<and> pw_local w' = pw_local w"

lemma only_calls_refl: "only_calls w w"
  by (simp add: only_calls_def)

lemma only_calls_step [simp]:
  "only_calls w0 w \<Longrightarrow> only_calls w0 (snd (peer_call env c w))"
  "only_calls w0 w \<Longrightarrow> only_calls w0 (snd (removeTrackFromPeer env p s t w))"
  "only_calls w0 w \<Longrightarrow> only_calls w0 (snd (add_and_encrypt env p s t w))"
  by (simp_all add: only_calls_def peer_call_def removeTrackFromPeer_def add_and_encrypt_def Let_def)

lemma only_calls_loop:
  "(\<And>x w. only_calls w0 w \<Longrightarrow> only_calls w0 (snd (f x w))) \<Longrightarrow> only_calls w0 w \<Longrightarrow>
     only_calls w0 (snd (for_each f xs w))"
  by (rule for_each_keeps)

lemma handleRemoveLocalStream_only: "only_calls w (snd (handleRemoveLocalStream env st stream w))"
  unfolding handleRemoveLocalStream_def
  by (rule only_calls_loop) (auto simp: only_calls_refl intro!: only_calls_loop)

lemma handleConnect_only: "only_calls w (snd (handleConnect env p ls w))"
  unfolding handleConnect_def
  by (rule only_calls_loop) (auto simp: only_calls_refl intro!: only_calls_loop)

lemma handleLocalMediaStream_streams:
  "pw_streams (snd (handleLocalMediaStream env st action w)) = pw_streams w"
  "(case action of
      Resolved (type, stream) \<Rightarrow>
        pw_local (snd (handleLocalMediaStream env st action w)) = AList.update type stream (pw_local w)
    | _ \<Rightarrow> False) \<or> pw_local (snd (handleLocalMediaStream env st action w)) = pw_local w"
proof -
  have body: "only_calls w (snd (for_each (\<lambda>(_, peer) w.
         let (_, w) = (case map_of (pw_local w) type of
               None \<Rightarrow> (None, w)
             | Some l \<Rightarrow> for_each (removeTrackFromPeer env peer l) (tracks_in w l) w)
         in for_each (add_and_encrypt env peer stream) (tracks_in w stream) w) st w))" for type stream
  proof (rule only_calls_loop)
    fix x :: "string \<times> nat" and v assume v: "only_calls w v"
    have "only_calls w (snd (case map_of (pw_local v) type of None \<Rightarrow> (None, v)
        | Some l \<Rightarrow> for_each (removeTrackFromPeer env p l) (tracks_in v l) v))" for p
      using v by (auto intro!: only_calls_loop split: option.split)
    then show "only_calls w (snd ((case x of (_, peer) \<Rightarrow> \<lambda>w.
         let (_, w) = (case map_of (pw_local w) type of
               None \<Rightarrow> (None, w)
             | Some l \<Rightarrow> for_each (removeTrackFromPeer env peer l) (tracks_in w l) w)
         in for_each (add_and_encrypt env peer stream) (tracks_in w stream) w) v))"
      by (cases x) (auto simp: split_beta Let_def intro!: only_calls_loop)
  qed (rule only_calls_refl)
  have "pw_streams (snd (handleLocalMediaStream env st action w)) = pw_streams w \<and>
    ((case action of
      Resolved (type, stream) \<Rightarrow>
        pw_local (snd (handleLocalMediaStream env st action w)) = AList.update type stream (pw_local w)
    | _ \<Rightarrow> False) \<or> pw_local (snd (handleLocalMediaStream env st action w)) = pw_local w)"
  proof (cases action)
    case (Resolved ts)
    obtain type stream where ts: "ts = (type, stream)" by fastforce
    let ?r = "for_each (\<lambda>(_, peer) w.
         let (_, w) = (case map_of (pw_local w) type of
               None \<Rightarrow> (None, w)
             | Some l \<Rightarrow> for_each (removeTrackFromPeer env peer l) (tracks_in w l) w)
         in for_each (add_and_encrypt env peer stream) (tracks_in w stream) w) st w"
    obtain e w1 where r: "?r = (e, w1)" by fastforce
    then have h: "handleLocalMediaStream env st action w =
        (case e of None \<Rightarrow> (None, w1\<lparr>pw_local := AList.update type stream (pw_local w1)\<rparr>) | Some e \<Rightarrow> (Some e, w1))"
      by (simp add: handleLocalMediaStream_def Resolved ts split: option.split)
    show ?thesis
      using body [of type stream] r by (auto simp: h [unfolded Resolved ts] Resolved ts only_calls_def split: option.split)
  qed (simp_all add: handleLocalMediaStream_def)
  then show "pw_streams (snd (handleLocalMediaStream env st action w)) = pw_streams w"
    "(case action of
      Resolved (type, stream) \<Rightarrow>
        pw_local (snd (handleLocalMediaStream env st action w)) = AList.update type stream (pw_local w)
    | _ \<Rightarrow> False) \<or> pw_local (snd (handleLocalMediaStream env st action w)) = pw_local w" by blast+
qed

lemma handleLocalMediaTrack_touches:
  "touches (ran (map_of (pw_local w))) (pw_streams w) (pw_streams (snd (handleLocalMediaTrack env st action w)))"
    (is "?touches (handleLocalMediaTrack env st action w)")
  "pw_local (snd (handleLocalMediaTrack env st action w)) = pw_local w"
proof -
  have t: "touches A x (let y = stream_addTrack l n (stream_removeTrack l old x) in y\<lparr>stopped := stopped y @ [old]\<rparr>)"
    "touches A x (stream_addTrack l n x)" if "l \<in> A" for A l n old and x :: "'a stream_world"
    using that by (auto simp: touches_def stream_addTrack_def Let_def)
  have loop: "only_calls w (snd (for_each (\<lambda>(_, peer). peer_call env (c peer)) st w))"
    "only_calls w (snd (for_each (\<lambda>(_, peer). add_and_encrypt env peer l n) st w))" for c l n
    by (rule only_calls_loop; auto simp: only_calls_refl)+
  have refl: "touches A x x" for A and x :: "'a stream_world" by (simp add: touches_def)
  have "?touches (handleLocalMediaTrack env st action w) \<and>
      pw_local (snd (handleLocalMediaTrack env st action w)) = pw_local w"
  proof (cases "\<exists>p l. action = Resolved p \<and> map_of (pw_local w) (mt_type p) = Some l")
    case False
    then show ?thesis by (auto simp: handleLocalMediaTrack_def refl split: async_action.split option.split)
  next
    case True
    then obtain p l where a: "action = Resolved p" and l: "map_of (pw_local w) (mt_type p) = Some l" by blast
    have ran: "l \<in> ran (map_of (pw_local w))" using l by (rule ranI)
    show ?thesis
    proof (cases "getTracksByKind w l (mt_kind p)")
      case Nil
      show ?thesis
      proof (cases "mt_track p")
        case (Some n)
        then show ?thesis
          using loop(2) [of l n] t(2) [OF ran]
          by (auto simp: handleLocalMediaTrack_def a l Nil only_calls_def with_streams_def refl split: prod.splits option.splits)
      qed (simp add: handleLocalMediaTrack_def a l Nil refl)
    next
      case (Cons old rest)
      show ?thesis
      proof (cases "mt_track p")
        case (Some n)
        then show ?thesis
          using loop(1) [of "\<lambda>peer. ReplaceTrack peer old n l"] t(1) [OF ran]
          by (auto simp: handleLocalMediaTrack_def a l Cons only_calls_def with_streams_def refl split: prod.splits option.splits)
      qed (simp add: handleLocalMediaTrack_def a l Cons refl)
    qed
  qed
  then show "?touches (handleLocalMediaTrack env st action w)"
    "pw_local (snd (handleLocalMediaTrack env st action w)) = pw_local w" by blast+
qed

lemma peers_local:
  assumes "Peers.peers env a (st, w) = (e, st', w')"
  shows "touches (ran (map_of (pw_local w))) (pw_streams w) (pw_streams w')"
    and "map_of (pw_local w') type = Some l \<Longrightarrow> map_of (pw_local w) type = Some l \<or>
      (\<exists>type. a = peers_action.MEDIA_STREAM (Resolved (type, l)))"
proof -
  have same: "touches A v v'" if "pw_streams w' = pw_streams w" "v = pw_streams w" "v' = pw_streams w'" for A v v'
    using that by (simp add: touches_def)
  have "touches (ran (map_of (pw_local w))) (pw_streams w) (pw_streams w') \<and>
    (\<forall>type l. map_of (pw_local w') type = Some l \<longrightarrow> map_of (pw_local w) type = Some l \<or>
      (\<exists>type. a = peers_action.MEDIA_STREAM (Resolved (type, l))))"
  proof (cases a)
    case (STREAM_REMOVE s)
    then show ?thesis
      using assms handleRemoveLocalStream_only [of w env st s]
      by (auto simp: only_calls_def same split: prod.splits)
  next
    case (MEDIA_STREAM act)
    obtain e1 w1 where h: "handleLocalMediaStream env st act w = (e1, w1)" by fastforce
    then have "w' = w1" using assms MEDIA_STREAM by simp
    then show ?thesis
      using handleLocalMediaStream_streams [of env st act w] h
      by (auto simp: MEDIA_STREAM same update_conv split: async_action.splits prod.splits if_splits)
  next
    case (MEDIA_TRACK act)
    obtain e1 w1 where h: "handleLocalMediaTrack env st act w = (e1, w1)" by fastforce
    then have "w' = w1" using assms MEDIA_TRACK by simp
    then show ?thesis using handleLocalMediaTrack_touches [where w = w and env = env and st = st and action = act] h by simp
  next
    case (MEDIA_TRACK_ENABLE kind type)
    let ?en = "\<lambda>t w. w\<lparr>pw_enabled := (pw_enabled w)(t := True)\<rparr>"
    have "pw_streams (fold ?en ts w) = pw_streams w" "pw_local (fold ?en ts w) = pw_local w" for ts
      by (rule fold_keeps, simp)+
    then show ?thesis
      using assms by (auto simp: MEDIA_TRACK_ENABLE handleLocalMediaTrackEnable_def same split: option.splits)
  qed (use assms in \<open>auto simp: same\<close>)
  then show "touches (ran (map_of (pw_local w))) (pw_streams w) (pw_streams w')"
    "map_of (pw_local w') type = Some l \<Longrightarrow> map_of (pw_local w) type = Some l \<or>
      (\<exists>type. a = peers_action.MEDIA_STREAM (Resolved (type, l)))" by blast+
qed

section \<open>The invariant of the store\<close>

definition local_apart :: "'p store \<Rightarrow> bool" where
  "local_apart s \<longleftrightarrow> (\<forall>type l. map_of (pw_local (s_world s)) type = Some l \<longrightarrow>
     l < nextStream (pw_streams (s_world s)) \<and> l \<notin> held (s_sw s))"

definition store_inv :: "'p store \<Rightarrow> bool" where
  "store_inv s \<longleftrightarrow> streams_inv (s_sw s) \<and> local_apart s \<and> notices_inv (s_notifications s, s_counter s)"

text \<open>Which actions a state allows: the conditions of the streams reducer, a local stream is an
  existing stream of no remote user, and a notification has an identifier of \<open>uniqueId\<close>.\<close>

definition store_ok :: "'p store \<Rightarrow> action \<Rightarrow> bool" where
  "store_ok s a \<longleftrightarrow> action_ok (s_sw s) (to_streams a) \<and>
     (\<forall>type l. a = MediaStreamAction (Resolved (type, l)) \<longrightarrow>
        l < nextStream (pw_streams (s_world s)) \<and> l \<notin> held (s_sw s)) \<and>
     (\<forall>n. a = NotificationAdd n \<longrightarrow> (\<exists>k \<le> s_counter s. nt_id n = ''notification'' @ dec_nat k))"

lemma at_held:
  assumes "at sw u sid = Some s"
  shows "sw_stream s \<in> held sw"
proof -
  obtain us where us: "oget (streamsByUserId (fst sw)) u = Some us" "List.find (\<lambda>s. sw_streamId s = sid) (us_streams us) = Some s"
    using assms by (auto simp: stream_at_def split: option.splits)
  then show ?thesis using held_get [OF us(1)] find_Some_in [OF us(2)] by simp
qed

lemma streams_inv_touches:
  assumes "streams_inv (st, w)" and t: "touches A w w'" and A: "A \<inter> held (st, w) = {}"
  shows "streams_inv (st, w')"
proof -
  have h: "heap w' (sw_stream s) = heap w (sw_stream s)" if "stream_at (streamsByUserId st) u sid = Some s" for u sid s
  proof -
    have "sw_stream s \<notin> A" using at_held [of "(st, w)" u sid s] that A by auto
    then show ?thesis using t by (simp add: touches_def)
  qed
  have c: "contains (st, w') u sid tr = contains (st, w) u sid tr" for u sid tr
    using h [of u sid] by (cases "stream_at (streamsByUserId st) u sid") (simp_all add: contains_def)
  have "(\<forall>s. stream_at (streamsByUserId st) u sid = Some s \<longrightarrow> heap w' (sw_stream s) \<noteq> []) \<longleftrightarrow>
      (\<forall>s. stream_at (streamsByUserId st) u sid = Some s \<longrightarrow> heap w (sw_stream s) \<noteq> [])" for u sid
    using h [of u sid] by (cases "stream_at (streamsByUserId st) u sid") simp_all
  then have "inhabited (st, w') = inhabited (st, w)" by (simp add: inhabited_def)
  moreover have "nextStream w' = nextStream w" using t by (simp add: touches_def)
  ultimately show ?thesis
    using assms(1) by (simp add: streams_inv_def linked_def c associated_def indexed_def apart_def)
qed

lemma action_ok_state: "action_ok (st, w) a \<longleftrightarrow> action_ok (st, w') a"
  by (cases a) (simp_all add: add_ok_def remove_ok_def target_def)

text \<open>The remote streams after an action: the reducer of the streams on what the peers reducer
  left.\<close>

lemma reducers_sw:
  assumes "peers_slice env a s = (e, ps, w)"
  shows "s_sw (snd (reducers env a s)) = (case e of
      Some _ \<Rightarrow> (s_streams s, pw_streams w)
    | None \<Rightarrow> Streams.dispatch (se_browser env) (s_streams s, pw_streams w) (to_streams a))"
    and "pw_local (s_world (snd (reducers env a s))) = pw_local w"
  using assms by (auto simp: reducers_def Let_def Streams.dispatch_def split: prod.splits option.splits sum.splits)

lemma notices_inv_reduce:
  assumes "notices_inv (ns, c)" and "\<And>n. na = NOTIFY n \<Longrightarrow> \<exists>k \<le> c. nt_id n = ''notification'' @ dec_nat k"
  shows "notices_inv (Room.notifications na (ns, c))" and "c \<le> snd (Room.notifications na (ns, c))"
proof -
  have add: "notices_inv (oset k v ns, c')" if "k = ''notification'' @ dec_nat n" "n \<le> c'" "c \<le> c'" for k v n c'
    unfolding notices_inv_def
  proof
    fix x assume "x \<in> set (okeys (fst (oset k v ns, c')))"
    then have "x = k \<or> x \<in> set (okeys ns)" using set_oset [of k v ns] by force
    then show "\<exists>n \<le> snd (oset k v ns, c'). x = ''notification'' @ dec_nat n"
    proof
      assume "x = k"
      with that show ?thesis by auto
    next
      assume "x \<in> set (okeys ns)"
      then obtain m where "m \<le> c" "x = ''notification'' @ dec_nat m"
        using assms(1) unfolding notices_inv_def by auto
      with that(3) show ?thesis by (intro exI [of _ m]) simp
    qed
  qed
  have "notices_inv (Room.notifications na (ns, c)) \<and> c \<le> snd (Room.notifications na (ns, c))"
  proof (cases na)
    case (NOTIFY n)
    then show ?thesis using assms(2) add by (simp only: notifications.simps handleNotifications.simps) auto
  next
    case (REJECTED e)
    then show ?thesis using add [of _ "Suc c" "Suc c"] by (simp add: notify_def Let_def del: dec_nat.simps)
  qed (use assms(1) in \<open>auto simp: notices_inv_def simp del: dec_nat.simps\<close>)
  then show "notices_inv (Room.notifications na (ns, c))" "c \<le> snd (Room.notifications na (ns, c))" by blast+
qed

lemma local_ran: "local_apart s \<Longrightarrow> ran (map_of (pw_local (s_world s))) \<inter> held (s_sw s) = {}"
  by (auto simp: local_apart_def ran_def)

lemma peers_slice_local:
  assumes "peers_slice env a s = (e, ps, w)"
  shows "touches (ran (map_of (pw_local (s_world s)))) (pw_streams (s_world s)) (pw_streams w)"
    and "map_of (pw_local w) type = Some l \<Longrightarrow> map_of (pw_local (s_world s)) type = Some l \<or>
      (\<exists>type. a = MediaStreamAction (Resolved (type, l)))"
proof -
  have ms: "\<exists>type. a = MediaStreamAction (Resolved (type, l))"
    if "to_peers a = Some (peers_action.MEDIA_STREAM (Resolved (type, l)))" for type
    using that by (cases a) simp_all
  show "touches (ran (map_of (pw_local (s_world s)))) (pw_streams (s_world s)) (pw_streams w)"
    using assms peers_local(1) [of "se_peer env" _ "s_peers s" "s_world s" e ps w]
    by (auto simp: peers_slice_def touches_def split: option.splits)
  show "map_of (pw_local w) type = Some l \<Longrightarrow> map_of (pw_local (s_world s)) type = Some l \<or>
      (\<exists>type. a = MediaStreamAction (Resolved (type, l)))"
    using assms ms peers_local(2) [of "se_peer env" _ "s_peers s" "s_world s" e ps w type l]
    by (auto simp: peers_slice_def split: option.splits)
qed

lemma reducers_notices:
  assumes "notices_inv (s_notifications s, s_counter s)" and ok: "store_ok s a"
  shows "notices_inv (s_notifications (snd (reducers env a s)), s_counter (snd (reducers env a s)))"
proof -
  obtain ns c where n: "Room.notifications (to_notifications a) (s_notifications s, s_counter s) = (ns, c)" by fastforce
  have "\<exists>k \<le> s_counter s. nt_id m = ''notification'' @ dec_nat k" if "to_notifications a = NOTIFY m" for m
    using that ok by (cases a) (auto simp: store_ok_def split: option.splits)
  then have inv: "notices_inv (ns, c)" "s_counter s \<le> c"
    using notices_inv_reduce [OF assms(1), of "to_notifications a"] n by auto
  then have "notices_inv (s_notifications s, c)"
    using assms(1) by (auto simp: notices_inv_def intro: order_trans dest!: bspec)
  then show ?thesis
    using inv n by (auto simp: reducers_def Let_def split: prod.splits option.splits sum.splits)
qed

lemma local_mid:
  assumes "local_apart s" and "store_ok s a" and p: "peers_slice env a s = (e, ps, w)"
    and "map_of (pw_local w) type = Some x"
  shows "x < nextStream (pw_streams w)" "x \<notin> held (s_streams s, pw_streams w)"
proof -
  have "nextStream (pw_streams w) = nextStream (pw_streams (s_world s))" "held (s_streams s, pw_streams w) = held (s_sw s)"
    using peers_slice_local(1) [OF p] by (simp_all add: touches_def held_def)
  then show "x < nextStream (pw_streams w)" "x \<notin> held (s_streams s, pw_streams w)"
    using peers_slice_local(2) [OF p assms(4)] assms(1,2) unfolding local_apart_def store_ok_def by auto
qed

lemma streams_inv_mid:
  assumes "store_inv s" and p: "peers_slice env a s = (e, ps, w)"
  shows "streams_inv (s_streams s, pw_streams w)"
  using streams_inv_touches [OF _ peers_slice_local(1) [OF p]] local_ran [of s] assms(1) unfolding store_inv_def by blast

lemma store_inv_step:
  assumes inv: "store_inv s" and ok: "store_ok s a"
  shows "store_inv (snd (reducers env a s))"
proof -
  let ?s = "snd (reducers env a s)" and ?st = "s_streams s"
  obtain e ps w where p: "peers_slice env a s = (e, ps, w)" by (metis prod_cases3)
  have l: "local_apart s" using inv by (simp add: store_inv_def)
  note mid = streams_inv_mid [OF inv p]
  have "streams_inv (s_sw ?s) \<and> outside (?st, pw_streams w) (s_sw ?s)"
    using dispatch_inv [OF mid, of "to_streams a" "se_browser env"] dispatch_outside [OF mid, of "se_browser env" "to_streams a"]
      ok mid action_ok_state [of ?st "pw_streams w"]
    unfolding reducers_sw(1) [OF p] by (auto simp: store_ok_def split: option.split)
  moreover from this have "local_apart ?s"
    unfolding local_apart_def reducers_sw(2) [OF p]
  proof (intro allI impI)
    fix type x assume out: "streams_inv (s_sw ?s) \<and> outside (?st, pw_streams w) (s_sw ?s)"
      and "map_of (pw_local w) type = Some x"
    then have x: "x < nextStream (pw_streams w)" "x \<notin> held (?st, pw_streams w)"
      using local_mid [OF l ok p] by blast+
    with outsideD(1) [OF conjunct2 [OF out]] outsideD(2) [OF conjunct2 [OF out], of x]
    show "x < nextStream (pw_streams (s_world ?s)) \<and> x \<notin> held (s_sw ?s)" by auto
  qed
  ultimately show ?thesis
    using reducers_notices [OF _ ok] inv by (simp add: store_inv_def)
qed

section \<open>The local streams in the store and on the peers\<close>

text \<open>The peers reducer and the streams reducer each keep the local streams. \<open>view\<close> sees the store,
  with the peers that connected so far, as a session of the theory of peers.\<close>

definition view :: "'p store \<Rightarrow> nat set \<Rightarrow> 'p session" where
  "view s C = \<lparr>se_peers = s_peers s, se_world = s_world s, se_shared = localStreams (s_streams s), se_connected = C\<rparr>"

datatype store_event = Dispatch action | PeerConnects nat

fun store_step :: "'p store_env \<Rightarrow> 'p store \<times> nat set \<Rightarrow> store_event \<Rightarrow> 'p store \<times> nat set" where
  "store_step env (s, C) (Dispatch a) = (snd (reducers env a s), C)"
| "store_step env (s, C) (PeerConnects p) =
    (s\<lparr>s_world := snd (handleConnect (se_peer env) p (localStreams (s_streams s)) (s_world s))\<rparr>, insert p C)"

fun session_event :: "action \<Rightarrow> session_event option" where
  "session_event (AddPeer u p) = Some (Joined u p)"
| "session_event (RemovePeer u) = Some (Left u)"
| "session_event HangUp = Some HungUp"
| "session_event (MediaStreamAction (Resolved (type, l))) = Some (Opened type l)"
| "session_event (RemoveLocalStream l type) = Some (Closed type)"
| "session_event (MediaTrackAction (Resolved p)) = Some (Track p)"
| "session_event (MediaTrackEnable kind type) = Some (Enabled kind type)"
| "session_event _ = None"

definition next_session :: "peer_env \<Rightarrow> action \<Rightarrow> 'p session \<Rightarrow> 'p session" where
  "next_session env a se = (case session_event a of None \<Rightarrow> se | Some e \<Rightarrow> session_step env se e)"

text \<open>Sessions that agree on all but the remote streams and the addresses and mirroring of local
  ones.\<close>

definition similar :: "'p session \<Rightarrow> 'p session \<Rightarrow> bool" where
  "similar se se' \<longleftrightarrow> se_peers se' = se_peers se \<and> se_connected se' = se_connected se \<and>
     pw_calls (se_world se') = pw_calls (se_world se) \<and> pw_local (se_world se') = pw_local (se_world se) \<and>
     distinct (map fst (se_shared se')) \<and>
     (\<forall>type. map_option sw_stream (map_of (se_shared se') type) = map_option sw_stream (map_of (se_shared se) type)) \<and>
     (\<forall>type l. opened se type = Some l \<longrightarrow> tracks_in (se_world se') l = tracks_in (se_world se) l)"

lemma similar_inv:
  assumes inv: "session_inv se" and sim: "similar se se'"
  shows "session_inv se'"
proof -
  have same: "se_peers se' = se_peers se" "se_connected se' = se_connected se"
    "pw_calls (se_world se') = pw_calls (se_world se)" "distinct (map fst (se_shared se'))"
    and opened: "opened se' = opened se"
    and l: "map_option sw_stream (map_of (se_shared se') type) = map_option sw_stream (map_of (se_shared se) type)"
    and tracks: "opened se type = Some x \<Longrightarrow> tracks_in (se_world se') x = tracks_in (se_world se) x" for type x
    using sim by (auto simp: similar_def opened_def)
  have shared: "shared se' type = shared se type" for type
  proof (cases "map_of (se_shared se) type")
    case None
    then show ?thesis using l [of type] by (simp add: shared_def)
  next
    case (Some y)
    then obtain y' where "map_of (se_shared se') type = Some y'" "sw_stream y' = sw_stream y"
      using l [of type] by auto
    then show ?thesis
      using Some tracks [OF session_invD(2) [OF inv Some]] by (simp add: shared_def)
  qed
  then have all: "all_shared se' = all_shared se" by (simp add: all_shared_def)
  show ?thesis
  proof (rule session_invI)
    fix type y' assume y': "map_of (se_shared se') type = Some y'"
    then obtain y where "map_of (se_shared se) type = Some y" "sw_stream y' = sw_stream y"
      using l [of type] by (metis map_option_eq_Some)
    then show "opened se' type = Some (sw_stream y')" using session_invD(2) [OF inv] opened by simp
  next
    fix t t' x x' assume "t \<noteq> t'" "opened se' t = Some x" "opened se' t' = Some x'"
    then show "x \<noteq> x' \<and> set (tracks_in (se_world se') x) \<inter> set (tracks_in (se_world se') x') = {}"
      using session_invD(3) [OF inv, of t t' x x'] tracks [of t x] tracks [of t' x'] by (simp add: opened)
  qed (use session_invD [OF inv] in \<open>simp_all add: same all\<close>)
qed

abbreviation locals_of :: "'p sw \<Rightarrow> (stream_type \<times> local_stream) list" where
  "locals_of sw \<equiv> localStreams (fst sw)"

lemma addTrack_local: "locals_of (addTrack br p sw) = locals_of sw"
  by (cases sw) (simp add: addTrack_def Let_def split: prod.split)

lemma removeTrack_local: "locals_of (removeTrack tr sw) = locals_of sw"
  by (rule removeTrack_cases [of tr sw]) simp_all

lemma setMetadata_local: "locals_of (setMetadata br payload sw) = locals_of sw"
proof -
  obtain st w where sw: "sw = (st, w)" by fastforce
  let ?md = "fold (\<lambda>md. oset (getPeerIdMid (mp_userId payload) (md_mid md)) md) (mp_metadata payload) []"
  have "locals_of (fold (drop_lost ?md) xs y) = locals_of y" for xs and y :: "'a sw"
    by (rule fold_keeps) (auto simp: drop_lost_def removeTrack_local)
  moreover have "locals_of (fold (apply_metadata br u T) xs y) = locals_of y" for u T xs and y :: "'a sw"
    by (rule fold_keeps) (auto simp: apply_metadata_def Let_def addTrack_local removeTrack_local split: option.split)
  ultimately show ?thesis
    by (simp add: sw setMetadata_loops Let_def split_beta)
qed

lemma removePeer_local: "wf_obj (tracksByPeerIdMid (fst sw)) \<Longrightarrow> locals_of (removePeer u sw) = locals_of sw"
proof -
  assume wf: "wf_obj (tracksByPeerIdMid (fst sw))"
  obtain st w where sw: "sw = (st, w)" by fastforce
  have one: "locals_of (forget_track t y) = locals_of y" for t and y :: "'a sw"
    by (simp add: forget_track_def forget_index_def removeTrack_local split_beta)
  have "locals_of (fold (\<lambda>(k, t). forget_track t) es y) = locals_of y" for es :: "track_info obj" and y :: "'a sw"
    by (rule fold_keeps) (auto simp: one)
  then show ?thesis
    using removePeer_loop [of st u w] wf by (simp add: sw Let_def set_tracks_def split_beta)
qed

text \<open>The keys of the tracks that come from a peer.\<close>

definition of_peer :: "string \<Rightarrow> string \<Rightarrow> bool" where
  "of_peer u key \<longleftrightarrow> startsWith key (u @ peerIdMidSeparator)"

text \<open>What a removed peer leaves alone: all but the registry of tracks, the streams of the users, their
  contents and the revoked URLs.\<close>

definition besides_remote :: "'p sw \<Rightarrow> 'p sw" where
  "besides_remote = (\<lambda>(st, w). (st\<lparr>streamsByUserId := [], trackIdToPeerIdMid := [], tracksByPeerIdMid := []\<rparr>,
     w\<lparr>heap := (\<lambda>_. []), revoked := []\<rparr>))"

lemma besides_remote_eq:
  assumes "besides_remote (st', w') = besides_remote (st, w)"
  shows "st' = st\<lparr>streamsByUserId := streamsByUserId st', trackIdToPeerIdMid := trackIdToPeerIdMid st',
      tracksByPeerIdMid := tracksByPeerIdMid st'\<rparr>"
    and "w' = w\<lparr>heap := heap w', revoked := revoked w'\<rparr>"
proof -
  show "st' = st\<lparr>streamsByUserId := streamsByUserId st', trackIdToPeerIdMid := trackIdToPeerIdMid st',
      tracksByPeerIdMid := tracksByPeerIdMid st'\<rparr>"
    using assms by (cases st; cases st') (simp add: besides_remote_def)
  show "w' = w\<lparr>heap := heap w', revoked := revoked w'\<rparr>"
    using assms by (cases w; cases w') (simp add: besides_remote_def)
qed

lemma forget_track_besides: "besides_remote (forget_track t sw) = besides_remote sw"
proof -
  have "besides_remote (removeTrack tr sw) = besides_remote sw" for tr
    by (cases sw) (simp add: removeTrack_def besides_remote_def stream_removeTrack_def revoke_def Let_def split_beta split: option.split)
  then show ?thesis
    by (simp add: forget_track_def forget_index_def besides_remote_def split_beta)
qed

lemma forget_track_index:
  "trackIdToPeerIdMid (fst (forget_track t sw)) = odel (tr_id (ti_track t)) (trackIdToPeerIdMid (fst sw))"
proof -
  have "trackIdToPeerIdMid (fst (removeTrack tr sw)) = trackIdToPeerIdMid (fst sw)" for tr
    by (cases sw) (simp add: removeTrack_def Let_def split_beta split: option.split)
  then show ?thesis by (simp add: forget_track_def)
qed

lemma removePeer_tables:
  assumes wf: "wf_obj (tracksByPeerIdMid (fst sw))"
  shows "info (removePeer u sw) key = (if of_peer u key then None else info sw key)"
    and "oget (trackIdToPeerIdMid (fst (removePeer u sw))) i =
      (if \<exists>key t. of_peer u key \<and> info sw key = Some t \<and> tr_id (ti_track t) = i then None
       else oget (trackIdToPeerIdMid (fst sw)) i)"
    and "besides_remote (removePeer u sw) = besides_remote sw"
proof -
  obtain st w where sw: "sw = (st, w)" by fastforce
  let ?es = "filter (\<lambda>(k, t). of_peer u k) (tracksByPeerIdMid st)"
  have r: "removePeer u sw = set_tracks (omit (tracksByPeerIdMid st) (okeys ?es)) (fold (\<lambda>(k, t). forget_track t) ?es sw)"
    using removePeer_loop [of st u w] wf by (simp add: sw Let_def of_peer_def)
  show "info (removePeer u sw) key = (if of_peer u key then None else info sw key)"
    unfolding r by (cases "oget (tracksByPeerIdMid st) key") (auto simp: sw image_iff dest: map_of_SomeD)
  have "besides_remote (fold (\<lambda>(k, t). forget_track t) es sw) = besides_remote sw" for es :: "track_info obj"
    by (rule fold_keeps) (auto simp: forget_track_besides)
  then show "besides_remote (removePeer u sw) = besides_remote sw"
    by (simp add: r set_tracks_def besides_remote_def split_beta)
  have fold: "oget (trackIdToPeerIdMid (fst (fold (\<lambda>(k, t). forget_track t) es y))) i =
      (if i \<in> (\<lambda>(k, t). tr_id (ti_track t)) ` set es then None else oget (trackIdToPeerIdMid (fst y)) i)"
    for es :: "track_info obj" and y :: "'a sw"
    by (induction es arbitrary: y) (auto simp: forget_track_index)
  have "i \<in> (\<lambda>(k, t). tr_id (ti_track t)) ` set ?es \<longleftrightarrow>
      (\<exists>key t. of_peer u key \<and> info sw key = Some t \<and> tr_id (ti_track t) = i)"
    using wf by (auto simp: sw wf_obj_def image_iff dest: map_of_SomeD)
  then show "oget (trackIdToPeerIdMid (fst (removePeer u sw))) i =
      (if \<exists>key t. of_peer u key \<and> info sw key = Some t \<and> tr_id (ti_track t) = i then None
       else oget (trackIdToPeerIdMid (fst sw)) i)"
    by (simp add: r fold)
qed

lemma removePeer_contains:
  assumes inv: "streams_inv sw"
  shows "contains (removePeer u sw) v sid tr \<longleftrightarrow> contains sw v sid tr \<and>
    \<not> (\<exists>key t. of_peer u key \<and> info sw key = Some t \<and> ti_track t = tr)"
proof -
  have inv': "streams_inv (removePeer u sw)" using removePeer_correct [OF inv] by blast
  have "key = key'" if "info sw key = Some t" "info sw key' = Some t'" "ti_track t = ti_track t'" for key key' t t'
    using invD(6) [OF inv that(1)] invD(6) [OF inv that(2)] that(3) by simp
  then show ?thesis
    unfolding invD(5) [OF inv] invD(5) [OF inv'] associated_def removePeer_tables(1) [OF invD(2) [OF inv]]
    by (auto split: if_splits) metis
qed

lemma unassociate_local: "unassociateUserTracks u (st, w) = (Inr st', w') \<Longrightarrow> localStreams st' = localStreams st"
  by (auto simp: unassociateUserTracks_def split: option.splits prod.splits)

definition addr :: "streams_state \<Rightarrow> stream_type \<Rightarrow> nat option" where
  "addr st type = map_option sw_stream (map_of (localStreams st) type)"

abbreviation dist :: "streams_state \<Rightarrow> bool" where
  "dist st \<equiv> distinct (map fst (localStreams st))"

fun next_addr :: "action \<Rightarrow> (stream_type \<Rightarrow> nat option) \<Rightarrow> stream_type \<Rightarrow> nat option" where
  "next_addr HangUp m = Map.empty"
| "next_addr (MediaStreamAction (Resolved (type, l))) m = m(type \<mapsto> l)"
| "next_addr (RemoveLocalStream l type) m = m(type := None)"
| "next_addr _ m = m"

lemma addLocalStream_addr:
  assumes "addLocalStream br type l (st, w) = (Inr st', w')"
  shows "addr st' = (addr st)(type \<mapsto> l)" "dist st \<Longrightarrow> dist st'"
proof -
  obtain y where "localStreams st' = AList.update type y (localStreams st)" "sw_stream y = l"
    using assms by (auto simp: addLocalStream_def Let_def split: if_splits prod.splits sum.splits)
  then show "addr st' = (addr st)(type \<mapsto> l)" "dist st \<Longrightarrow> dist st'"
    by (auto simp: addr_def fun_eq_iff update_conv distinct_update)
qed

lemma removeLocalStream_addr:
  assumes "removeLocalStream br type (st, w) = (Inr st', w')"
  shows "addr st' = (addr st)(type := None)" "dist st \<Longrightarrow> dist st'"
proof -
  have "localStreams st' = AList.delete type (localStreams st) \<or>
      map_of (localStreams st) type = None \<and> st' = st"
    using assms by (auto simp: removeLocalStream_def Let_def split: if_splits prod.splits sum.splits option.splits)
  then show "addr st' = (addr st)(type := None)" "dist st \<Longrightarrow> dist st'"
    by (auto simp: addr_def fun_eq_iff delete_conv distinct_delete)
qed

lemma setLocalStreamMirror_addr:
  "addr (setLocalStreamMirror p st) = addr st" "dist st \<Longrightarrow> dist (setLocalStreamMirror p st)"
  by (auto simp: addr_def fun_eq_iff setLocalStreamMirror_def update_conv distinct_update split: option.split)

lemma same_local:
  "localStreams st' = localStreams st \<Longrightarrow> next_addr a (addr st) = addr st \<Longrightarrow>
   addr st' = next_addr a (addr st) \<and> (dist st \<longrightarrow> dist st')"
  by (simp add: addr_def fun_eq_iff)

lemma recordLocalStream_local:
  "recordLocalStream br url room u (st, w) = (Inr st', w') \<Longrightarrow> localStreams st' = localStreams st"
  by (auto simp: recordLocalStream_def split: prod.splits sum.splits)

lemma streams_addr:
  assumes inv: "streams_inv (st, w)" and r: "streams br (to_streams a) (st, w) = (Inr st', w')"
  shows "addr st' = next_addr a (addr st) \<and> (dist st \<longrightarrow> dist st')"
proof (cases a)
  case (MediaStreamAction act)
  then show ?thesis
    using r addLocalStream_addr [of br _ _ st w st' w'] by (cases act) auto
next
  case (MediaTrackAction act)
  then show ?thesis
    using r setLocalStreamMirror_addr [where st = st] by (cases act) auto
next
  case (RemoveLocalStream l type)
  then show ?thesis using r removeLocalStream_addr [of br type st w st' w'] by simp
next
  case HangUp
  then have "st' = defaultState"
    using r hang_up_keeps(1) [of br st w] by (cases "hang_up br (st, w)") simp
  then show ?thesis by (simp add: HangUp addr_def fun_eq_iff defaultState_def)
next
  case (AddTrackAction p)
  then show ?thesis
    using r addTrack_local [of br p "(st, w)"] by (intro same_local; cases "addTrack br p (st, w)") simp_all
next
  case (RemoveTrackAction p)
  then show ?thesis
    using r removeTrack_local [of p "(st, w)"] by (intro same_local; cases "removeTrack p (st, w)") simp_all
next
  case (TracksMetadata p)
  then show ?thesis
    using r setMetadata_local [of br p "(st, w)"] by (intro same_local; cases "setMetadata br p (st, w)") simp_all
next
  case (RemovePeer u)
  then show ?thesis
    using r removePeer_local [OF invD(2) [OF inv], of u] by (intro same_local; cases "removePeer u (st, w)") simp_all
next
  case (NicknameRemove u)
  then show ?thesis using r unassociate_local [of u st w st' w'] by (intro same_local) simp_all
next
  case (RecordLocalStream url room u)
  then show ?thesis using r recordLocalStream_local [of br url room u st w st' w'] by (intro same_local) simp_all
next
  case StopRecordLocalStream
  then show ?thesis using r by (intro same_local) (auto simp: stopRecordLocalStream_def)
qed (use r in simp_all)

text \<open>The peers reducer does to the store what the session step does to the view.\<close>

lemma next_session_peers:
  assumes p: "peers_slice env a s = (None, ps, w)"
    and ok: "\<And>l type. a = RemoveLocalStream l type \<Longrightarrow> addr (s_streams s) type = Some l"
    and se_def: "se = next_session (se_peer env) a (view s C)"
  shows "se_peers se = ps" "se_world se = w" "se_connected se = C"
    "map_option sw_stream (map_of (se_shared se) type) = next_addr a (addr (s_streams s)) type"
proof -
  have "se_peers se = ps \<and> se_world se = w \<and> se_connected se = C \<and>
      map_option sw_stream (map_of (se_shared se) type) = next_addr a (addr (s_streams s)) type"
  proof (cases a)
    case (RemoveLocalStream l t)
    obtain y where "map_of (localStreams (s_streams s)) t = Some y" "sw_stream y = l"
      using ok [OF RemoveLocalStream] by (auto simp: addr_def)
    then show ?thesis
      using p by (auto simp: RemoveLocalStream se_def next_session_def view_def peers_slice_def session_step.simps
          reduced_def addr_def delete_conv split: prod.splits)
  next
    case (MediaStreamAction act)
    then show ?thesis
      using p by (cases act) (auto simp: se_def next_session_def view_def peers_slice_def session_step.simps
          reduced_def addr_def update_conv as_local_def handleLocalMediaStream_def split: prod.splits)
  next
    case (MediaTrackAction act)
    then show ?thesis
      using p by (cases act) (auto simp: se_def next_session_def view_def peers_slice_def session_step.simps
          reduced_def addr_def handleLocalMediaTrack_def split: prod.splits)
  qed (use p in \<open>auto simp: se_def next_session_def view_def peers_slice_def session_step.simps reduced_def addr_def\<close>)
  then show "se_peers se = ps" "se_world se = w" "se_connected se = C"
    "map_option sw_stream (map_of (se_shared se) type) = next_addr a (addr (s_streams s)) type" by blast+
qed

lemma reducers_similar:
  assumes inv: "store_inv s" and ok: "store_ok s a" and r: "reducers env a s = (None, s')"
    and close: "\<And>l type. a = RemoveLocalStream l type \<Longrightarrow> addr (s_streams s) type = Some l"
    and dist: "dist (s_streams s)"
  shows "similar (next_session (se_peer env) a (view s C)) (view s' C)"
proof -
  obtain e ps w where p: "peers_slice env a s = (e, ps, w)" by (metis prod_cases3)
  obtain x sw where st: "streams (se_browser env) (to_streams a) (s_streams s, pw_streams w) = (x, sw)" by fastforce
  have e: "e = None" using r p by (cases e) (simp_all add: reducers_def Let_def split: prod.splits)
  then obtain st' where x: "x = Inr st'" using r p st by (cases x) (simp_all add: reducers_def Let_def split: prod.splits)
  have s': "s_peers s' = ps" "s_streams s' = st'" "s_world s' = w\<lparr>pw_streams := sw\<rparr>"
    using r p st by (auto simp: reducers_def Let_def e x split: prod.splits)
  note mid = streams_inv_mid [OF inv p]
  have d: "Streams.dispatch (se_browser env) (s_streams s, pw_streams w) (to_streams a) = (st', sw)"
    by (simp add: Streams.dispatch_def st x)
  have heap: "heap sw l = heap (pw_streams w) l" if "map_of (pw_local w) type = Some l" for type l
    using outsideD(3) [OF dispatch_outside [OF mid, of "se_browser env" "to_streams a"], unfolded d] that
      local_mid [OF _ ok p that] inv by (simp add: store_inv_def)
  note ns = next_session_peers [OF p [unfolded e] close refl, where C = C]
  have "map_option sw_stream (map_of (localStreams st') type) = next_addr a (addr (s_streams s)) type" for type
    using streams_addr [OF mid st [unfolded x]] unfolding addr_def [of st', symmetric] by simp
  then show ?thesis
    using streams_addr [OF mid st [unfolded x]] dist ns heap unfolding similar_def
    by (simp add: view_def s' opened_def tracks_in_def)
qed

text \<open>The events a state allows, and no dispatch throws.\<close>

fun event_ok :: "'p store_env \<Rightarrow> 'p store \<times> nat set \<Rightarrow> store_event \<Rightarrow> bool" where
  "event_ok env (s, C) (Dispatch a) \<longleftrightarrow> store_ok s a \<and> fst (reducers env a s) = None \<and>
     (\<forall>l type. a = RemoveLocalStream l type \<longrightarrow> addr (s_streams s) type = Some l) \<and>
     (case session_event a of None \<Rightarrow> True | Some e \<Rightarrow> session_ok (view s C) e)"
| "event_ok env (s, C) (PeerConnects p) \<longleftrightarrow> True"

definition call_inv :: "'p store \<times> nat set \<Rightarrow> bool" where
  "call_inv sC \<longleftrightarrow> store_inv (fst sC) \<and> session_inv (view (fst sC) (snd sC))"

lemma call_inv_step:
  assumes inv: "call_inv sC" and ok: "event_ok env sC e" and rel: "reliable (se_peer env)"
  shows "call_inv (store_step env sC e)"
proof -
  obtain s C where sC: "sC = (s, C)" by fastforce
  have i: "store_inv s" "session_inv (view s C)" using inv by (simp_all add: call_inv_def sC)
  show ?thesis
  proof (cases e)
    case (Dispatch a)
    obtain s' where s': "reducers env a s = (None, s')" using ok by (cases "reducers env a s") (simp add: sC Dispatch)
    have "store_ok s a" and close: "\<And>l type. a = RemoveLocalStream l type \<Longrightarrow> addr (s_streams s) type = Some l"
      using ok by (simp_all add: sC Dispatch)
    moreover have "dist (s_streams s)" using session_invD(6) [OF i(2)] by (simp add: view_def)
    ultimately have "similar (next_session (se_peer env) a (view s C)) (view s' C)"
      using reducers_similar [OF i(1) _ s'] by blast
    moreover have "session_inv (next_session (se_peer env) a (view s C))"
      using i(2) ok session_step_inv [OF i(2) _ rel] by (auto simp: next_session_def sC Dispatch split: option.splits)
    ultimately show ?thesis
      using similar_inv store_inv_step [OF i(1) \<open>store_ok s a\<close>, of env] s'
      by (auto simp: call_inv_def sC Dispatch)
  next
    case (PeerConnects p)
    let ?w = "snd (handleConnect (se_peer env) p (localStreams (s_streams s)) (s_world s))"
    have "only_calls (s_world s) ?w" by (rule handleConnect_only)
    then have "store_inv (s\<lparr>s_world := ?w\<rparr>)"
      using i(1) by (simp add: store_inv_def local_apart_def only_calls_def)
    moreover have "view (s\<lparr>s_world := ?w\<rparr>) (insert p C) = session_step (se_peer env) (view s C) (Connected p)"
      by (simp add: view_def session_step.simps)
    ultimately show ?thesis
      using session_step_inv [OF i(2) _ rel, of "Connected p"] by (simp add: call_inv_def sC PeerConnects)
  qed
qed

interpretation call: machine "store_step env" "\<lambda>sC e. event_ok env sC e \<and> reliable (se_peer env)" call_inv for env
  by unfold_locales (simp add: call_inv_step)

section \<open>What the store guarantees\<close>

lemma store_inv_initial: "pw_local w = [] \<Longrightarrow> store_inv (initial_store stored nickname w)"
  by (simp add: store_inv_def initial_store_def streams_inv_default local_apart_def notices_inv_def)

lemma call_inv_initial: "pw_local w = [] \<Longrightarrow> call_inv (initial_store stored nickname w, C)"
  unfolding call_inv_def fst_conv snd_conv
  by (intro conjI store_inv_initial session_invI)
    (simp_all add: view_def initial_store_def defaultState_def opened_def)

interpretation stored: machine "\<lambda>s a. snd (reducers env a s)" store_ok store_inv for env
  by unfold_locales (rule store_inv_step)

text \<open>
  C5. In the whole store, with all reducers at work and whether or not calls on peers throw, a
  track is in the stream of a remote user exactly if the table of tracks associates it with them;
  no stream of a remote user is a local stream; and every notification has a different identifier
  of the counter's past.
\<close>

theorem store_streams_consistent:
  assumes "pw_local w = []"
    and "admissible (\<lambda>s a. snd (reducers env a s)) store_ok (initial_store stored nickname w) actions"
    and "s = run (\<lambda>s a. snd (reducers env a s)) (initial_store stored nickname w) actions"
  shows "(\<forall>u sid tr. contains (s_sw s) u sid tr \<longleftrightarrow> associated (s_sw s) u sid tr) \<and>
    (\<forall>u sid x type. at (s_sw s) u sid = Some x \<longrightarrow>
       tracks_of (s_sw s) x \<noteq> [] \<and> map_of (pw_local (s_world s)) type \<noteq> Some (sw_stream x)) \<and>
    (\<forall>k \<in> set (okeys (s_notifications s)). \<exists>n \<le> s_counter s. k = ''notification'' @ dec_nat n)"
proof -
  have inv: "store_inv s" using stored.run_inv [OF store_inv_initial [OF assms(1)] assms(2)] assms(3) by simp
  then have s: "streams_inv (s_sw s)" by (simp add: store_inv_def)
  have "tracks_of (s_sw s) x \<noteq> [] \<and> map_of (pw_local (s_world s)) type \<noteq> Some (sw_stream x)"
    if x: "at (s_sw s) u sid = Some x" for u sid x type
    using invD(4) [OF s] at_held [OF x] inv x unfolding store_inv_def local_apart_def inhabited_def by blast
  moreover have "\<forall>k \<in> set (okeys (s_notifications s)). \<exists>n \<le> s_counter s. k = ''notification'' @ dec_nat n"
    using inv by (simp add: store_inv_def notices_inv_def)
  ultimately show ?thesis using invD(5) [OF s] by blast
qed


text \<open>
  C11. Hanging up, in one dispatch that does not throw: no peers, remote or local streams remain,
  the nickname of the local user is the only one, the dial state is hung up, every track of every
  local and remote stream is stopped, and the timer destroys the peers in order. The chat, the
  notifications and the minimised videos stay.
\<close>

theorem hang_up_resets:
  assumes "reliable (se_peer env)" and "pw_timers (s_world s) = []"
  shows "\<exists>s' w. reducers env HangUp s = (None, s') \<and>
    s_peers s' = [] \<and> s_streams s' = defaultState \<and> pw_local (s_world s') = [] \<and>
    s_nicknames s' = [(ME, nick (s_nicknames s) ME)] \<and>
    s_media s' = (s_media s)\<lparr>dialState := DIAL_STATE_HUNG_UP\<rparr> \<and>
    s_messages s' = s_messages s \<and> s_notifications s' = s_notifications s \<and> s_windowStates s' = s_windowStates s \<and>
    set (stopped (pw_streams (s_world s'))) = set (stopped (pw_streams (s_world s))) \<union>
      (\<Union>(_, l) \<in> set (localStreams (s_streams s)). set (heap (pw_streams (s_world s)) (sw_stream l))) \<union>
      (\<Union>(_, us) \<in> set (streamsByUserId (s_streams s)). \<Union>x \<in> set (us_streams us). set (heap (pw_streams (s_world s)) (sw_stream x))) \<and>
    destroy_timer (se_peer env) (s_world s') = (None, w) \<and>
    pw_calls w = pw_calls (s_world s) @ map Destroy (map snd (s_peers s)) \<and> pw_timers w = []"
proof -
  let ?br = "se_browser env" and ?h = "hang_up (se_browser env) (s_streams s, pw_streams (s_world s))"
  let ?w = "(s_world s)\<lparr>pw_streams := snd ?h, pw_local := [], pw_timers := map snd (s_peers s)\<rparr>"
  obtain w1 where w1: "destroy_timer (se_peer env) ?w = (None, w1)"
    "pw_calls w1 = pw_calls (s_world s) @ map Destroy (map snd (s_peers s))" "pw_timers w1 = []"
    using hang_up_destroys_peers [OF assms(1), of "(s_world s)\<lparr>pw_streams := snd ?h\<rparr>" "s_peers s"] assms(2) by auto
  have "reducers env HangUp s = (None, s\<lparr>s_media := (s_media s)\<lparr>dialState := DIAL_STATE_HUNG_UP\<rparr>,
      s_nicknames := [(ME, nick (s_nicknames s) ME)], s_peers := [], s_streams := fst ?h,
      s_world := ?w\<rparr>)"
    using assms(2) by (cases ?h) (simp add: reducers_def peers_slice_def windowStates_def)
  then show ?thesis
    using w1 hang_up_stops_everything [of ?br "s_streams s" "pw_streams (s_world s)"] by (auto simp: case_prod_unfold)
qed

text \<open>
  C19. When a peer is removed, its connection, its nickname and its tracks go together, in one
  dispatch that does not throw: its entries leave the registry and the index of tracks, and exactly its
  tracks leave the streams of the users. Nothing else changes: every other field of every slice, the
  streams that no remote user has, the stopped tracks, the recording peers, the calls on peers, the
  encryption and the timers are what they were.
\<close>

theorem peer_removed_everywhere:
  assumes "streams_inv (s_sw s)"
  shows "\<exists>s'. reducers env (RemovePeer u) s = (None, s') \<and> streams_inv (s_sw s') \<and>
    oget (s_peers s') = (oget (s_peers s))(u := None) \<and>
    nick (s_nicknames s') = (nick (s_nicknames s))(u := None) \<and>
    (\<forall>key. oget (tracksByPeerIdMid (s_streams s')) key =
       (if of_peer u key then None else oget (tracksByPeerIdMid (s_streams s)) key)) \<and>
    (\<forall>i. oget (trackIdToPeerIdMid (s_streams s')) i =
       (if \<exists>key t. of_peer u key \<and> oget (tracksByPeerIdMid (s_streams s)) key = Some t \<and> tr_id (ti_track t) = i then None
        else oget (trackIdToPeerIdMid (s_streams s)) i)) \<and>
    (\<forall>v sid tr. contains (s_sw s') v sid tr \<longleftrightarrow> contains (s_sw s) v sid tr \<and>
       \<not> (\<exists>key t. of_peer u key \<and> oget (tracksByPeerIdMid (s_streams s)) key = Some t \<and> ti_track t = tr)) \<and>
    (\<forall>a < nextStream (pw_streams (s_world s)). a \<notin> held (s_sw s) \<longrightarrow>
       heap (pw_streams (s_world s')) a = heap (pw_streams (s_world s)) a) \<and>
    s_streams s' = (s_streams s)\<lparr>streamsByUserId := streamsByUserId (s_streams s'),
      trackIdToPeerIdMid := trackIdToPeerIdMid (s_streams s'), tracksByPeerIdMid := tracksByPeerIdMid (s_streams s')\<rparr> \<and>
    s_world s' = (s_world s)\<lparr>pw_streams := (pw_streams (s_world s))\<lparr>heap := heap (pw_streams (s_world s')),
      revoked := revoked (pw_streams (s_world s'))\<rparr>\<rparr> \<and>
    s' = s\<lparr>s_peers := s_peers s', s_nicknames := s_nicknames s', s_streams := s_streams s', s_world := s_world s'\<rparr>"
proof -
  let ?r = "removePeer u (s_sw s)"
  have wf: "wf_obj (tracksByPeerIdMid (fst (s_sw s)))" by (rule invD(2) [OF assms(1)])
  define s' where "s' = s\<lparr>s_peers := omit (s_peers s) [u], s_nicknames := omit (s_nicknames s) [u], s_streams := fst ?r,
    s_world := (s_world s)\<lparr>pw_streams := snd ?r\<rparr>\<rparr>"
  have reduced: "reducers env (RemovePeer u) s = (None, s')"
    by (cases ?r) (simp add: reducers_def peers_slice_def windowStates_def s'_def)
  have parts: "s_sw s' = ?r" "s_streams s' = fst ?r" "s_world s' = (s_world s)\<lparr>pw_streams := snd ?r\<rparr>"
    "oget (s_peers s') = (oget (s_peers s))(u := None)" "nick (s_nicknames s') = (nick (s_nicknames s))(u := None)"
    "s' = s\<lparr>s_peers := s_peers s', s_nicknames := s_nicknames s', s_streams := s_streams s', s_world := s_world s'\<rparr>"
    by (simp_all add: s'_def nick_def fun_eq_iff)
  have rest: "s_streams s' = (s_streams s)\<lparr>streamsByUserId := streamsByUserId (s_streams s'),
      trackIdToPeerIdMid := trackIdToPeerIdMid (s_streams s'), tracksByPeerIdMid := tracksByPeerIdMid (s_streams s')\<rparr>"
    "s_world s' = (s_world s)\<lparr>pw_streams := (pw_streams (s_world s))\<lparr>heap := heap (pw_streams (s_world s')),
      revoked := revoked (pw_streams (s_world s'))\<rparr>\<rparr>"
    using besides_remote_eq [of "fst ?r" "snd ?r"] removePeer_tables(3) [OF wf, of u] by (simp_all add: parts(2,3))
  have inv: "streams_inv (s_sw s')" using removePeer_correct [OF assms, of u] by (simp add: parts(1))
  have tables: "\<forall>key. oget (tracksByPeerIdMid (s_streams s')) key =
       (if of_peer u key then None else oget (tracksByPeerIdMid (s_streams s)) key)"
    "\<forall>i. oget (trackIdToPeerIdMid (s_streams s')) i =
       (if \<exists>key t. of_peer u key \<and> oget (tracksByPeerIdMid (s_streams s)) key = Some t \<and> tr_id (ti_track t) = i then None
        else oget (trackIdToPeerIdMid (s_streams s)) i)"
    unfolding parts(2) by (simp_all only: removePeer_tables(1,2) [OF wf, of u] fst_conv simp_thms)
  have tracks: "\<forall>v sid tr. contains (s_sw s') v sid tr \<longleftrightarrow> contains (s_sw s) v sid tr \<and>
      \<not> (\<exists>key t. of_peer u key \<and> oget (tracksByPeerIdMid (s_streams s)) key = Some t \<and> ti_track t = tr)"
    using removePeer_contains [OF assms, of u] by (simp add: parts(1))
  have others: "\<forall>a < nextStream (pw_streams (s_world s)). a \<notin> held (s_sw s) \<longrightarrow>
      heap (pw_streams (s_world s')) a = heap (pw_streams (s_world s)) a"
    using outsideD(3) [OF removePeer_outside [OF wf, of u]] by (simp add: parts(3))
  show ?thesis
    by (intro exI [of _ s'] conjI) (fact reduced inv parts(4-6) tables tracks others rest)+
qed

section \<open>Runs that meet the hypotheses\<close>

definition toy_store_env :: "nat store_env" where
  "toy_store_env = \<lparr>se_peer = toy_peer_env, se_browser = toy_browser, se_now = '''', se_locale = (\<lambda>t. t), se_me = ''me''\<rparr>"

definition toy_peer_world :: "nat peer_world" where
  "toy_peer_world = \<lparr>pw_streams = toy_world\<lparr>heap := (\<lambda>_. [])(0 := [toy_track]), nextStream := 1\<rparr>, pw_local = [],
     pw_enabled = (\<lambda>_. True), pw_calls = [], pw_codec = \<lparr>cd_worker = True, cd_seen = [], cd_posted = []\<rparr>, pw_timers = []\<rparr>"

definition toy_store :: "nat store" where
  "toy_store = initial_store None ''joe'' toy_peer_world"

lemmas toy_store_defs = toy_store_def initial_store_def defaultState_def toy_store_env_def toy_peer_env_def
  toy_peer_world_def toy_world_def toy_browser_def

theorem store_streams_consistent_witness:
  "contains (s_sw (snd (reducers toy_store_env (AddTrackAction toy_add) toy_store))) ''sfu'' ''s'' toy_track"
proof -
  let ?s = "snd (reducers toy_store_env (AddTrackAction toy_add) toy_store)"
  have "admissible (\<lambda>s a. snd (reducers toy_store_env a s)) store_ok toy_store [AddTrackAction toy_add]"
    by (simp add: store_ok_def add_ok_def toy_store_def initial_store_def defaultState_def)
  from store_streams_consistent [OF _ this [unfolded toy_store_def] refl]
  have "contains (s_sw ?s) ''sfu'' ''s'' toy_track \<longleftrightarrow> associated (s_sw ?s) ''sfu'' ''s'' toy_track"
    by (simp add: toy_store_def toy_peer_world_def)
  moreover have "s_sw ?s = addTrack toy_browser toy_add (defaultState, pw_streams toy_peer_world)"
    by (cases "addTrack toy_browser toy_add (defaultState, pw_streams toy_peer_world)")
      (simp add: reducers_def peers_slice_def toy_store_def initial_store_def toy_store_env_def)
  then have "associated (s_sw ?s) ''sfu'' ''s'' toy_track"
    by (simp add: associated_def info_addTrack toy_add_def target_def Streams.getUserId_def defaultState_def)
  ultimately show ?thesis by simp
qed


theorem hang_up_resets_witness:
  "\<exists>s w. reducers toy_store_env HangUp (toy_store\<lparr>s_peers := [(''ann'', 1), (''bob'', 2)]\<rparr>) = (None, s) \<and>
     destroy_timer toy_peer_env (s_world s) = (None, w) \<and> pw_calls w = [Destroy 1, Destroy 2]"
  using hang_up_resets [of toy_store_env "toy_store\<lparr>s_peers := [(''ann'', 1), (''bob'', 2)]\<rparr>"] toy_reliable
  by (fastforce simp: toy_store_def initial_store_def toy_peer_world_def toy_store_env_def)

theorem peer_removed_everywhere_witness:
  "\<exists>s'. reducers toy_store_env (RemovePeer ''sfu'')
       (snd (reducers toy_store_env (AddTrackAction toy_add) (toy_store\<lparr>s_peers := [(''sfu'', 1), (''bob'', 2)]\<rparr>))) = (None, s') \<and>
     oget (s_peers s') ''sfu'' = None \<and> oget (s_peers s') ''bob'' = Some 2 \<and> \<not> contains (s_sw s') ''sfu'' ''s'' toy_track"
proof -
  let ?s0 = "toy_store\<lparr>s_peers := [(''sfu'', 1), (''bob'', 2)]\<rparr>" and ?k = "getPeerIdMid ''sfu'' (at_mid toy_add)"
  let ?s = "snd (reducers toy_store_env (AddTrackAction toy_add) ?s0)"
  have sw: "s_sw ?s = addTrack toy_browser toy_add (defaultState, pw_streams toy_peer_world)" "s_peers ?s = [(''sfu'', 1), (''bob'', 2)]"
    by (cases "addTrack toy_browser toy_add (defaultState, pw_streams toy_peer_world)",
        simp add: reducers_def peers_slice_def toy_store_def initial_store_def toy_store_env_def)+
  have "streams_inv (s_sw ?s)"
    unfolding sw(1) by (rule addTrack_inv [OF streams_inv_default]) (simp add: add_ok_def defaultState_def)
  from peer_removed_everywhere [OF this, of toy_store_env "''sfu''"] obtain s'
    where s': "reducers toy_store_env (RemovePeer ''sfu'') ?s = (None, s')"
      "oget (s_peers s') = (oget (s_peers ?s))(''sfu'' := None)"
      "contains (s_sw s') ''sfu'' ''s'' toy_track \<longrightarrow>
        \<not> (\<exists>key t. of_peer ''sfu'' key \<and> oget (tracksByPeerIdMid (s_streams ?s)) key = Some t \<and> ti_track t = toy_track)"
    by blast
  have T: "s_streams ?s = fst (addTrack toy_browser toy_add (defaultState, pw_streams toy_peer_world))"
    using arg_cong [OF sw(1), of fst] by simp
  have "\<exists>t. oget (tracksByPeerIdMid (s_streams ?s)) ?k = Some t \<and> ti_track t = toy_track"
    unfolding T info_addTrack by (simp add: toy_add_def)
  moreover have "of_peer ''sfu'' ?k" by (simp add: of_peer_def getPeerIdMid_def startsWith_def)
  ultimately have "\<not> contains (s_sw s') ''sfu'' ''s'' toy_track" using s'(3) by blast
  moreover have "oget (s_peers ?s) ''bob'' = Some 2" using sw(2) by simp
  ultimately show ?thesis using s'(1,2) by auto
qed

end
