(* ===== verification/Messaging.thy ===== *)
theory Messaging
  imports Store Decoder
begin

text \<open>
  The chat from one client to another: the action creators of \<open>actions/ChatActions.ts\<close>, the
  middleware of \<open>messaging.ts\<close>, which encodes a message and sends its chunks to all peers, and
  \<open>PeerHandler.handleData\<close> of \<open>actions/PeerActions.ts\<close>, which decodes what a peer sends. JSON and
  the text codec are parameters. The theorem at the end composes middleware, encoder, decoder and
  the messages reducer: what one user sends is what the other user's chat shows.
\<close>

section \<open>Action creators\<close>

text \<open>\<open>JSON.parse\<close> throws or returns a value; \<open>None\<close> is the value \<open>null\<close>, and a value of another
  shape is a message with \<open>OtherBody\<close>.\<close>

record chat_env =
  ce_stringify :: "chat_message \<Rightarrow> string"
  ce_parse :: "string \<Rightarrow> js_error + chat_message option"
  ce_encode :: "string \<Rightarrow> byte list"
  ce_decode :: "byte list \<Rightarrow> string"

definition sendText :: "string \<Rightarrow> string \<Rightarrow> string \<Rightarrow> chat_message" where
  "sendText userId now payload = \<lparr>cm_userId = userId, cm_body = TextBody payload, cm_timestamp = now\<rparr>"

text \<open>\<open>sendFile\<close>: the notification it dispatches, or the message once the reader has loaded the
  data.\<close>

record js_file =
  fi_name :: string
  fi_size :: nat
  fi_type :: string

definition sendFile ::
  "bool \<Rightarrow> string \<Rightarrow> string \<Rightarrow> js_file \<Rightarrow> string \<Rightarrow> string + chat_message"
where
  "sendFile hasFileReader userId now f result =
    (if \<not> hasFileReader then Inl ''File API is not supported by your browser''
     else Inr \<lparr>cm_userId = userId, cm_body = FileBody \<lparr>fl_name = fi_name f, fl_size = fi_size f,
            fl_type = fi_type f, fl_data = result\<rparr>, cm_timestamp = now\<rparr>)"

section \<open>The middleware\<close>

fun error_text :: "js_error \<Rightarrow> string" where
  "error_text (EncoderError m) = ''Error: '' @ m"
| "error_text RangeError = ''RangeError''"
| "error_text TypeError = ''TypeError''"
| "error_text SyntaxError = ''SyntaxError''"
| "error_text PeerError = ''Error''"

text \<open>The listener of \<open>data\<close>: an exception of \<open>send\<close> creates a notification that nobody
  dispatches.\<close>

definition send_to :: "'p store_env \<Rightarrow> byte list \<Rightarrow> string \<times> nat \<Rightarrow> 'p store \<Rightarrow> 'p store" where
  "send_to env chunk = (\<lambda>(userId, peer) s.
    case peer_call (se_peer env) (Send peer chunk) (s_world s) of
      (None, w) \<Rightarrow> s\<lparr>s_world := w\<rparr>
    | (Some err, w) \<Rightarrow>
        s\<lparr>s_world := w, s_counter := snd (notify NotifyError [''Error sending message to peer: {0}'', error_text err] (s_counter s))\<rparr>)"

definition on_data :: "'p store_env \<Rightarrow> byte list \<Rightarrow> 'p store \<Rightarrow> 'p store" where
  "on_data env chunk s = fold (send_to env chunk) (s_peers s) s"

fun on_encoder_event :: "'p store_env \<Rightarrow> encoder_event \<Rightarrow> 'p store \<Rightarrow> 'p store" where
  "on_encoder_event env (ChunkEvent m n t sender chunk) s = on_data env chunk s"
| "on_encoder_event env (ErrorEvent err sender m) s =
     snd (dispatch_notify env NotifyError [''Error sending file: {0}'', error_text err] s)"
| "on_encoder_event env (DoneEvent sender m) s = s"

text \<open>The encoder with the listeners of the middleware.\<close>

definition createEncoder :: "int \<Rightarrow> js_error + encoder" where
  "createEncoder maxSize = andThen (new_encoder maxSize) (\<lambda>e. Inr (e\<lparr>e_errorListener := True\<rparr>))"

definition message_bytes :: "chat_env \<Rightarrow> chat_message \<Rightarrow> byte list" where
  "message_bytes cenv payload = ce_encode cenv (ce_stringify cenv payload)"

definition message_send ::
  "chat_env \<Rightarrow> 'p store_env \<Rightarrow> chat_message \<Rightarrow> 'p store \<times> encoder \<Rightarrow> js_error option \<times> 'p store \<times> encoder"
where
  "message_send cenv env payload = (\<lambda>(s, e).
    let e = fst (encode (ce_encode cenv)
          \<lparr>dc_senderId = se_me env, dc_data = message_bytes cenv payload\<rparr> e);
        (err, s) = reducers env (MessageAdd (payload\<lparr>cm_userId := ME\<rparr>)) s
    in (err, s, e))"

text \<open>The timer of \<open>encode\<close> fires: the listeners get the events in the order of their emission.\<close>

definition encoder_timer ::
  "'p store_env \<Rightarrow> 'p store \<times> encoder \<Rightarrow> (js_error option \<times> 'p store \<times> encoder) option"
where
  "encoder_timer env = (\<lambda>(s, e). Option.bind (fire e) (\<lambda>(e', err).
     Some (err, fold (on_encoder_event env) (drop (length (e_emitted e)) (e_emitted e')) s, e')))"

section \<open>The receiver\<close>

definition handleData ::
  "chat_env \<Rightarrow> 'p store_env \<Rightarrow> byte list \<Rightarrow> decoder \<times> 'p store \<Rightarrow> js_error option \<times> decoder \<times> 'p store"
where
  "handleData cenv env buffer = (\<lambda>(decoder, s).
    case decode (ce_decode cenv) decoder buffer of
      (decoder, Inl err) \<Rightarrow> (Some err, decoder, s)
    | (decoder, Inr None) \<Rightarrow> (None, decoder, s)
    | (decoder, Inr (Some dataContainer)) \<Rightarrow>
        (case ce_parse cenv (ce_decode cenv (dc_data dataContainer)) of
           Inl err \<Rightarrow> (Some err, decoder, s)
         | Inr None \<Rightarrow> (Some TypeError, decoder, s)
         | Inr (Some message) \<Rightarrow>
             let (err, s) = reducers env (MessageAdd message) s in (err, decoder, s)))"

section \<open>What the peers are sent\<close>

fun chunk_to :: "nat \<Rightarrow> peer_call \<Rightarrow> byte list list" where
  "chunk_to p (Send q c) = (if q = p then [c] else [])"
| "chunk_to p _ = []"

definition delivered :: "nat \<Rightarrow> peer_call list \<Rightarrow> byte list list" where
  "delivered p calls = concat (map (chunk_to p) calls)"

lemma delivered_append [simp]: "delivered p (xs @ ys) = delivered p xs @ delivered p ys"
  by (simp add: delivered_def)

definition sends_to :: "'p store_env \<Rightarrow> nat \<Rightarrow> bool" where
  "sends_to env p \<longleftrightarrow> (\<forall>log c. \<not> call_throws (se_peer env) log (Send p c))"

text \<open>Sending changes nothing of the store's state but the counter of the notifications.\<close>

definition same_state :: "'p store \<Rightarrow> 'p store \<Rightarrow> bool" where
  "same_state s s' \<longleftrightarrow> s' = s\<lparr>s_world := s_world s', s_counter := s_counter s'\<rparr>"

lemma same_state_refl [simp]: "same_state s s"
  by (simp add: same_state_def)

lemma same_state_trans: "same_state s s' \<Longrightarrow> same_state s' s'' \<Longrightarrow> same_state s s''"
  unfolding same_state_def by (metis store.surjective store.update_convs(8,9))

lemma send_to_state: "same_state s (send_to env chunk up s)"
  by (auto simp: send_to_def same_state_def split: prod.split option.split)

lemma send_to_delivered:
  "delivered p (pw_calls (s_world (send_to env chunk up s))) = delivered p (pw_calls (s_world s)) @
     (if snd up = p \<and> pw_calls (s_world (send_to env chunk up s)) \<noteq> pw_calls (s_world s) then [chunk] else [])"
  "snd up = p \<Longrightarrow> sends_to env p \<Longrightarrow> pw_calls (s_world (send_to env chunk up s)) = pw_calls (s_world s) @ [Send p chunk]"
  by (cases up; auto simp: send_to_def peer_call_def sends_to_def delivered_def)+

lemma on_data_state: "same_state s (on_data env chunk s)"
proof -
  have "same_state t (fold (send_to env chunk) ps t)" for ps t
    by (induction ps arbitrary: t) (auto intro: same_state_trans send_to_state)
  then show ?thesis by (simp add: on_data_def)
qed

lemma on_data_delivered:
  assumes "sends_to env p" and "distinct (map snd (s_peers s))" and "p \<in> set (map snd (s_peers s))"
  shows "delivered p (pw_calls (s_world (on_data env chunk s))) = delivered p (pw_calls (s_world s)) @ [chunk]"
proof -
  have "delivered p (pw_calls (s_world (fold (send_to env chunk) ps t))) = delivered p (pw_calls (s_world t)) @
      (if p \<in> set (map snd ps) then [chunk] else [])" if "distinct (map snd ps)" for ps t
    using that
  proof (induction ps arbitrary: t)
    case (Cons up ps)
    then show ?case
      using send_to_delivered [where p = p and env = env and chunk = chunk and up = up and s = t] assms(1) by (cases "snd up = p") (auto simp: delivered_def)
  qed simp
  then show ?thesis using assms by (simp add: on_data_def)
qed

lemma same_state_peers: "same_state s s' \<Longrightarrow> s_peers s' = s_peers s"
  unfolding same_state_def by (metis store.select_convs(5) store.surjective store.update_convs(8,9))

lemma chunk_events:
  fixes pl d
  defines "ev \<equiv> chunk_event pl d"
  shows "same_state s (fold (on_encoder_event env) (map ev is) s)"
    and "sends_to env p \<Longrightarrow> distinct (map snd (s_peers s)) \<Longrightarrow> p \<in> set (map snd (s_peers s)) \<Longrightarrow>
      delivered p (pw_calls (s_world (fold (on_encoder_event env) (map ev is) s))) =
      delivered p (pw_calls (s_world s)) @
      map (chunk_bytes (wp_messageId pl) d (wp_senderIdBytes pl) (wp_data pl)) is"
proof (induction "is" arbitrary: s)
  case (Cons i "is")
  have e: "on_encoder_event env (ev i) s = on_data env (chunk_bytes (wp_messageId pl) d (wp_senderIdBytes pl) (wp_data pl) i) s"
    for s :: "'a store"
    by (simp add: ev_def chunk_event_def)
  {
    case 1
    show ?case using same_state_trans [OF on_data_state Cons.IH(1)] by (simp add: e)
  next
    case 2
    then show ?case
      using Cons.IH(2) [of "on_encoder_event env (ev i) s"]
      by (simp add: e on_data_delivered same_state_peers [OF on_data_state])
  }
qed simp_all

lemma fire_chunks:
  assumes "e_pending e = pl # rest" and "fits pl d"
  shows "\<exists>e'. fire e = Some (e', None) \<and> e_pending e' = rest \<and> e_counter e' = e_counter e \<and> e_max e' = e_max e \<and>
    e_emitted e' = e_emitted e @ map (chunk_event pl d) [0..<n_chunks d (length (wp_data pl))] @
      [DoneEvent (wp_senderId pl) (wp_messageId pl)]"
  using assms by (simp add: fire_def worker_onmessage_eq emit_chunks settle_def)

lemma encoder_timer_chunks:
  assumes "e_pending e = pl # rest" and "fits pl d"
  shows "\<exists>s' e'. encoder_timer env (s, e) = Some (None, s', e') \<and> e_pending e' = rest \<and> same_state s s' \<and>
    (\<forall>p \<in> set (map snd (s_peers s)). distinct (map snd (s_peers s)) \<and> sends_to env p \<longrightarrow>
       delivered p (pw_calls (s_world s')) = delivered p (pw_calls (s_world s)) @
         message_chunks (wp_messageId pl) d (wp_senderIdBytes pl) (wp_data pl))"
proof -
  let ?is = "[0..<n_chunks d (length (wp_data pl))]"
  let ?s = "fold (on_encoder_event env) (map (chunk_event pl d) ?is) s"
  obtain e' where e': "fire e = Some (e', None)" "e_pending e' = rest"
    "e_emitted e' = e_emitted e @ map (chunk_event pl d) ?is @ [DoneEvent (wp_senderId pl) (wp_messageId pl)]"
    using fire_chunks [OF assms] by blast
  then have "encoder_timer env (s, e) = Some (None, ?s, e')"
    by (simp add: encoder_timer_def)
  moreover have "delivered p (pw_calls (s_world ?s)) = delivered p (pw_calls (s_world s)) @
      message_chunks (wp_messageId pl) d (wp_senderIdBytes pl) (wp_data pl)"
    if "p \<in> set (map snd (s_peers s))" "distinct (map snd (s_peers s))" "sends_to env p" for p
    using chunk_events(2) [OF that(3,2,1)] by (simp add: message_chunks_def)
  ultimately show ?thesis using e'(2) chunk_events(1) by blast
qed

section \<open>End to end\<close>

lemma reducers_message:
  "reducers env (MessageAdd m) s = (None, s\<lparr>s_messages := handleMessage (se_locale env) m (s_messages s)\<rparr>)"
  by (simp add: reducers_def peers_slice_def windowStates_def)

text \<open>A message that arrives in pieces: nothing happens until the last of them.\<close>

lemma handleData_results:
  assumes "snd (decode_all (ce_decode cenv) ds cs) = replicate n (Inr None) @ [Inr (Some dc)]"
    and "ce_parse cenv (ce_decode cenv (dc_data dc)) = Inr (Some m)"
  shows "for_each (handleData cenv env) cs (ds, t) =
    (None, fst (decode_all (ce_decode cenv) ds cs), t\<lparr>s_messages := handleMessage (se_locale env) m (s_messages t)\<rparr>)"
  using assms(1)
proof (induction cs arbitrary: ds n)
  case (Cons c cs)
  obtain ds' r where d: "decode (ce_decode cenv) ds c = (ds', r)" by fastforce
  obtain ds'' rs where rest: "decode_all (ce_decode cenv) ds' cs = (ds'', rs)" by fastforce
  from Cons.prems have rs: "r # rs = replicate n (Inr None) @ [Inr (Some dc)]" by (simp add: d rest)
  show ?case
  proof (cases n)
    case 0
    with rs have "rs = []" and r: "r = Inr (Some dc)" by simp_all
    then have "cs = []" using rest by (cases cs) (auto simp: split_beta Let_def)
    then show ?thesis using rest by (simp add: handleData_def d r assms(2) reducers_message)
  next
    case (Suc k)
    with rs have "r = Inr None" and "rs = replicate k (Inr None) @ [Inr (Some dc)]" by simp_all
    then show ?thesis using Cons.IH [of ds' k] rest by (simp add: handleData_def d)
  qed
qed simp

lemma results_for_all:
  "length rs = length cs \<Longrightarrow> (\<forall>c \<in> set cs. chunk_key td c = k) \<Longrightarrow> results_for td k cs rs = rs"
  by (induction rs cs rule: list_induct2) (simp_all add: results_for_def)

lemma length_decode_all: "length (snd (decode_all td ds cs)) = length cs"
  by (induction cs arbitrary: ds) (simp_all add: split_beta Let_def)

text \<open>
  C1. A chat message arrives. One user sends a message that fits the limits of the encoder; the
  peer connection to the other user does not refuse data and transports the new chunks in any order.
  Then no step on either side throws; the sender's chat shows the message as the sender's own, and
  the receiver's chat grows by exactly this message, however many other peers fail to be sent to.
\<close>

theorem chat_message_arrives:
  fixes msg :: chat_message and s t :: "'p store"
  assumes codec: "\<And>x. ce_decode cenv (ce_encode cenv x) = x"
    and json: "ce_parse cenv (ce_stringify cenv msg) = Inr (Some msg)"
    and enc: "counter_ok e" "e_pending e = []" "e_max e = int (headerSizeBytes + length (ce_encode cenv (se_me env)) + d)"
    and limits: "0 < d" "length (ce_encode cenv (se_me env)) < 2 ^ 16" "length (ce_encode cenv (se_me env)) + d < 2 ^ 31"
      "message_bytes cenv msg \<noteq> []" "length (message_bytes cenv msg) < 2 ^ 31" "n_chunks d (length (message_bytes cenv msg)) < 2 ^ 16"
    and peer: "distinct (map snd (s_peers s))" "p \<in> set (map snd (s_peers s))" "sends_to env p"
    and fresh: "\<And>m. oget ds (message_key (se_me env) m) = None"
  shows "\<exists>s1 e1 s2 e2. message_send cenv env msg (s, e) = (None, s1, e1) \<and>
    s_messages s1 = handleMessage (se_locale env) (msg\<lparr>cm_userId := ME\<rparr>) (s_messages s) \<and>
    encoder_timer env (s1, e1) = Some (None, s2, e2) \<and> e_pending e2 = [] \<and> s_messages s2 = s_messages s1 \<and>
    (\<forall>cs. mset (delivered p (pw_calls (s_world s2))) = mset (delivered p (pw_calls (s_world s))) + mset cs \<longrightarrow>
      (\<exists>ds'. for_each (handleData cenv env') cs (ds, t) =
        (None, ds', t\<lparr>s_messages := handleMessage (se_locale env') msg (s_messages t)\<rparr>)))"
proof -
  let ?sid = "ce_encode cenv (se_me env)"
  let ?dc = "\<lparr>dc_senderId = se_me env, dc_data = message_bytes cenv msg\<rparr>"
  let ?mid = "snd (encode (ce_encode cenv) ?dc e)" and ?e1 = "fst (encode (ce_encode cenv) ?dc e)"
  let ?pl = "\<lparr>wp_messageId = ?mid, wp_maxMessageSizeBytes = e_max e, wp_data = message_bytes cenv msg,
      wp_senderId = se_me env, wp_senderIdBytes = ?sid\<rparr>"
  let ?s1 = "s\<lparr>s_messages := handleMessage (se_locale env) (msg\<lparr>cm_userId := ME\<rparr>) (s_messages s)\<rparr>"
  let ?k = "message_key (se_me env) ?mid"
  have send: "message_send cenv env msg (s, e) = (None, ?s1, ?e1)"
    by (simp add: message_send_def reducers_message)
  have pend: "e_pending ?e1 = [?pl]" using enc(2) by (simp add: encode_def Let_def)
  have fits: "fits ?pl d" using limits(1) enc(3) by (simp add: fits_def)
  obtain s2 e2 where t: "encoder_timer env (?s1, ?e1) = Some (None, s2, e2)" "e_pending e2 = []" "same_state ?s1 s2"
    and del: "delivered p (pw_calls (s_world s2)) = delivered p (pw_calls (s_world s)) @ message_chunks ?mid d ?sid (message_bytes cenv msg)"
    using encoder_timer_chunks [OF pend fits, of env ?s1] peer by auto
  have mid: "0 \<le> ?mid" "?mid < 2 ^ 16"
    using encode_counter(1) [OF enc(1)] pos_mod_bound [of 65535 "e_counter e"] pos_mod_sign [of 65535 "e_counter e"] by simp_all
  have vm: "valid_message ?mid d ?sid (message_bytes cenv msg)"
    using mid limits by (simp add: valid_message_def)
  have "\<exists>ds'. for_each (handleData cenv env') cs (ds, t) =
      (None, ds', t\<lparr>s_messages := handleMessage (se_locale env') msg (s_messages t)\<rparr>)"
    if "mset (delivered p (pw_calls (s_world s2))) = mset (delivered p (pw_calls (s_world s))) + mset cs" for cs
  proof -
    have cs: "mset cs = mset (message_chunks ?mid d ?sid (message_bytes cenv msg))" using that del by simp
    then have key: "\<forall>c \<in> set cs. chunk_key (ce_decode cenv) c = ?k"
      using chunk_key_chunk_bytes [OF vm, of _ "ce_decode cenv"] codec mset_eq_setD [OF cs]
      by (auto simp: message_chunks_def)
    then have "filter (\<lambda>c. chunk_key (ce_decode cenv) c = ?k) cs = cs" by simp
    then have "snd (decode_all (ce_decode cenv) ds cs) =
        replicate (n_chunks d (length (message_bytes cenv msg)) - 1) (Inr None) @ [Inr (Some ?dc)]"
      using decode_message(1) [OF vm limits(4), of ?k "ce_decode cenv" ds cs] codec fresh cs
        results_for_all [OF length_decode_all key] by simp
    from handleData_results [OF this, of msg env' t] show ?thesis
      using codec json by (simp add: message_bytes_def)
  qed
  moreover have "s_messages s2 = s_messages ?s1"
    using t(3) unfolding same_state_def by (metis store.select_convs(2) store.surjective store.update_convs(8,9))
  ultimately show ?thesis using send t(1,2) by auto
qed

section \<open>Failures\<close>

lemma no_space_text:
  "format ''Error sending file: {0}'' [''Error: Not enough space for data.''] =
   ''Error sending file: Error: Not enough space for data.''"
  by code_simp

lemma encoder_timer_no_space:
  assumes "e_pending e = pl # rest" and "wp_maxMessageSizeBytes pl \<le> int (headerSizeBytes + length (wp_senderIdBytes pl))"
    and "e_errorListener e"
    and n_def: "n = fst (notify NotifyError [''Error sending file: {0}'', ''Error: Not enough space for data.''] (s_counter s))"
  shows "\<exists>e'. encoder_timer env (s, e) = Some (None, s\<lparr>s_counter := Suc (s_counter s),
      s_notifications := oset (nt_id n) n (s_notifications s),
      s_messages := (s_messages s)\<lparr>msg_list := msg_list (s_messages s) @ [convertNotificationToMessage (se_now env) n]\<rparr>\<rparr>, e') \<and>
    e_pending e' = rest"
  using assms(1-3) unfolding n_def
  by (simp add: encoder_timer_def fire_def worker_onmessage_def Let_def settle_def dispatch_notify_def n_def
      reducers_def peers_slice_def windowStates_def notify_def)

text \<open>
  C35. What the timer of a message does, for every state of the peers. If there is room for data, the
  chunks go, in order, to each peer whose \<open>send\<close> does not throw, whatever the other peers do; and
  however many of them throw, the user is told nothing: chat and notifications do not change. If
  there is no room, nothing is sent and an error is shown in the notifications and the chat.
\<close>

theorem message_timer_outcome:
  assumes "e_pending e = pl # rest" and "e_errorListener e" and "distinct (map snd (s_peers s))"
  shows "\<exists>s' e'. encoder_timer env (s, e) = Some (None, s', e') \<and> e_pending e' = rest \<and> s_peers s' = s_peers s \<and>
    (if wp_maxMessageSizeBytes pl \<le> int (headerSizeBytes + length (wp_senderIdBytes pl))
     then s_world s' = s_world s \<and>
       (\<exists>n. nt_type n = NotifyError \<and> nt_message n = ''Error sending file: Error: Not enough space for data.'' \<and>
          oget (s_notifications s') (nt_id n) = Some n \<and>
          msg_list (s_messages s') = msg_list (s_messages s) @ [convertNotificationToMessage (se_now env) n])
     else s_messages s' = s_messages s \<and> s_notifications s' = s_notifications s \<and>
       (\<forall>p. p \<in> set (map snd (s_peers s)) \<and> (\<forall>log c. \<not> call_throws (se_peer env) log (Send p c)) \<longrightarrow>
          delivered p (pw_calls (s_world s')) = delivered p (pw_calls (s_world s)) @
            message_chunks (wp_messageId pl)
              (nat (wp_maxMessageSizeBytes pl) - headerSizeBytes - length (wp_senderIdBytes pl))
              (wp_senderIdBytes pl) (wp_data pl)))"
proof (cases "wp_maxMessageSizeBytes pl \<le> int (headerSizeBytes + length (wp_senderIdBytes pl))")
  case True
  let ?n = "fst (notify NotifyError [''Error sending file: {0}'', ''Error: Not enough space for data.''] (s_counter s))"
  have "nt_type ?n = NotifyError" "nt_message ?n = ''Error sending file: Error: Not enough space for data.''"
    using no_space_text by (simp_all add: notify_def Let_def)
  with encoder_timer_no_space [OF assms(1) True assms(2) refl, of env s]
  obtain n e' where n: "nt_type n = NotifyError" "nt_message n = ''Error sending file: Error: Not enough space for data.''"
    and t: "encoder_timer env (s, e) = Some (None, s\<lparr>s_counter := Suc (s_counter s),
      s_notifications := oset (nt_id n) n (s_notifications s),
      s_messages := (s_messages s)\<lparr>msg_list := msg_list (s_messages s) @ [convertNotificationToMessage (se_now env) n]\<rparr>\<rparr>, e')"
    "e_pending e' = rest"
    by blast
  have "\<exists>m. nt_type m = NotifyError \<and> nt_message m = ''Error sending file: Error: Not enough space for data.'' \<and>
      oget (oset (nt_id n) n (s_notifications s)) (nt_id m) = Some m \<and>
      convertNotificationToMessage (se_now env) n = convertNotificationToMessage (se_now env) m"
    using n by (intro exI [of _ n]) simp
  then show ?thesis using t True by simp
next
  case False
  let ?d = "nat (wp_maxMessageSizeBytes pl) - headerSizeBytes - length (wp_senderIdBytes pl)"
  have "fits pl ?d" using False by (simp add: fits_def nat_diff_distrib)
  from encoder_timer_chunks [OF assms(1) this, of env s] assms(3) obtain s' e' where
    t: "encoder_timer env (s, e) = Some (None, s', e')" "e_pending e' = rest" "same_state s s'"
    and del: "\<And>p. p \<in> set (map snd (s_peers s)) \<Longrightarrow> sends_to env p \<Longrightarrow> delivered p (pw_calls (s_world s')) =
      delivered p (pw_calls (s_world s)) @ message_chunks (wp_messageId pl) ?d (wp_senderIdBytes pl) (wp_data pl)"
    by blast
  have "s_messages s' = s_messages s" "s_notifications s' = s_notifications s"
    using t(3) unfolding same_state_def by (metis store.select_convs(1,2) store.surjective store.update_convs(8,9))+
  then show ?thesis
    using t(1,2) same_state_peers [OF t(3)] del False unfolding sends_to_def by auto
qed

section \<open>Runs that meet the hypotheses\<close>

definition toy_chat :: chat_env where
  "toy_chat = \<lparr>ce_stringify = (\<lambda>m. case cm_body m of TextBody t \<Rightarrow> t | _ \<Rightarrow> ''''),
     ce_parse = (\<lambda>t. Inr (Some (sendText ''me'' ''now'' t))),
     ce_encode = map (\<lambda>c. of_nat (of_char c)), ce_decode = sample_text\<rparr>"

definition toy_encoder :: encoder where
  "toy_encoder = \<lparr>e_counter = 0, e_max = 20, e_pending = [], e_nextPromise = 0, e_waiters = [], e_settled = [],
     e_emitted = [], e_errorListener = True\<rparr>"

definition toy_sender :: "nat store" where
  "toy_sender = toy_store\<lparr>s_peers := [(''ann'', 1)]\<rparr>"

lemma toy_codec: "sample_text (map (\<lambda>c. of_nat (of_char c)) t) = t"
proof -
  have "unat (of_nat (of_char c) :: byte) = of_char c" for c
    using nat_of_char_less_256 [of c] by (simp add: unat_of_nat)
  then show ?thesis by (simp add: sample_text_def comp_def)
qed

theorem chat_message_arrives_witness:
  "\<exists>s1 e1 s2 e2 ds. message_send toy_chat toy_store_env (sendText ''me'' ''now'' ''hello'') (toy_sender, toy_encoder) = (None, s1, e1) \<and>
     encoder_timer toy_store_env (s1, e1) = Some (None, s2, e2) \<and>
     map ms_message (msg_list (s_messages s2)) = [''hello''] \<and>
     for_each (handleData toy_chat toy_store_env) (rev (delivered 1 (pw_calls (s_world s2)))) ([], toy_store) =
       (None, ds, toy_store\<lparr>s_messages := handleMessage (\<lambda>t. t) (sendText ''me'' ''now'' ''hello'') messages_default\<rparr>)"
proof -
  let ?msg = "sendText ''me'' ''now'' ''hello''"
  have init: "delivered 1 (pw_calls (s_world toy_sender)) = []" "s_messages toy_store = messages_default"
    "s_messages toy_sender = messages_default"
    by (simp_all add: toy_sender_def toy_store_def initial_store_def toy_peer_world_def delivered_def)
  have "\<exists>s1 e1 s2 e2. message_send toy_chat toy_store_env ?msg (toy_sender, toy_encoder) = (None, s1, e1) \<and>
    s_messages s1 = handleMessage (se_locale toy_store_env) (?msg\<lparr>cm_userId := ME\<rparr>) (s_messages toy_sender) \<and>
    encoder_timer toy_store_env (s1, e1) = Some (None, s2, e2) \<and> e_pending e2 = [] \<and> s_messages s2 = s_messages s1 \<and>
    (\<forall>cs. mset (delivered 1 (pw_calls (s_world s2))) = mset (delivered 1 (pw_calls (s_world toy_sender))) + mset cs \<longrightarrow>
      (\<exists>ds'. for_each (handleData toy_chat toy_store_env) cs ([], toy_store) =
        (None, ds', toy_store\<lparr>s_messages := handleMessage (se_locale toy_store_env) ?msg (s_messages toy_store)\<rparr>)))"
    by (rule chat_message_arrives [where d = 2])
      (simp_all add: toy_chat_def toy_codec toy_encoder_def toy_sender_def toy_store_env_def toy_peer_env_def counter_ok_def
        maxMessageId_def headerSizeBytes_def sendText_def message_bytes_def n_chunks_def sends_to_def)
  then obtain s1 e1 s2 e2 where m: "message_send toy_chat toy_store_env ?msg (toy_sender, toy_encoder) = (None, s1, e1)"
    "s_messages s1 = handleMessage (se_locale toy_store_env) (?msg\<lparr>cm_userId := ME\<rparr>) (s_messages toy_sender)"
    "encoder_timer toy_store_env (s1, e1) = Some (None, s2, e2)" "s_messages s2 = s_messages s1"
    and all: "\<And>cs. mset (delivered 1 (pw_calls (s_world s2))) = mset (delivered 1 (pw_calls (s_world toy_sender))) + mset cs \<Longrightarrow>
      \<exists>ds'. for_each (handleData toy_chat toy_store_env) cs ([], toy_store) =
        (None, ds', toy_store\<lparr>s_messages := handleMessage (se_locale toy_store_env) ?msg (s_messages toy_store)\<rparr>)"
    by blast
  have loc: "se_locale toy_store_env = (\<lambda>t. t)" by (simp add: toy_store_env_def)
  have "map ms_message (msg_list (s_messages s2)) = [''hello'']"
    using m(2,4) init(3) by (simp add: handleMessage_def sendText_def messages_default_def)
  moreover obtain ds where "for_each (handleData toy_chat toy_store_env) (rev (delivered 1 (pw_calls (s_world s2)))) ([], toy_store) =
      (None, ds, toy_store\<lparr>s_messages := handleMessage (\<lambda>t. t) ?msg messages_default\<rparr>)"
    using all [of "rev (delivered 1 (pw_calls (s_world s2)))"] unfolding init loc by auto
  ultimately show ?thesis
    using m(1,3) by (intro exI [of _ s1] exI [of _ e1] exI [of _ s2] exI [of _ e2] exI [of _ ds] conjI)
qed

theorem message_timer_outcome_witness:
  "\<exists>s e. encoder_timer toy_store_env (toy_sender, toy_encoder\<lparr>e_pending := [sample_payload]\<rparr>) = Some (None, s, e) \<and>
     delivered 1 (pw_calls (s_world s)) = [sample_chunk 0, sample_chunk 1] \<and> s_notifications s = []"
proof -
  have init: "delivered 1 (pw_calls (s_world toy_sender)) = []" "s_notifications toy_sender = []"
    "s_peers toy_sender = [(''ann'', 1)]" "e_errorListener (toy_encoder\<lparr>e_pending := [sample_payload]\<rparr>)"
    by (simp_all add: toy_sender_def toy_store_def initial_store_def toy_peer_world_def delivered_def toy_encoder_def)
  have "\<not> call_throws (se_peer toy_store_env) log c" for log c by (simp add: toy_store_env_def toy_peer_env_def)
  moreover have "message_chunks 1 2 [97] [1, 2, 3] = [sample_chunk 0, sample_chunk 1]"
    by (simp add: message_chunks_def sample_chunk_def sample_sizes)
  ultimately show ?thesis
    using message_timer_outcome [of "toy_encoder\<lparr>e_pending := [sample_payload]\<rparr>" sample_payload "[]" toy_sender toy_store_env] init
    by (auto simp: sample_payload_def headerSizeBytes_def)
qed

end
