(* ===== verification/Effects.thy ===== *)
theory Effects
  imports Store
begin

text \<open>
  What the reducers do to the peers and to the encryption codec. The locale \<open>world_invariant\<close> lists
  the primitive effects: a call on a peer of a set, an \<open>encrypt\<close> of the codec, the timer of a
  hang-up, and changes of streams. An invariant that survives them survives the handlers of
  \<open>reducers/peers.ts\<close> and every dispatch. Two instances: all calls go to peers of the set, and no
  reducer posts a password to the worker.
\<close>

fun callee :: "peer_call \<Rightarrow> nat" where
  "callee (AddTrack p t s) = p"
| "callee (RemoveTrack p t s) = p"
| "callee (ReplaceTrack p t t' s) = p"
| "callee (Destroy p) = p"
| "callee (Signal p s) = p"
| "callee (Send p b) = p"

section \<open>Invariants of peers and codec\<close>

locale world_invariant =
  fixes env :: peer_env
    and A :: "nat set"
    and inv :: "'p peer_world \<Rightarrow> bool"
  assumes call: "inv w \<Longrightarrow> callee c \<in> A \<Longrightarrow> inv (snd (peer_call env c w))"
    and encrypt: "inv w \<Longrightarrow> inv (w\<lparr>pw_codec := fst (codec_encrypt s r (pw_codec w))\<rparr>)"
    and frame: "inv w \<Longrightarrow> pw_calls w' = pw_calls w \<Longrightarrow> pw_codec w' = pw_codec w \<Longrightarrow> pw_timers w' = pw_timers w \<Longrightarrow> inv w'"
    and scheduled: "inv w \<Longrightarrow> set (pw_timers w) \<subseteq> A"
    and schedule: "inv w \<Longrightarrow> set ps \<subseteq> A \<Longrightarrow> inv (w\<lparr>pw_timers := ps\<rparr>)"
begin

lemma remove_inv: "p \<in> A \<Longrightarrow> inv w \<Longrightarrow> inv (snd (removeTrackFromPeer env p s t w))"
  by (simp add: removeTrackFromPeer_def call)

lemma add_inv: "p \<in> A \<Longrightarrow> inv w \<Longrightarrow> inv (snd (add_and_encrypt env p s t w))"
  using call [of w "AddTrack p t s"]
  by (auto simp: add_and_encrypt_def Let_def intro: encrypt split: prod.split option.split)

lemma loop_inv:
  "(\<And>x w. x \<in> set xs \<Longrightarrow> inv w \<Longrightarrow> inv (snd (f x w))) \<Longrightarrow> inv w \<Longrightarrow> inv (snd (for_each f xs w))"
  by (rule for_each_keeps)

lemma remove_all_inv: "p \<in> A \<Longrightarrow> inv w \<Longrightarrow> inv (snd (for_each (removeTrackFromPeer env p s) ts w))"
  by (rule loop_inv) (simp_all add: remove_inv)

lemma add_all_inv: "p \<in> A \<Longrightarrow> inv w \<Longrightarrow> inv (snd (for_each (add_and_encrypt env p s) ts w))"
  by (rule loop_inv) (simp_all add: add_inv)

lemma frames: "inv w \<Longrightarrow> inv (with_streams g w)" "inv w \<Longrightarrow> inv (w\<lparr>pw_streams := x\<rparr>)"
  "inv w \<Longrightarrow> inv (w\<lparr>pw_local := l\<rparr>)" "inv w \<Longrightarrow> inv (w\<lparr>pw_enabled := e\<rparr>)"
  by (erule frame; simp add: with_streams_def)+

lemma handleRemoveLocalStream_inv:
  "snd ` set st \<subseteq> A \<Longrightarrow> inv w \<Longrightarrow> inv (snd (handleRemoveLocalStream env st stream w))"
  unfolding handleRemoveLocalStream_def by (rule loop_inv) (auto simp: remove_all_inv)

lemma handleConnect_inv: "p \<in> A \<Longrightarrow> inv w \<Longrightarrow> inv (snd (handleConnect env p ls w))"
  unfolding handleConnect_def by (rule loop_inv) (auto simp: add_all_inv)

lemma handleLocalMediaStream_inv:
  assumes st: "snd ` set st \<subseteq> A" and w: "inv w"
  shows "inv (snd (handleLocalMediaStream env st action w))"
proof (cases action)
  case (Resolved ts)
  obtain type stream where ts: "ts = (type, stream)" by fastforce
  let ?f = "\<lambda>(_, peer) w.
         let (_, w) = (case map_of (pw_local w) type of
               None \<Rightarrow> (None, w)
             | Some l \<Rightarrow> for_each (removeTrackFromPeer env peer l) (tracks_in w l) w)
         in for_each (add_and_encrypt env peer stream) (tracks_in w stream) w"
  have one: "inv (snd (?f x v))" if "snd x \<in> A" "inv v" for x :: "string \<times> nat" and v
  proof -
    obtain u p where x: "x = (u, p)" by fastforce
    have "inv (snd (case map_of (pw_local v) type of None \<Rightarrow> (None, v)
        | Some l \<Rightarrow> for_each (removeTrackFromPeer env p l) (tracks_in v l) v))"
      using that by (simp add: x remove_all_inv split: option.split)
    then show ?thesis using that by (simp add: x split_beta Let_def add_all_inv)
  qed
  have "inv (snd (for_each ?f st w))"
    by (rule loop_inv [OF _ w], rule one) (use st in auto)
  moreover obtain e w1 where r: "for_each ?f st w = (e, w1)" by fastforce
  ultimately have w1: "inv w1" by simp
  from r have "handleLocalMediaStream env st action w =
      (case e of None \<Rightarrow> (None, w1\<lparr>pw_local := AList.update type stream (pw_local w1)\<rparr>) | Some e \<Rightarrow> (Some e, w1))"
    by (simp add: handleLocalMediaStream_def Resolved ts split: option.split)
  with w1 show ?thesis by (simp add: frames split: option.split)
qed (simp_all add: handleLocalMediaStream_def w)

lemma handleLocalMediaTrack_inv:
  assumes st: "snd ` set st \<subseteq> A" and w: "inv w"
  shows "inv (snd (handleLocalMediaTrack env st action w))"
proof (cases "\<exists>p l. action = Resolved p \<and> map_of (pw_local w) (mt_type p) = Some l")
  case False
  then show ?thesis by (auto simp: handleLocalMediaTrack_def w split: async_action.split option.split)
next
  case True
  then obtain p l where a: "action = Resolved p" and l: "map_of (pw_local w) (mt_type p) = Some l" by blast
  have loop: "inv (snd (for_each (\<lambda>(_, peer). peer_call env (ReplaceTrack peer old n l)) st w))"
    "inv (snd (for_each (\<lambda>(_, peer). add_and_encrypt env peer l n) st w))" for old n
    by (rule loop_inv [OF _ w]; use st in \<open>auto simp: call add_inv\<close>)+
  show ?thesis
  proof (cases "getTracksByKind w l (mt_kind p)")
    case Nil
    then show ?thesis
      using loop(2) [of "the (mt_track p)"] w
      by (cases "mt_track p") (auto simp: handleLocalMediaTrack_def a l frames split: prod.splits option.splits)
  next
    case (Cons old rest)
    then show ?thesis
      using loop(1) [of old "the (mt_track p)"] w
      by (cases "mt_track p") (auto simp: handleLocalMediaTrack_def a l frames split: prod.splits option.splits)
  qed
qed

lemma handleLocalMediaTrackEnable_inv: "inv w \<Longrightarrow> inv (handleLocalMediaTrackEnable kind type w)"
proof -
  assume w: "inv w"
  have "inv v \<Longrightarrow> inv (fold (\<lambda>t w. w\<lparr>pw_enabled := (pw_enabled w)(t := True)\<rparr>) ts v)" for ts v
    by (induction ts arbitrary: v) (simp_all add: frames)
  with w show ?thesis by (simp add: handleLocalMediaTrackEnable_def split: option.split)
qed

lemma peers_inv:
  assumes st: "snd ` set st \<subseteq> A" and w: "inv w"
  shows "inv (snd (snd (Peers.peers env a (st, w))))"
proof (cases a)
  case HANG_UP
  have "inv (w\<lparr>pw_timers := pw_timers w @ map snd st\<rparr>)" using st w scheduled [OF w] by (intro schedule) auto
  then have "inv (w\<lparr>pw_local := [], pw_timers := pw_timers w @ map snd st\<rparr>)" by (rule frame) simp_all
  then show ?thesis by (simp add: HANG_UP)
qed (simp_all add: w st split_beta Let_def handleRemoveLocalStream_inv handleLocalMediaStream_inv
    handleLocalMediaTrack_inv handleLocalMediaTrackEnable_inv)

lemma destroy_timer_inv:
  assumes w: "inv w"
  shows "inv (snd (destroy_timer env w))"
  unfolding destroy_timer_def
proof (rule loop_inv)
  show "inv (snd (peer_call env (Destroy x) v))" if "x \<in> set (pw_timers w)" "inv v" for x v
    using that scheduled [OF w] by (intro call) auto
  show "inv (w\<lparr>pw_timers := []\<rparr>)" using w by (rule schedule) simp
qed

end

section \<open>Every dispatch\<close>

lemma peers_members:
  assumes "Peers.peers env a (st, w) = (e, st', w')"
  shows "set st' \<subseteq> set st \<union> {(u, p). a = PEER_ADD u p}" and "wf_obj st \<Longrightarrow> wf_obj st'"
proof -
  have "set st' \<subseteq> set st \<union> {(u, p). a = PEER_ADD u p} \<and> (wf_obj st \<longrightarrow> wf_obj st')"
  proof (cases a)
    case (PEER_ADD u p)
    then show ?thesis using assms set_oset [of u p st] by auto
  next
    case (PEER_REMOVE u)
    then show ?thesis using assms wf_obj_omit [of st "[u]"] by (auto simp: omit_def)
  qed (use assms in \<open>auto split: prod.splits\<close>)
  then show "set st' \<subseteq> set st \<union> {(u, p). a = PEER_ADD u p}" "wf_obj st \<Longrightarrow> wf_obj st'" by blast+
qed

lemma reducers_parts:
  assumes "peers_slice env a s = (e, ps, w)"
  shows "s_peers (snd (reducers env a s)) = ps \<or> s_peers (snd (reducers env a s)) = s_peers s"
    and "\<exists>x. s_world (snd (reducers env a s)) = w\<lparr>pw_streams := x\<rparr>"
proof -
  have "\<exists>x. w = w\<lparr>pw_streams := x\<rparr>" by (rule exI [of _ "pw_streams w"]) simp
  then show "s_peers (snd (reducers env a s)) = ps \<or> s_peers (snd (reducers env a s)) = s_peers s"
    "\<exists>x. s_world (snd (reducers env a s)) = w\<lparr>pw_streams := x\<rparr>"
    using assms by (auto simp: reducers_def Let_def split: prod.splits option.splits sum.splits)
qed

lemma reducers_members:
  "set (s_peers (snd (reducers env a s))) \<subseteq> set (s_peers s) \<union> {(u, p). a = AddPeer u p}"
  "wf_obj (s_peers s) \<Longrightarrow> wf_obj (s_peers (snd (reducers env a s)))"
proof -
  obtain e ps w where p: "peers_slice env a s = (e, ps, w)" by (metis prod_cases3)
  have "set ps \<subseteq> set (s_peers s) \<union> {(u, p). a = AddPeer u p} \<and> (wf_obj (s_peers s) \<longrightarrow> wf_obj ps)"
  proof (cases "to_peers a")
    case None
    then show ?thesis using p by (simp add: peers_slice_def)
  next
    case (Some b)
    then have "(b = PEER_ADD u q) = (a = AddPeer u q)" for u q by (cases a) auto
    then show ?thesis
      using peers_members [of "se_peer env" b "s_peers s" "s_world s" e ps w] p Some by (auto simp: peers_slice_def)
  qed
  with reducers_parts(1) [OF p] show
    "set (s_peers (snd (reducers env a s))) \<subseteq> set (s_peers s) \<union> {(u, p). a = AddPeer u p}"
    "wf_obj (s_peers s) \<Longrightarrow> wf_obj (s_peers (snd (reducers env a s)))" by auto
qed

context world_invariant
begin

lemma reducers_inv:
  assumes "env = se_peer senv" and st: "snd ` set (s_peers s) \<subseteq> A" and w: "inv (s_world s)"
  shows "inv (s_world (snd (reducers senv a s)))"
proof -
  obtain e ps w1 where p: "peers_slice senv a s = (e, ps, w1)" by (metis prod_cases3)
  have "inv w1"
  proof (cases "to_peers a")
    case (Some b)
    then show ?thesis using p peers_inv [OF st w, of b] by (simp add: peers_slice_def assms(1))
  qed (use p w in \<open>simp add: peers_slice_def\<close>)
  then show ?thesis using reducers_parts(2) [OF p] frames(2) by auto
qed

end

section \<open>Calls on peers that exist\<close>

definition calls_in :: "nat set \<Rightarrow> 'p peer_world \<Rightarrow> bool" where
  "calls_in A w \<longleftrightarrow> callee ` set (pw_calls w) \<subseteq> A \<and> set (pw_timers w) \<subseteq> A"

interpretation calls: world_invariant env A "calls_in A" for env A
  by unfold_locales (auto simp: calls_in_def peer_call_def)

section \<open>Passwords\<close>

text \<open>The password that was posted to the worker last, if any.\<close>

definition last_password :: "codec \<Rightarrow> string option" where
  "last_password k = fold (\<lambda>post pw. case post of PostPassword p \<Rightarrow> Some p | _ \<Rightarrow> pw) (cd_posted k) None"

lemma last_password_post:
  "last_password (k\<lparr>cd_posted := cd_posted k @ [post]\<rparr>) = (case post of PostPassword p \<Rightarrow> Some p | _ \<Rightarrow> last_password k)"
  "last_password (k\<lparr>cd_seen := ss\<rparr>) = last_password k"
  by (simp_all add: last_password_def split: post.split)

lemma last_password_codec:
  "last_password (fst (codec_encrypt s r k)) = last_password k"
  "last_password (fst (codec_decrypt s mid u r k)) = last_password k"
  "last_password (fst (setTrackMetadata md k)) = last_password k"
  "cd_worker (fst (codec_encrypt s r k)) = cd_worker k"
  "cd_worker (fst (codec_decrypt s mid u r k)) = cd_worker k"
  "cd_worker (fst (setTrackMetadata md k)) = cd_worker k"
  by (simp_all add: codec_encrypt_def codec_decrypt_def setTrackMetadata_def postMessage_def last_password_def
      Let_def split: option.split)

definition password_is :: "string option \<Rightarrow> bool \<Rightarrow> 'p peer_world \<Rightarrow> bool" where
  "password_is pw worker w \<longleftrightarrow> last_password (pw_codec w) = pw \<and> cd_worker (pw_codec w) = worker"

interpretation password: world_invariant env UNIV "password_is pw worker" for env pw worker
  by unfold_locales (simp_all add: password_is_def peer_call_def last_password_codec)

end
