(* ===== verification/Signalling.thy ===== *)
theory Signalling
  imports Messaging SocketClient Effects
begin

text \<open>
  How a call is set up: the handlers of a peer connection and \<open>createPeer\<close> of
  \<open>actions/PeerActions.ts\<close>, the handlers of the signalling socket, \<open>handshake\<close> and
  \<open>removeEventListeners\<close> of \<open>actions/SocketActions.ts\<close>, and \<open>init\<close>, \<open>dial\<close> and \<open>hangUp\<close> of
  \<open>actions/CallActions.ts\<close>. A peer of \<open>simple-peer\<close> is an object with an emitter, numbered in the
  order of creation; what it does by itself is an event. Listeners are data, so that the emitters of
  \<open>emitter/\<close> hold them; a message or an event calls the listeners that are registered for it, in
  order, until one throws. The promises of \<open>dial\<close> and the microtasks that dispatch their outcome are
  part of the state.
\<close>

section \<open>State\<close>

datatype peer_listener = HandleError | HandleConnect | HandleClose | HandleSignal | HandleTrack | HandleData

record peer_obj =
  po_userId :: string
  po_initiator :: bool
  po_emitter :: "peer_listener emitter"
  po_decoder :: decoder

record socket_handler =
  sh_roomName :: string
  sh_userId :: string
  sh_nickname :: string

datatype socket_listener =
    OnMetadata socket_handler
  | OnSignal socket_handler
  | OnUsers socket_handler
  | OnHangUp socket_handler
  | OnRecordCallback socket_handler
  | OnStreamUrl socket_handler
  | ResolveDial nat
  | OnConnect
  | OnDisconnect
  | OnRoomCreated

datatype outgoing =
    Ready string string string
  | SignalTo string string
  | HangUpOut string
  | CreateRoom string string
  | RecordOut bool

record 'p client =
  c_store :: "'p store"
  c_peers :: "peer_obj list"
  c_emitter :: "socket_listener emitter"
  c_socket :: socket_state
  c_out :: "outgoing list"
  c_dials :: "bool list"
  c_microtasks :: "unit async_action list"
  c_clipboard :: "string list"

text \<open>What the client takes from the page and the browser: the parameters of the store and of the
  chat, the room and whether \<open>new Peer\<close> works (it throws in a browser without WebRTC).\<close>

record 'p client_env =
  ev_store :: "'p store_env"
  ev_chat :: chat_env
  ev_callId :: string
  ev_webrtc :: bool

type_synonym 'p step = "'p client \<Rightarrow> js_error option \<times> 'p client"

text \<open>A sequence of statements, the second of which runs if the first does not throw.\<close>

definition before :: "'p step \<Rightarrow> 'p step \<Rightarrow> 'p step" where
  "before f g c = (case f c of (Some e, c) \<Rightarrow> (Some e, c) | (None, c) \<Rightarrow> g c)"

definition skip :: "'p step" where
  "skip c = (None, c)"

fun steps :: "'p step list \<Rightarrow> 'p step" where
  "steps [] = skip"
| "steps (f # fs) = before f (steps fs)"

definition disp :: "'p client_env \<Rightarrow> action \<Rightarrow> 'p step" where
  "disp env a c = (let (e, s) = reducers (ev_store env) a (c_store c) in (e, c\<lparr>c_store := s\<rparr>))"

definition notif :: "'p client_env \<Rightarrow> notify_type \<Rightarrow> string list \<Rightarrow> 'p step" where
  "notif env type args c = (let (e, s) = dispatch_notify (ev_store env) type args (c_store c) in (e, c\<lparr>c_store := s\<rparr>))"

definition on_peer :: "'p client_env \<Rightarrow> peer_call \<Rightarrow> 'p step" where
  "on_peer env call c =
    (let (e, w) = peer_call (se_peer (ev_store env)) call (s_world (c_store c))
     in (e, c\<lparr>c_store := (c_store c)\<lparr>s_world := w\<rparr>\<rparr>))"

text \<open>\<open>socket.emit\<close>: a web socket that is connecting throws, one that is closed drops the
  message.\<close>

definition emit :: "outgoing \<Rightarrow> 'p step" where
  "emit m c = (case c_socket c of
      Connecting \<Rightarrow> (Some PeerError, c)
    | Open \<Rightarrow> (None, c\<lparr>c_out := c_out c @ [m]\<rparr>)
    | socket_state.Closed \<Rightarrow> (None, c))"

section \<open>Peer connections\<close>

definition user_of :: "nat \<Rightarrow> 'p client \<Rightarrow> string" where
  "user_of p c = po_userId (c_peers c ! p)"

definition registered :: "string \<Rightarrow> 'p client \<Rightarrow> nat option" where
  "registered u c = oget (s_peers (c_store c)) u"

definition peer_handleError :: "'p client_env \<Rightarrow> nat \<Rightarrow> 'p step" where
  "peer_handleError env p c =
    (let u = user_of p c in
     before (notif env NotifyError [''A peer connection error occurred''])
       (before (\<lambda>c. case registered u c of None \<Rightarrow> skip c | Some q \<Rightarrow> on_peer env (Destroy q) c)
         (disp env (RemovePeer u))) c)"

definition peer_handleSignal :: "nat \<Rightarrow> string \<Rightarrow> 'p step" where
  "peer_handleSignal p signal c = emit (SignalTo (user_of p c) signal) c"

text \<open>\<open>peer.addTrack\<close> of an unregistered peer is a type error, once there is a track to add.\<close>

definition peer_handleConnect :: "'p client_env \<Rightarrow> nat \<Rightarrow> 'p step" where
  "peer_handleConnect env p c =
    (let u = user_of p c in
     before (notif env Warning [''Peer connection established''])
       (\<lambda>c. let ls = localStreams (s_streams (c_store c)); w = s_world (c_store c) in
          case registered u c of
            None \<Rightarrow> (if \<exists>(_, l) \<in> set ls. tracks_in w (sw_stream l) \<noteq> [] then Some TypeError else None, c)
          | Some q \<Rightarrow>
              let (e, w) = handleConnect (se_peer (ev_store env)) q ls w
              in (e, c\<lparr>c_store := (c_store c)\<lparr>s_world := w\<rparr>\<rparr>)) c)"

definition decrypt_receiver :: "'p client_env \<Rightarrow> nat \<Rightarrow> string \<Rightarrow> string \<Rightarrow> 'p client \<Rightarrow> 'p client" where
  "decrypt_receiver env receiver mid userId c =
    (let w = s_world (c_store c);
         w = w\<lparr>pw_codec := fst (codec_decrypt receiver mid userId (encoded_streams (se_peer (ev_store env)) receiver) (pw_codec w))\<rparr>
     in c\<lparr>c_store := (c_store c)\<lparr>s_world := w\<rparr>\<rparr>)"

text \<open>The handlers \<open>onmute\<close> and \<open>onunmute\<close> of a track are part of the world the reducer works on, which
  sets them to \<open>null\<close> when it stops a stream.\<close>

definition set_handlers :: "('p stream_world \<Rightarrow> 'p stream_world) \<Rightarrow> 'p client \<Rightarrow> 'p client" where
  "set_handlers f c =
    (let w = s_world (c_store c) in c\<lparr>c_store := (c_store c)\<lparr>s_world := w\<lparr>pw_streams := f (pw_streams w)\<rparr>\<rparr>\<rparr>)"

definition peer_handleTrack ::
  "'p client_env \<Rightarrow> nat \<Rightarrow> track \<Rightarrow> string \<Rightarrow> string \<Rightarrow> nat \<Rightarrow> bool \<Rightarrow> 'p step"
where
  "peer_handleTrack env p track streamId mid receiver muted c =
    (let u = user_of p c;
         payload = \<lparr>at_mid = mid, at_streamId = streamId, at_userId = u, at_track = track\<rparr>;
         c = decrypt_receiver env receiver mid u c;
         c = set_handlers (\<lambda>w. w\<lparr>onmute := List.insert track (onmute w)\<rparr>) c
     in before (if muted then skip else disp env (AddTrackAction payload))
          (\<lambda>c. (None, set_handlers (\<lambda>w. w\<lparr>onunmute := AList.update track payload (onunmute w)\<rparr>) c)) c)"

definition track_onmute :: "'p client_env \<Rightarrow> track \<Rightarrow> 'p step" where
  "track_onmute env track c =
     (if track \<in> set (onmute (pw_streams (s_world (c_store c)))) then disp env (RemoveTrackAction track) c else skip c)"

definition track_onunmute :: "'p client_env \<Rightarrow> track \<Rightarrow> 'p step" where
  "track_onunmute env track c = (case map_of (onunmute (pw_streams (s_world (c_store c)))) track of
      None \<Rightarrow> skip c
    | Some payload \<Rightarrow> disp env (AddTrackAction payload) c)"

definition peer_handleData :: "'p client_env \<Rightarrow> nat \<Rightarrow> byte list \<Rightarrow> 'p step" where
  "peer_handleData env p buffer c =
    (let po = c_peers c ! p;
         (e, decoder, s) = handleData (ev_chat env) (ev_store env) buffer (po_decoder po, c_store c)
     in (e, c\<lparr>c_store := s, c_peers := (c_peers c)[p := po\<lparr>po_decoder := decoder\<rparr>]\<rparr>))"

definition peer_handleClose :: "'p client_env \<Rightarrow> nat \<Rightarrow> 'p step" where
  "peer_handleClose env p c =
    (let u = user_of p c in
     before (notif env NotifyError [''Peer connection closed'']) (disp env (RemovePeer u)) c)"

section \<open>Creating a peer\<close>

definition new_peer :: "string \<Rightarrow> bool \<Rightarrow> peer_obj" where
  "new_peer userId initiator =
    \<lparr>po_userId = userId, po_initiator = initiator,
     po_emitter = em_on ''data'' HandleData (em_on ''track'' HandleTrack (em_on ''signal'' HandleSignal
       (em_once ''close'' HandleClose (em_once ''connect'' HandleConnect (em_once ''error'' HandleError []))))),
     po_decoder = []\<rparr>"

definition createPeer :: "'p client_env \<Rightarrow> string \<Rightarrow> bool \<Rightarrow> 'p step" where
  "createPeer env userId initiator =
    before (notif env Warning [''Connecting to peer...''])
      (before (\<lambda>c. case registered userId c of
           None \<Rightarrow> skip c
         | Some oldPeer \<Rightarrow>
             before (notif env Info [''Cleaning up old connection...''])
               (before (on_peer env (Destroy oldPeer)) (disp env (RemovePeer userId))) c)
        (\<lambda>c. if \<not> ev_webrtc env then (Some PeerError, c)
             else disp env (AddPeer userId (length (c_peers c)))
                    (c\<lparr>c_peers := c_peers c @ [new_peer userId initiator]\<rparr>)))"

section \<open>Events of a peer\<close>

datatype peer_event =
    ErrorEv
  | ConnectEv
  | CloseEv
  | SignalEv string
  | TrackEv track string string nat bool
  | DataEv "byte list"

fun peer_event_name :: "peer_event \<Rightarrow> string" where
  "peer_event_name ErrorEv = ''error''"
| "peer_event_name ConnectEv = ''connect''"
| "peer_event_name CloseEv = ''close''"
| "peer_event_name (SignalEv _) = ''signal''"
| "peer_event_name (TrackEv _ _ _ _ _) = ''track''"
| "peer_event_name (DataEv _) = ''data''"

fun call_peer_listener :: "'p client_env \<Rightarrow> nat \<Rightarrow> peer_event \<Rightarrow> peer_listener \<Rightarrow> 'p step" where
  "call_peer_listener env p ErrorEv HandleError = peer_handleError env p"
| "call_peer_listener env p ConnectEv HandleConnect = peer_handleConnect env p"
| "call_peer_listener env p CloseEv HandleClose = peer_handleClose env p"
| "call_peer_listener env p (SignalEv signal) HandleSignal = peer_handleSignal p signal"
| "call_peer_listener env p (TrackEv track streamId mid receiver muted) HandleTrack =
     peer_handleTrack env p track streamId mid receiver muted"
| "call_peer_listener env p (DataEv buffer) HandleData = peer_handleData env p buffer"
| "call_peer_listener env p _ _ = skip"

text \<open>\<open>emit\<close> calls the listeners registered at its start; one registered with \<open>once\<close> is removed
  before it is called.\<close>

definition peer_emit :: "'p client_env \<Rightarrow> nat \<Rightarrow> peer_event \<Rightarrow> 'p step" where
  "peer_emit env p ev c =
    (let name = peer_event_name ev in
     for_each (\<lambda>(l, once) c.
         call_peer_listener env p ev l
           (if once
            then c\<lparr>c_peers := (c_peers c)[p := (c_peers c ! p)\<lparr>po_emitter := em_removeListener name l (po_emitter (c_peers c ! p))\<rparr>]\<rparr>
            else c))
       (listeners (po_emitter (c_peers c ! p)) name) c)"

section \<open>The signalling socket\<close>

definition handle_signal :: "'p client_env \<Rightarrow> string \<Rightarrow> string \<Rightarrow> 'p step" where
  "handle_signal env userId signal c = (case registered userId c of
      None \<Rightarrow> skip c
    | Some peer \<Rightarrow> on_peer env (Signal peer signal) c)"

definition handle_hangUp :: "'p client_env \<Rightarrow> string \<Rightarrow> 'p step" where
  "handle_hangUp env userId = disp env (NicknameRemove userId)"

definition handleRecordCallback ::
  "'p client_env \<Rightarrow> socket_handler \<Rightarrow> bool \<Rightarrow> bool \<Rightarrow> string \<Rightarrow> 'p step"
where
  "handleRecordCallback env h successful status url =
    (if successful then
       before (disp env (RecordStatus status))
         (if status
          then disp env (RecordLocalStream (url @ ''/'' @ sh_roomName h @ ''/'' @ sh_userId h) (sh_roomName h) (sh_userId h))
          else disp env StopRecordLocalStream)
     else skip)"

definition handle_metadata :: "'p client_env \<Rightarrow> metadata_payload \<Rightarrow> 'p step" where
  "handle_metadata env payload =
    before (disp env (TracksMetadata payload))
      (\<lambda>c. let w = s_world (c_store c);
               w = w\<lparr>pw_codec := fst (setTrackMetadata (mp_metadata payload) (pw_codec w))\<rparr>
           in (None, c\<lparr>c_store := (c_store c)\<lparr>s_world := w\<rparr>\<rparr>))"

record users_payload =
  up_initiator :: string
  up_peerIds :: "string list"
  up_nicknames :: "string obj"
  up_recordStatus :: bool
  up_recordUrl :: string

definition handleUsers :: "'p client_env \<Rightarrow> socket_handler \<Rightarrow> users_payload \<Rightarrow> 'p step" where
  "handleUsers env h payload =
    before (notif env Info [''Connected users: {0}'', dec_nat (length (up_nicknames payload))])
      (\<lambda>c. let peers = s_peers (c_store c);
               isInitiator = (up_initiator payload = sh_userId h)
           in before (handleRecordCallback env h (up_recordStatus payload) (up_recordStatus payload) (up_recordUrl payload))
                (before (disp env (NicknamesSet (up_nicknames payload)))
                  (for_each (\<lambda>peerId. createPeer env peerId isInitiator)
                    (filter (\<lambda>peerId. oget peers peerId = None \<and> peerId \<noteq> sh_userId h) (up_peerIds payload)))) c)"

definition handleSetStreamUrl :: "'p client_env \<Rightarrow> string \<Rightarrow> 'p step" where
  "handleSetStreamUrl env url =
    before (notif env Info [url]) (\<lambda>c. (None, c\<lparr>c_clipboard := c_clipboard c @ [url]\<rparr>))"

definition removeEventListeners :: "'p client \<Rightarrow> 'p client" where
  "removeEventListeners c =
    c\<lparr>c_emitter := em_removeAllListeners (Some ''hangUp'') (em_removeAllListeners (Some ''users'')
       (em_removeAllListeners (Some ''signal'') (em_removeAllListeners (Some ''metadata'') (c_emitter c))))\<rparr>"

definition handshake :: "string \<Rightarrow> socket_handler \<Rightarrow> 'p step" where
  "handshake roomName h c =
    (let c = removeEventListeners c;
         c = c\<lparr>c_emitter := em_on ''stream_url'' (OnStreamUrl h) (em_on ''record_callback'' (OnRecordCallback h)
           (em_on ''hangUp'' (OnHangUp h) (em_on ''users'' (OnUsers h) (em_on ''signal'' (OnSignal h)
             (em_on ''metadata'' (OnMetadata h) (c_emitter c))))))\<rparr>
     in emit (Ready roomName (sh_nickname h) (sh_nickname h)) c)"

section \<open>Calls\<close>

definition init :: "'p client \<Rightarrow> 'p client" where
  "init c = c\<lparr>c_emitter := em_on ''room_created'' OnRoomCreated (em_on ''disconnect'' OnDisconnect
     (em_on ''connect'' OnConnect (c_emitter c)))\<rparr>"

definition handle_connect :: "'p client_env \<Rightarrow> 'p step" where
  "handle_connect env =
    before (notif env Warning [''Connected to server socket''])
      (before (disp env SocketConnected) (emit (CreateRoom (ev_callId env) (se_me (ev_store env)))))"

definition handle_disconnect :: "'p client_env \<Rightarrow> 'p step" where
  "handle_disconnect env =
    before (notif env NotifyError [''Server socket disconnected'']) (disp env SocketDisconnected)"

text \<open>Settling a promise: only the first time counts, and its continuation is a microtask.\<close>

definition settle_dial :: "nat \<Rightarrow> unit async_action \<Rightarrow> 'p client \<Rightarrow> 'p client" where
  "settle_dial d result c =
    (if c_dials c ! d then c
     else c\<lparr>c_dials := (c_dials c)[d := True], c_microtasks := c_microtasks c @ [result]\<rparr>)"

definition run_microtasks :: "'p client_env \<Rightarrow> 'p client \<Rightarrow> 'p client" where
  "run_microtasks env c =
     fold (\<lambda>result c. snd (disp env (DialAction result) c)) (c_microtasks c) (c\<lparr>c_microtasks := []\<rparr>)"

text \<open>\<open>dispatch(dial({ nickname }))\<close>: the executor of the promise, then the pending action. An exception
  of \<open>handshake\<close> rejects the promise, and neither the listener nor the timer is set up.\<close>

definition socket_error :: err_obj where
  "socket_error = \<lparr>er_name = ''InvalidStateError'', er_message = ''''\<rparr>"

definition dial :: "'p client_env \<Rightarrow> string \<Rightarrow> 'p client \<Rightarrow> 'p client" where
  "dial env nickname c =
    (let d = length (c_dials c);
         h = \<lparr>sh_roomName = ev_callId env, sh_userId = se_me (ev_store env), sh_nickname = nickname\<rparr>;
         (e, c) = handshake (ev_callId env) h (c\<lparr>c_dials := c_dials c @ [False]\<rparr>);
         c = (case e of
             Some _ \<Rightarrow> settle_dial d (Rejected socket_error) c
           | None \<Rightarrow> c\<lparr>c_emitter := em_once ''users'' (ResolveDial d) (c_emitter c)\<rparr>)
     in run_microtasks env (snd (disp env (DialAction Pending) c)))"

definition dial_timeout :: "'p client_env \<Rightarrow> nat \<Rightarrow> 'p client \<Rightarrow> 'p client" where
  "dial_timeout env d c =
     run_microtasks env (settle_dial d (Rejected \<lparr>er_name = ''Error'', er_message = ''Dial timed out!''\<rparr>) c)"

definition hangUp :: "'p client_env \<Rightarrow> 'p step" where
  "hangUp env = before (emit (HangUpOut (se_me (ev_store env))))
     (\<lambda>c. disp env HangUp (removeEventListeners c))"

section \<open>Messages of the socket\<close>

datatype socket_message =
    MetadataMsg metadata_payload
  | SignalMsg string string
  | UsersMsg users_payload
  | HangUpMsg string
  | RecordCallbackMsg bool bool string
  | StreamUrlMsg string
  | RoomCreatedMsg string
  | ConnectMsg
  | DisconnectMsg

fun message_name :: "socket_message \<Rightarrow> string" where
  "message_name (MetadataMsg _) = ''metadata''"
| "message_name (SignalMsg _ _) = ''signal''"
| "message_name (UsersMsg _) = ''users''"
| "message_name (HangUpMsg _) = ''hangUp''"
| "message_name (RecordCallbackMsg _ _ _) = ''record_callback''"
| "message_name (StreamUrlMsg _) = ''stream_url''"
| "message_name (RoomCreatedMsg _) = ''room_created''"
| "message_name ConnectMsg = ''connect''"
| "message_name DisconnectMsg = ''disconnect''"

definition call_listener :: "'p client_env \<Rightarrow> socket_message \<Rightarrow> socket_listener \<Rightarrow> 'p step" where
  "call_listener env m l = (case l of
      OnMetadata h \<Rightarrow> (case m of MetadataMsg payload \<Rightarrow> handle_metadata env payload | _ \<Rightarrow> skip)
    | OnSignal h \<Rightarrow> (case m of SignalMsg userId signal \<Rightarrow> handle_signal env userId signal | _ \<Rightarrow> skip)
    | OnUsers h \<Rightarrow> (case m of UsersMsg payload \<Rightarrow> handleUsers env h payload | _ \<Rightarrow> skip)
    | OnHangUp h \<Rightarrow> (case m of HangUpMsg userId \<Rightarrow> handle_hangUp env userId | _ \<Rightarrow> skip)
    | OnRecordCallback h \<Rightarrow> (case m of
        RecordCallbackMsg successful status url \<Rightarrow> handleRecordCallback env h successful status url | _ \<Rightarrow> skip)
    | OnStreamUrl h \<Rightarrow> (case m of StreamUrlMsg url \<Rightarrow> handleSetStreamUrl env url | _ \<Rightarrow> skip)
    | ResolveDial d \<Rightarrow> (case m of UsersMsg payload \<Rightarrow> (\<lambda>c. (None, settle_dial d (Resolved ()) c)) | _ \<Rightarrow> skip)
    | OnConnect \<Rightarrow> (case m of ConnectMsg \<Rightarrow> handle_connect env | _ \<Rightarrow> skip)
    | OnDisconnect \<Rightarrow> (case m of DisconnectMsg \<Rightarrow> handle_disconnect env | _ \<Rightarrow> skip)
    | OnRoomCreated \<Rightarrow> (case m of RoomCreatedMsg creator \<Rightarrow> disp env (AddCreatorId creator) | _ \<Rightarrow> skip))"

definition receive :: "'p client_env \<Rightarrow> socket_message \<Rightarrow> 'p step" where
  "receive env m c =
    (let name = message_name m;
         (e, c) = for_each (\<lambda>(l, once) c.
             call_listener env m l (if once then c\<lparr>c_emitter := em_removeListener name l (c_emitter c)\<rparr> else c))
           (listeners (c_emitter c) name) c
     in (e, run_microtasks env c))"

section \<open>Dispatching in a client\<close>

text \<open>The actions that neither the peers nor the streams reducer knows never throw and leave peers,
  streams and browser objects alone.\<close>

lemma reducers_quiet:
  assumes "to_peers a = None" and "to_streams a = stream_action.OTHER"
  shows "fst (reducers env a s) = None" "s_peers (snd (reducers env a s)) = s_peers s"
    "s_streams (snd (reducers env a s)) = s_streams s" "s_world (snd (reducers env a s)) = s_world s"
  using assms by (simp_all add: reducers_def peers_slice_def split_beta Let_def)

definition noted :: "'p client_env \<Rightarrow> notify_type \<Rightarrow> string list \<Rightarrow> 'p client \<Rightarrow> 'p client" where
  "noted env type args c = snd (notif env type args c)"

lemma notif_noted: "notif env type args c = (None, noted env type args c)"
  by (simp add: noted_def notif_def dispatch_notify_def Let_def split_beta reducers_quiet)

lemma noted_store:
  "s_peers (c_store (noted env type args c)) = s_peers (c_store c)"
  "s_streams (c_store (noted env type args c)) = s_streams (c_store c)"
  "s_world (c_store (noted env type args c)) = s_world (c_store c)"
  "s_media (c_store (noted env type args c)) = s_media (c_store c)"
  "s_nicknames (c_store (noted env type args c)) = s_nicknames (c_store c)"
  by (simp_all add: noted_def notif_def dispatch_notify_def reducers_def peers_slice_def Let_def split_beta)

lemma noted_client:
  "c_peers (noted env type args c) = c_peers c" "c_emitter (noted env type args c) = c_emitter c"
  "c_dials (noted env type args c) = c_dials c" "c_microtasks (noted env type args c) = c_microtasks c"
  "c_socket (noted env type args c) = c_socket c"
  "c_out (noted env type args c) = c_out c"
  "registered u (noted env type args c) = registered u c" "user_of p (noted env type args c) = user_of p c"
  by (simp_all add: noted_def notif_def dispatch_notify_def reducers_def peers_slice_def Let_def split_beta
      registered_def user_of_def)

lemmas noted_simps [simp] = noted_store noted_client

lemma disp_client [simp]:
  "c_peers (snd (disp env a c)) = c_peers c" "c_emitter (snd (disp env a c)) = c_emitter c"
  "c_dials (snd (disp env a c)) = c_dials c" "c_microtasks (snd (disp env a c)) = c_microtasks c"
  "c_socket (snd (disp env a c)) = c_socket c"
  "c_out (snd (disp env a c)) = c_out c"
  "c_store (snd (disp env a c)) = snd (reducers (ev_store env) a (c_store c))"
  "fst (disp env a c) = fst (reducers (ev_store env) a (c_store c))"
  by (simp_all add: disp_def split_beta)

lemma before_None [simp]: "before (\<lambda>c. (None, f c)) g c = g (f c)"
  by (simp add: before_def)

lemma before_notif [simp]: "before (notif env type args) g c = g (noted env type args c)"
  by (simp add: before_def notif_noted)

lemma before_disp: "fst (reducers (ev_store env) a (c_store c)) = None \<Longrightarrow> before (disp env a) g c = g (snd (disp env a c))"
  by (simp add: before_def split_beta)

lemma before_keeps:
  "(\<And>c. P c \<Longrightarrow> P (snd (f c))) \<Longrightarrow> (\<And>c. P c \<Longrightarrow> P (snd (g c))) \<Longrightarrow> P c \<Longrightarrow> P (snd (before f g c))"
  unfolding before_def by (metis (no_types, lifting) option.exhaust option.simps(4) option.simps(5) prod.case_eq_if prod.collapse snd_conv)

end
