(* ===== verification/Calls.thy ===== *)
theory Calls
  imports Signalling
begin

text \<open>
  A session of the client: the handlers of \<open>Signalling\<close> under every order of messages of the server,
  events of the peer connections, mute and unmute events of tracks, dials, their timeouts and the
  user's actions. The locale \<open>client_invariant\<close> states what an invariant has to survive, one law per
  kind of primitive effect of the handlers; its lemmas give that every event keeps the invariant.
  The rest are the properties of joining and leaving a call.
\<close>

section \<open>What can happen\<close>

datatype happening =
    Receives socket_message
  | PeerEmits nat peer_event
  | Mutes track
  | Unmutes track
  | Dials string
  | DialTimesOut nat
  | HangsUp
  | DestroyTimer
  | Dispatches action
  | SocketBecomes socket_state

fun occur :: "'p client_env \<Rightarrow> 'p client \<Rightarrow> happening \<Rightarrow> 'p client" where
  "occur env c (Receives m) = snd (receive env m c)"
| "occur env c (PeerEmits p ev) = snd (peer_emit env p ev c)"
| "occur env c (Mutes track) = snd (track_onmute env track c)"
| "occur env c (Unmutes track) = snd (track_onunmute env track c)"
| "occur env c (Dials nickname) = dial env nickname c"
| "occur env c (DialTimesOut d) = dial_timeout env d c"
| "occur env c HangsUp = snd (hangUp env c)"
| "occur env c DestroyTimer =
     c\<lparr>c_store := (c_store c)\<lparr>s_world := snd (destroy_timer (se_peer (ev_store env)) (s_world (c_store c)))\<rparr>\<rparr>"
| "occur env c (Dispatches a) = snd (disp env a c)"
| "occur env c (SocketBecomes state) = c\<lparr>c_socket := state\<rparr>"

text \<open>Only a peer that exists has events, only a dial that was begun times out, and \<open>addPeer\<close> is
  dispatched by \<open>createPeer\<close> alone.\<close>

fun creates_peer :: "action \<Rightarrow> bool" where
  "creates_peer (AddPeer u p) = True"
| "creates_peer _ = False"

fun can_occur :: "'p client \<Rightarrow> happening \<Rightarrow> bool" where
  "can_occur c (PeerEmits p ev) \<longleftrightarrow> p < length (c_peers c)"
| "can_occur c (DialTimesOut d) \<longleftrightarrow> d < length (c_dials c)"
| "can_occur c (Dispatches a) \<longleftrightarrow> \<not> creates_peer a"
| "can_occur c _ \<longleftrightarrow> True"

section \<open>Invariants of the client\<close>

abbreviation put_world :: "'p peer_world \<Rightarrow> 'p client \<Rightarrow> 'p client" where
  "put_world w c \<equiv> c\<lparr>c_store := (c_store c)\<lparr>s_world := w\<rparr>\<rparr>"

text \<open>The actions the handlers of peers and socket dispatch, beside those that carry tracks.\<close>

fun handler_action :: "action \<Rightarrow> bool" where
  "handler_action (RemovePeer u) = True"
| "handler_action (NicknameRemove u) = True"
| "handler_action (NicknamesSet ns) = True"
| "handler_action (RecordStatus b) = True"
| "handler_action (RecordLocalStream url room u) = True"
| "handler_action StopRecordLocalStream = True"
| "handler_action _ = False"

locale client_effects =
  fixes env :: "'p client_env"
    and inv :: "'p client \<Rightarrow> bool"
    and allowed :: "action \<Rightarrow> bool"
  assumes handlers: "handler_action a \<Longrightarrow> allowed a"
    and disp_inv: "inv c \<Longrightarrow> allowed a \<Longrightarrow> inv (snd (disp env a c))"
    and noted_inv: "inv c \<Longrightarrow> inv (noted env type args c)"
    and on_peer_inv: "inv c \<Longrightarrow> registered u c = Some (callee call) \<Longrightarrow> inv (snd (on_peer env call c))"
    and create_inv: "inv c \<Longrightarrow>
      inv (snd (disp env (AddPeer u (length (c_peers c))) (c\<lparr>c_peers := c_peers c @ [new_peer u i]\<rparr>)))"
begin

lemma before_inv:
  "(\<And>c. inv c \<Longrightarrow> inv (snd (f c))) \<Longrightarrow> (\<And>c. inv c \<Longrightarrow> inv (snd (g c))) \<Longrightarrow> inv c \<Longrightarrow> inv (snd (before f g c))"
  by (rule before_keeps)

lemma before_inv_at: "inv (snd (f c)) \<Longrightarrow> (\<And>c. inv c \<Longrightarrow> inv (snd (g c))) \<Longrightarrow> inv (snd (before f g c))"
  by (cases "f c") (auto simp: before_def split: option.split)

lemma remove_peer_inv: "inv c \<Longrightarrow> inv (snd (disp env (RemovePeer u) c))"
  by (rule disp_inv) (simp_all add: handlers)

lemma skip_inv: "inv c \<Longrightarrow> inv (snd (skip c))"
  by (simp add: skip_def)

lemma notif_inv: "inv c \<Longrightarrow> inv (snd (notif env type args c))"
  by (simp add: notif_noted noted_inv)

lemma loop_inv:
  "(\<And>x c. x \<in> set xs \<Longrightarrow> inv c \<Longrightarrow> inv (snd (f x c))) \<Longrightarrow> inv c \<Longrightarrow> inv (snd (for_each f xs c))"
  by (rule for_each_keeps)

lemma peer_handleError_inv: "inv c \<Longrightarrow> inv (snd (peer_handleError env p c))"
  unfolding peer_handleError_def Let_def
  by (intro before_inv notif_inv disp_inv; (assumption | simp add: handlers)?) (auto intro: skip_inv on_peer_inv split: option.split)

lemma peer_handleClose_inv: "inv c \<Longrightarrow> inv (snd (peer_handleClose env p c))"
  unfolding peer_handleClose_def Let_def by (intro before_inv notif_inv remove_peer_inv) auto

lemma createPeer_inv: "inv c \<Longrightarrow> inv (snd (createPeer env u i c))"
  unfolding createPeer_def
proof (rule before_inv)
  fix c assume c: "inv c"
  show "inv (snd (before (\<lambda>c. case registered u c of None \<Rightarrow> skip c
      | Some oldPeer \<Rightarrow> before (notif env Info [''Cleaning up old connection...''])
          (before (on_peer env (Destroy oldPeer)) (disp env (RemovePeer u))) c)
     (\<lambda>c. if \<not> ev_webrtc env then (Some PeerError, c)
        else disp env (AddPeer u (length (c_peers c))) (c\<lparr>c_peers := c_peers c @ [new_peer u i]\<rparr>)) c))"
  proof (rule before_inv [OF _ _ c])
    fix c assume c: "inv c"
    show "inv (snd (if \<not> ev_webrtc env then (Some PeerError, c)
        else disp env (AddPeer u (length (c_peers c))) (c\<lparr>c_peers := c_peers c @ [new_peer u i]\<rparr>)))"
      using c create_inv by simp
    have "inv (snd (on_peer env (Destroy q) (noted env Info args c)))" if "registered u c = Some q" for q args
      using on_peer_inv [OF noted_inv [OF c], where u = u and call = "Destroy q"] that by simp
    then have "inv (snd (before (on_peer env (Destroy q)) (disp env (RemovePeer u)) (noted env Info args c)))"
      if "registered u c = Some q" for q args
      using that by (intro before_inv_at remove_peer_inv)
    then show "inv (snd (case registered u c of None \<Rightarrow> skip c
      | Some oldPeer \<Rightarrow> before (notif env Info [''Cleaning up old connection...''])
          (before (on_peer env (Destroy oldPeer)) (disp env (RemovePeer u))) c))"
      using c by (simp add: skip_inv split: option.split)
  qed
qed (rule notif_inv)

lemma handle_signal_inv: "inv c \<Longrightarrow> inv (snd (handle_signal env u signal c))"
  unfolding handle_signal_def by (auto intro: skip_inv on_peer_inv [where u = u] split: option.split)

lemma handleRecordCallback_inv: "inv c \<Longrightarrow> inv (snd (handleRecordCallback env h successful status url c))"
  unfolding handleRecordCallback_def by (auto intro!: before_inv_at disp_inv skip_inv handlers)

lemma handleUsers_inv: "inv c \<Longrightarrow> inv (snd (handleUsers env h payload c))"
  unfolding handleUsers_def Let_def
  by (rule before_inv; (rule notif_inv)?; (intro before_inv handleRecordCallback_inv disp_inv loop_inv createPeer_inv)?)
    (simp_all add: handlers)

end

text \<open>The messages that the socket sends itself, which change what the store knows of the socket. All other
  events leave the socket and the listeners of these two messages as they are: \<open>same_socket\<close>.\<close>

fun socket_action :: "action \<Rightarrow> bool" where
  "socket_action SocketConnected = True"
| "socket_action SocketDisconnected = True"
| "socket_action _ = False"

definition socket_events :: "string set" where
  "socket_events = {''connect'', ''disconnect''}"

definition same_socket :: "'p client \<Rightarrow> 'p client \<Rightarrow> bool" where [simp]:
  "same_socket c c' \<longleftrightarrow> c_socket c' = c_socket c \<and>
     (\<forall>name \<in> socket_events. listeners (c_emitter c') name = listeners (c_emitter c) name)"

text \<open>The events of the socket itself.\<close>

fun of_socket :: "happening \<Rightarrow> bool" where
  "of_socket (Receives m) \<longleftrightarrow> message_name m \<in> socket_events"
| "of_socket (SocketBecomes state) \<longleftrightarrow> True"
| "of_socket (Dispatches a) \<longleftrightarrow> socket_action a"
| "of_socket _ \<longleftrightarrow> False"

lemma same_users: "po_userId x = po_userId (xs ! p) \<Longrightarrow> map po_userId (xs[p := x]) = map po_userId xs"
  by (metis list_update_beyond list_update_id map_update not_le nth_map)

locale client_session = client_effects env inv allowed
  for env :: "'p client_env" and inv :: "'p client \<Rightarrow> bool" and allowed :: "action \<Rightarrow> bool" +
  assumes permitted: "\<not> creates_peer a \<Longrightarrow> \<not> socket_action a \<Longrightarrow> allowed a"
    and frame: "inv c \<Longrightarrow> c_store c' = c_store c \<Longrightarrow> map po_userId (c_peers c') = map po_userId (c_peers c) \<Longrightarrow>
      same_socket c c' \<Longrightarrow> inv c'"
    and decrypt_inv: "inv c \<Longrightarrow> inv (decrypt_receiver env receiver mid userId c)"
    and metadata_inv: "inv c \<Longrightarrow> w = s_world (c_store c) \<Longrightarrow>
      inv (put_world (w\<lparr>pw_codec := fst (setTrackMetadata md (pw_codec w))\<rparr>) c)"
    and connect_inv: "inv c \<Longrightarrow> registered u c = Some q \<Longrightarrow>
      inv (put_world (snd (handleConnect (se_peer (ev_store env)) q ls (s_world (c_store c)))) c)"
    and streams_inv: "inv c \<Longrightarrow> inv (put_world ((s_world (c_store c))\<lparr>pw_streams := sw\<rparr>) c)"
    and destroy_inv: "inv c \<Longrightarrow> inv (put_world (snd (destroy_timer (se_peer (ev_store env)) (s_world (c_store c)))) c)"
begin

lemma do_inv: "inv c \<Longrightarrow> \<not> creates_peer a \<Longrightarrow> \<not> socket_action a \<Longrightarrow> inv (snd (disp env a c))"
  using disp_inv permitted by blast

lemma emit_inv: "inv c \<Longrightarrow> inv (snd (emit m c))"
  by (erule frame) (simp_all add: emit_def split: socket_state.split)

lemma emitter_inv:
  "inv c \<Longrightarrow> (\<And>name. name \<in> socket_events \<Longrightarrow> listeners em name = listeners (c_emitter c) name) \<Longrightarrow> inv (c\<lparr>c_emitter := em\<rparr>)"
  by (erule frame) simp_all

lemma listeners_inv:
  "(\<And>l once c. inv c \<Longrightarrow> inv (snd (f l once c))) \<Longrightarrow> inv c \<Longrightarrow>
     inv (snd (for_each (\<lambda>(l, once) c. f l once c) ls c))"
  by (rule loop_inv) auto

lemma peer_handleConnect_inv: "inv c \<Longrightarrow> inv (snd (peer_handleConnect env p c))"
  unfolding peer_handleConnect_def Let_def
  using connect_inv [OF noted_inv]
  by (auto simp: split_beta intro: noted_inv split: option.split)

lemma set_handlers_inv: "inv c \<Longrightarrow> inv (set_handlers f c)"
  by (simp add: set_handlers_def Let_def streams_inv)

lemma peer_handleTrack_inv: "inv c \<Longrightarrow> inv (snd (peer_handleTrack env p tr sid mid r muted c))"
proof -
  assume c: "inv c"
  have dec: "inv (decrypt_receiver env r mid u c)" for u
    using c by (rule decrypt_inv)
  show ?thesis
    unfolding peer_handleTrack_def Let_def
  proof (rule before_inv)
    show "inv (snd ((if muted then skip else disp env (AddTrackAction q)) c))" if "inv c" for q c
      using that by (simp add: skip_inv do_inv)
    show "inv (snd (None, set_handlers f c))" if "inv c" for f c
      using that by (simp add: set_handlers_inv)
    show "inv (set_handlers f (decrypt_receiver env r mid (user_of p c) c))" for f
      by (rule set_handlers_inv [OF dec])
  qed
qed

lemma peer_handleSignal_inv: "inv c \<Longrightarrow> inv (snd (peer_handleSignal p s c))"
  unfolding peer_handleSignal_def by (rule emit_inv)

lemma peer_handleData_inv: "inv c \<Longrightarrow> inv (snd (peer_handleData env p buffer c))"
proof -
  assume c: "inv c"
  obtain e d s where r: "handleData (ev_chat env) (ev_store env) buffer (po_decoder (c_peers c ! p), c_store c) = (e, d, s)"
    by (metis prod_cases3)
  have "s = c_store c \<or> (\<exists>m. s = snd (reducers (ev_store env) (MessageAdd m) (c_store c)))"
    using r by (auto simp: handleData_def split: prod.splits sum.splits option.splits intro: exI simp: split_beta)
  moreover have "s = c_store (snd (disp env (MessageAdd m) c))" if "s = snd (reducers (ev_store env) (MessageAdd m) (c_store c))" for m
    using that by (simp add: disp_def split_beta)
  ultimately obtain c' where c': "inv c'" "c_store c' = s" "c_peers c' = c_peers c" "same_socket c c'"
  proof (elim disjE exE)
    assume "s = c_store c"
    then show thesis using that [of c] c by simp
  next
    fix m assume "s = snd (reducers (ev_store env) (MessageAdd m) (c_store c))"
    then show thesis using that [of "snd (disp env (MessageAdd m) c)"] do_inv [OF c, of "MessageAdd m"] by simp
  qed
  show ?thesis
    using c' by (intro frame [OF c'(1)]) (simp_all add: peer_handleData_def r same_users)
qed

lemma call_peer_listener_inv: "inv c \<Longrightarrow> inv (snd (call_peer_listener env p ev l c))"
  by (cases "(env, p, ev, l)" rule: call_peer_listener.cases)
    (simp_all add: peer_handleError_inv peer_handleConnect_inv peer_handleTrack_inv peer_handleClose_inv
      peer_handleSignal_inv peer_handleData_inv skip_inv)

lemma peer_emit_inv: "inv c \<Longrightarrow> inv (snd (peer_emit env p ev c))"
  unfolding peer_emit_def Let_def
proof (rule listeners_inv)
  fix l once c assume c: "inv c"
  have "inv (c\<lparr>c_peers := (c_peers c)[p := (c_peers c ! p)\<lparr>po_emitter := em\<rparr>]\<rparr>)" for em
    by (rule frame [OF c]) (simp_all add: same_users)
  then show "inv (snd (call_peer_listener env p ev l (if once
      then c\<lparr>c_peers := (c_peers c)[p := (c_peers c ! p)\<lparr>po_emitter := em_removeListener (peer_event_name ev) l (po_emitter (c_peers c ! p))\<rparr>]\<rparr>
      else c)))"
    using c by (simp add: call_peer_listener_inv)
qed

lemma handle_metadata_inv: "inv c \<Longrightarrow> inv (snd (handle_metadata env payload c))"
  unfolding handle_metadata_def Let_def by (rule before_inv_at) (simp_all add: do_inv metadata_inv)

lemma handleSetStreamUrl_inv: "inv c \<Longrightarrow> inv (snd (handleSetStreamUrl env url c))"
  unfolding handleSetStreamUrl_def by (rule before_inv) (auto intro: notif_inv frame)

lemma settle_dial_inv: "inv c \<Longrightarrow> inv (settle_dial d r c)"
  by (erule frame) (simp_all add: settle_dial_def)

lemma run_microtasks_inv: "inv c \<Longrightarrow> inv (run_microtasks env c)"
proof -
  assume c: "inv c"
  have "inv c' \<Longrightarrow> inv (fold (\<lambda>result c. snd (disp env (DialAction result) c)) rs c')" for rs c'
    by (induction rs arbitrary: c') (simp_all add: do_inv)
  moreover have "inv (c\<lparr>c_microtasks := []\<rparr>)" using c by (rule frame) simp_all
  ultimately show ?thesis by (simp add: run_microtasks_def)
qed

lemma call_listener_inv: "inv c \<Longrightarrow> message_name m \<notin> socket_events \<Longrightarrow> inv (snd (call_listener env m l c))"
  unfolding call_listener_def
  by (cases l; cases m)
    (simp_all add: handle_metadata_inv handle_signal_inv handleUsers_inv handle_hangUp_def do_inv
      handleRecordCallback_inv handleSetStreamUrl_inv settle_dial_inv skip_inv socket_events_def)

lemma once_inv: "inv c \<Longrightarrow> name \<notin> socket_events \<Longrightarrow> inv (c\<lparr>c_emitter := em_removeListener name l (c_emitter c)\<rparr>)"
  by (erule emitter_inv) (auto simp: em_removeListener_def listeners_def Let_def)

lemma receive_inv: "inv c \<Longrightarrow> message_name m \<notin> socket_events \<Longrightarrow> inv (snd (receive env m c))"
  unfolding receive_def Let_def split_beta snd_conv
  by (rule run_microtasks_inv, rule loop_inv) (simp_all add: call_listener_inv once_inv)

lemma remove_listeners_inv: "inv c \<Longrightarrow> inv (removeEventListeners c)"
  unfolding removeEventListeners_def by (erule emitter_inv) (auto simp: socket_events_def)

lemma dial_inv: "inv c \<Longrightarrow> inv (dial env nickname c)"
proof -
  assume c: "inv c"
  have "inv (c\<lparr>c_dials := ds\<rparr>)" for ds using c by (rule frame) simp_all
  then have "inv (snd (handshake r h (c\<lparr>c_dials := ds\<rparr>)))" for r h ds
    unfolding handshake_def Let_def by (intro emit_inv emitter_inv remove_listeners_inv) (auto simp: socket_events_def)
  then show ?thesis
    unfolding dial_def Let_def split_beta
    by (auto intro!: run_microtasks_inv do_inv settle_dial_inv emitter_inv simp: socket_events_def split: option.split)
qed

lemma hangUp_inv: "inv c \<Longrightarrow> inv (snd (hangUp env c))"
  unfolding hangUp_def by (rule before_inv) (auto intro: emit_inv do_inv remove_listeners_inv)

lemma occur_inv: "inv c \<Longrightarrow> can_occur c ev \<Longrightarrow> \<not> of_socket ev \<Longrightarrow> inv (occur env c ev)"
  by (cases ev) (simp_all add: receive_inv peer_emit_inv track_onmute_def track_onunmute_def dial_inv dial_timeout_def hangUp_inv
      destroy_inv do_inv skip_inv run_microtasks_inv settle_dial_inv split: option.split)

end

text \<open>An invariant that does not depend on the socket survives its events too.\<close>

locale client_invariant = client_session env inv "\<lambda>a. \<not> creates_peer a"
  for env :: "'p client_env" and inv :: "'p client \<Rightarrow> bool" +
  assumes any_socket: "inv c \<Longrightarrow> c_store c' = c_store c \<Longrightarrow> map po_userId (c_peers c') = map po_userId (c_peers c) \<Longrightarrow> inv c'"
begin

lemma handle_connect_inv: "inv c \<Longrightarrow> inv (snd (handle_connect env c))"
  unfolding handle_connect_def by (intro before_inv notif_inv disp_inv emit_inv) simp_all

lemma handle_disconnect_inv: "inv c \<Longrightarrow> inv (snd (handle_disconnect env c))"
  unfolding handle_disconnect_def by (intro before_inv notif_inv disp_inv) simp_all

lemma any_listener_inv: "inv c \<Longrightarrow> inv (snd (call_listener env m l c))"
proof (cases "message_name m \<in> socket_events")
  case True
  assume "inv c"
  then show ?thesis
    using True unfolding call_listener_def
    by (cases l; cases m) (simp_all add: handle_connect_inv handle_disconnect_inv skip_inv socket_events_def)
qed (rule call_listener_inv)

lemma any_emitter_inv: "inv c \<Longrightarrow> inv (c\<lparr>c_emitter := em\<rparr>)"
  by (erule any_socket) simp_all

lemma any_receive_inv: "inv c \<Longrightarrow> inv (snd (receive env m c))"
  unfolding receive_def Let_def split_beta snd_conv
  by (rule run_microtasks_inv, rule loop_inv) (simp_all add: any_listener_inv any_emitter_inv)

lemma any_occur_inv: "inv c \<Longrightarrow> can_occur c ev \<Longrightarrow> inv (occur env c ev)"
proof (cases "of_socket ev")
  case True
  assume c: "inv c" "can_occur c ev"
  show ?thesis
  proof (cases ev)
    case (SocketBecomes st)
    show ?thesis unfolding SocketBecomes occur.simps using c(1) by (rule any_socket) simp_all
  qed (use True c in \<open>simp_all add: any_receive_inv disp_inv\<close>)
qed (rule occur_inv)

end

section \<open>Peers are calls on connections of their users\<close>

definition client_wf :: "'p client \<Rightarrow> bool" where
  "client_wf c \<longleftrightarrow> wf_obj (s_peers (c_store c)) \<and>
     (\<forall>(u, p) \<in> set (s_peers (c_store c)). p < length (c_peers c) \<and> user_of p c = u) \<and>
     calls_in {..<length (c_peers c)} (s_world (c_store c))"

lemma client_wfI:
  assumes "wf_obj (s_peers (c_store c))" and "calls_in {..<length (c_peers c)} (s_world (c_store c))"
    and "\<And>u p. (u, p) \<in> set (s_peers (c_store c)) \<Longrightarrow> p < length (c_peers c) \<and> user_of p c = u"
  shows "client_wf c"
  using assms by (auto simp: client_wf_def)

lemma client_wfD:
  assumes "client_wf c"
  shows "wf_obj (s_peers (c_store c))" "calls_in {..<length (c_peers c)} (s_world (c_store c))"
    "(u, p) \<in> set (s_peers (c_store c)) \<Longrightarrow> p < length (c_peers c) \<and> user_of p c = u"
    "snd ` set (s_peers (c_store c)) \<subseteq> {..<length (c_peers c)}"
    "registered u c = Some p \<Longrightarrow> p < length (c_peers c) \<and> user_of p c = u"
  using assms by (auto simp: client_wf_def registered_def dest: map_of_SomeD)

lemma client_wf_disp:
  assumes c: "client_wf c" and a: "\<not> creates_peer a"
  shows "client_wf (snd (disp env a c))"
proof (rule client_wfI)
  note r = calls.reducers_inv [OF refl client_wfD(4) [OF c] client_wfD(2) [OF c], where senv = "ev_store env" and a = a]
    reducers_members [where env = "ev_store env" and a = a and s = "c_store c"]
  show "wf_obj (s_peers (c_store (snd (disp env a c))))" using r(3) client_wfD(1) [OF c] by simp
  show "calls_in {..<length (c_peers (snd (disp env a c)))} (s_world (c_store (snd (disp env a c))))" using r(1) by simp
  fix u p assume "(u, p) \<in> set (s_peers (c_store (snd (disp env a c))))"
  then have "(u, p) \<in> set (s_peers (c_store c))" using r(2) a by auto
  then show "p < length (c_peers (snd (disp env a c))) \<and> user_of p (snd (disp env a c)) = u"
    using client_wfD(3) [OF c] by (simp add: user_of_def)
qed

lemma client_wf_world:
  "client_wf c \<Longrightarrow> calls_in {..<length (c_peers c)} w \<Longrightarrow> client_wf (put_world w c)"
  by (simp add: client_wf_def user_of_def)

lemma client_wf_create:
  assumes c: "client_wf c"
  shows "client_wf (snd (disp env (AddPeer u (length (c_peers c))) (c\<lparr>c_peers := c_peers c @ [new_peer u i]\<rparr>)))"
    (is "client_wf (snd (disp env ?a ?c))")
proof (rule client_wfI)
  have sub: "{..<length (c_peers c)} \<subseteq> {..<length (c_peers ?c)}" by auto
  have ca: "calls_in {..<length (c_peers ?c)} (s_world (c_store ?c))"
    using client_wfD(2) [OF c] sub unfolding calls_in_def by auto
  have "snd ` set (s_peers (c_store ?c)) \<subseteq> {..<length (c_peers ?c)}" using client_wfD(4) [OF c] sub by auto
  note r = calls.reducers_inv [OF refl this ca, where senv = "ev_store env" and a = ?a]
    reducers_members [where env = "ev_store env" and a = ?a and s = "c_store ?c"]
  show "wf_obj (s_peers (c_store (snd (disp env ?a ?c))))" using r(3) client_wfD(1) [OF c] by simp
  show "calls_in {..<length (c_peers (snd (disp env ?a ?c)))} (s_world (c_store (snd (disp env ?a ?c))))" using r(1) by simp
  fix v p assume "(v, p) \<in> set (s_peers (c_store (snd (disp env ?a ?c))))"
  then consider "(v, p) \<in> set (s_peers (c_store c))" | "v = u" "p = length (c_peers c)" using r(2) by auto
  then show "p < length (c_peers (snd (disp env ?a ?c))) \<and> user_of p (snd (disp env ?a ?c)) = v"
    by cases (use client_wfD(3) [OF c, of v p] in \<open>auto simp: user_of_def new_peer_def nth_append\<close>)
qed

lemma client_wf_frame:
  assumes "client_wf c" and "c_store c' = c_store c" and "map po_userId (c_peers c') = map po_userId (c_peers c)"
  shows "client_wf c'"
proof -
  have "length (c_peers c') = length (c_peers c)" using assms(3) by (rule map_eq_imp_length_eq)
  moreover have "user_of p c' = user_of p c" if "p < length (c_peers c)" for p
    using assms(3) that calculation by (metis nth_map user_of_def)
  ultimately show ?thesis using assms(1,2) by (auto simp: client_wf_def)
qed

interpretation wf: client_invariant env client_wf for env
proof
  fix c :: "'p client" and env :: "'p client_env" and u :: string and q :: nat and call
    and ls :: "(stream_type \<times> local_stream) list" and type args
  show "client_wf (noted env type args c)" if "client_wf c" 
    using that by (simp add: client_wf_def)
  show "client_wf (snd (on_peer env call c))" if "client_wf c" "registered u c = Some (callee call)"
    using that client_wfD(5) [OF that(1), of u "callee call"] client_wfD(2) [OF that(1)]
    by (auto simp: on_peer_def split_beta Let_def intro!: client_wf_world calls.call)
  show "client_wf (put_world (w\<lparr>pw_codec := fst (setTrackMetadata md (pw_codec w))\<rparr>) c)"
    if "client_wf c" "w = s_world (c_store c)" for w md
    using that client_wfD(2) [OF that(1)] by (simp add: client_wf_world calls_in_def)
  show "client_wf (put_world ((s_world (c_store c))\<lparr>pw_streams := sw\<rparr>) c)" if "client_wf c" for sw
    using that client_wfD(2) [OF that] by (simp add: client_wf_world calls_in_def)
  show "client_wf (decrypt_receiver env r mid u c)" if "client_wf c" for r mid
    using that client_wfD(2) [OF that] by (simp add: decrypt_receiver_def Let_def client_wf_world calls_in_def)
  show "client_wf (put_world (snd (handleConnect (se_peer (ev_store env)) q ls (s_world (c_store c)))) c)"
    if "client_wf c" "registered u c = Some q"
    using that client_wfD(5) [OF that(1), of u q] client_wfD(2) [OF that(1)] by (simp add: client_wf_world calls.handleConnect_inv)
  show "\<not> creates_peer a" if "handler_action a" for a
    using that by (cases a) simp_all
qed (simp_all add: client_wf_disp client_wf_create client_wf_world calls.destroy_timer_inv client_wfD(2) client_wf_frame)

text \<open>No handler sets a password: the codec keeps the one the toolbar posted.\<close>

definition client_password :: "string option \<Rightarrow> bool \<Rightarrow> 'p client \<Rightarrow> bool" where
  "client_password pw worker c \<longleftrightarrow> password_is pw worker (s_world (c_store c))"

interpretation secret: client_invariant env "client_password pw worker" for env pw worker
proof
  show "\<not> creates_peer a" if "handler_action a" for a
    using that by (cases a) simp_all
  fix c :: "'p client" and env :: "'p client_env"
  show "client_password pw worker (snd (on_peer env call c))" if "client_password pw worker c" for call
    using that by (simp add: client_password_def on_peer_def split_beta Let_def password.call)
  show "client_password pw worker (put_world (w\<lparr>pw_codec := fst (setTrackMetadata md (pw_codec w))\<rparr>) c)"
    if "client_password pw worker c" "w = s_world (c_store c)" for w md
    using that by (simp add: client_password_def password_is_def last_password_codec)
  show "client_password pw worker (put_world ((s_world (c_store c))\<lparr>pw_streams := sw\<rparr>) c)" if "client_password pw worker c" for sw
    using that by (simp add: client_password_def password_is_def)
  show "client_password pw worker (decrypt_receiver env r mid u c)" if "client_password pw worker c" for r mid u
    using that by (simp add: client_password_def password_is_def decrypt_receiver_def Let_def last_password_codec)
qed (simp_all add: client_password_def password.reducers_inv password.handleConnect_inv password.destroy_timer_inv)

definition first_client :: "'p store \<Rightarrow> 'p client" where
  "first_client s = init
     \<lparr>c_store = s, c_peers = [], c_emitter = [], c_socket = Connecting, c_out = [],
      c_dials = [], c_microtasks = [], c_clipboard = []\<rparr>"

interpretation session: machine "occur env" can_occur client_wf for env
  by unfold_locales (rule wf.any_occur_inv)

lemma first_client_wf:
  "pw_calls w = [] \<Longrightarrow> pw_timers w = [] \<Longrightarrow> client_wf (first_client (initial_store stored nickname w))"
  by (simp add: first_client_def init_def client_wf_def initial_store_def calls_in_def)

section \<open>The users of a room\<close>

definition connected_to :: "'p client_env \<Rightarrow> string \<Rightarrow> bool \<Rightarrow> 'p client \<Rightarrow> 'p client" where
  "connected_to env u i c = snd (createPeer env u i c)"

lemma registered_disp:
  "to_peers a = None \<Longrightarrow> fst (disp env a c) = None \<Longrightarrow> registered u (snd (disp env a c)) = registered u c"
  by (auto simp: registered_def disp_def reducers_def peers_slice_def Let_def split: prod.splits option.splits sum.splits)

lemma add_peer:
  "fst (reducers env (AddPeer u p) s) = None"
  "s_peers (snd (reducers env (AddPeer u p) s)) = oset u p (s_peers s)"
  "s_world (snd (reducers env (AddPeer u p) s)) = s_world s"
  "s_nicknames (snd (reducers env (AddPeer u p) s)) = s_nicknames s"
  by (simp_all add: reducers_def peers_slice_def Let_def split_beta)

text \<open>A peer for a user without one: nothing is thrown and nobody is called.\<close>

lemma createPeer_new:
  assumes "ev_webrtc env" and "registered u c = None"
  shows "createPeer env u i c = (None, connected_to env u i c)"
    "c_peers (connected_to env u i c) = c_peers c @ [new_peer u i]"
    "registered v (connected_to env u i c) = (if v = u then Some (length (c_peers c)) else registered v c)"
    "s_world (c_store (connected_to env u i c)) = s_world (c_store c)"
    "s_nicknames (c_store (connected_to env u i c)) = s_nicknames (c_store c)"
  using assms
  by (simp_all add: connected_to_def createPeer_def before_def notif_noted skip_def registered_def add_peer
      prod_eq_iff)

lemma createPeer_all:
  assumes "ev_webrtc env" and "distinct us" and "\<And>u. u \<in> set us \<Longrightarrow> registered u c = None"
  shows "\<exists>c'. for_each (\<lambda>u. createPeer env u i) us c = (None, c') \<and>
    c_peers c' = c_peers c @ map (\<lambda>u. new_peer u i) us \<and>
    (\<forall>k < length us. registered (us ! k) c' = Some (length (c_peers c) + k)) \<and>
    (\<forall>u. u \<notin> set us \<longrightarrow> registered u c' = registered u c) \<and>
    s_world (c_store c') = s_world (c_store c) \<and> s_nicknames (c_store c') = s_nicknames (c_store c)"
  using assms(2,3)
proof (induction us arbitrary: c)
  case (Cons u us)
  note new = createPeer_new [OF assms(1), where u = u and c = c and i = i]
  have n: "registered u c = None" using Cons.prems by simp
  have "registered v (connected_to env u i c) = None" if "v \<in> set us" for v
    using that Cons.prems n by (auto simp: new(3))
  from Cons.IH [OF _ this] Cons.prems(1) obtain c' where c':
    "for_each (\<lambda>u. createPeer env u i) us (connected_to env u i c) = (None, c')"
    "c_peers c' = c_peers c @ new_peer u i # map (\<lambda>u. new_peer u i) us"
    "\<forall>k < length us. registered (us ! k) c' = Some (Suc (length (c_peers c)) + k)"
    "\<forall>v. v \<notin> set us \<longrightarrow> registered v c' = registered v (connected_to env u i c)"
    "s_world (c_store c') = s_world (c_store c)" "s_nicknames (c_store c') = s_nicknames (c_store c)"
    using new(2,4,5) [OF n] by auto
  have "registered ((u # us) ! k) c' = Some (length (c_peers c) + k)" if "k < length (u # us)" for k
  proof (cases k)
    case 0
    then show ?thesis using c'(4) Cons.prems(1) new(3) [OF n, of u] by simp
  qed (use that c'(3) in simp)
  moreover have "registered v c' = registered v c" if "v \<notin> set (u # us)" for v
    using that c'(4) new(3) [OF n, of v] by simp
  ultimately show ?case using c' new(1) [OF n] by simp
qed simp

lemma record_callback_peers:
  assumes "handleRecordCallback env h successful status url c = (None, c')"
  shows "c_peers c' = c_peers c" "registered u c' = registered u c" "pw_calls (s_world (c_store c')) = pw_calls (s_world (c_store c))"
    "s_nicknames (c_store c') = s_nicknames (c_store c)"
  using assms
  by (auto simp: handleRecordCallback_def before_def skip_def disp_def reducers_def peers_slice_def registered_def Let_def
      split: if_splits prod.splits option.splits sum.splits)

lemma nicknames_set:
  "fst (reducers env (NicknamesSet ns) s) = None"
  "s_peers (snd (reducers env (NicknamesSet ns) s)) = s_peers s"
  "s_world (snd (reducers env (NicknamesSet ns) s)) = s_world s"
  "s_nicknames (snd (reducers env (NicknamesSet ns) s)) = Room.nicknames (se_me env) (s_nicknames s) (NICKNAMES_SET ns)"
  by (simp_all add: reducers_def peers_slice_def Let_def split_beta)

lemma handleUsers_no_throw:
  assumes "\<not> up_recordStatus payload \<or> fst (handleUsers env h payload c) = None"
  obtains c1 where "handleRecordCallback env h (up_recordStatus payload) (up_recordStatus payload) (up_recordUrl payload)
      (noted env Info [''Connected users: {0}'', dec_nat (length (up_nicknames payload))] c) = (None, c1)"
    and "handleUsers env h payload c =
      for_each (\<lambda>peerId. createPeer env peerId (up_initiator payload = sh_userId h))
        (filter (\<lambda>peerId. registered peerId c = None \<and> peerId \<noteq> sh_userId h) (up_peerIds payload))
        (snd (disp env (NicknamesSet (up_nicknames payload)) c1))"
proof -
  let ?c = "noted env Info [''Connected users: {0}'', dec_nat (length (up_nicknames payload))] c"
  obtain e c1 where r: "handleRecordCallback env h (up_recordStatus payload) (up_recordStatus payload) (up_recordUrl payload) ?c = (e, c1)"
    by fastforce
  have "e = None"
  proof (cases "up_recordStatus payload")
    case True
    then show ?thesis using assms r by (cases e) (simp_all add: handleUsers_def before_def notif_noted Let_def)
  qed (use r in \<open>simp add: handleRecordCallback_def skip_def\<close>)
  then show thesis
    using that r by (simp add: handleUsers_def before_def [of "handleRecordCallback _ _ _ _ _"] before_disp nicknames_set(1)
        Let_def registered_def)
qed

section \<open>What a session guarantees\<close>

text \<open>
  C8. In every session of the client, whatever the server, the peers and the user do, the connection
  registered for a user is one that was created for that user, a user has one connection at most, and
  every call on a connection goes to one that was created.
\<close>

theorem connections_belong_to_users:
  assumes "pw_calls w = []" and "pw_timers w = []"
    and "admissible (occur env) can_occur (first_client (initial_store stored nickname w)) es"
    and "c = run (occur env) (first_client (initial_store stored nickname w)) es"
  shows "distinct (okeys (s_peers (c_store c))) \<and>
    (\<forall>u p. registered u c = Some p \<longrightarrow> p < length (c_peers c) \<and> user_of p c = u) \<and>
    (\<forall>call \<in> set (pw_calls (s_world (c_store c))). callee call < length (c_peers c))"
proof -
  have c: "client_wf c" using session.run_inv [OF first_client_wf [OF assms(1,2)] assms(3)] assms(4) by simp
  moreover have "\<forall>call \<in> set (pw_calls (s_world (c_store c))). callee call < length (c_peers c)"
    using client_wfD(2) [OF c] by (auto simp: calls_in_def)
  ultimately show ?thesis using client_wfD(1,5) [OF c] by (simp add: wf_obj_def)
qed

text \<open>
  C4. When the server announces the users of the room, one connection is created for each announced
  user that has none and is not the local user, in the order of the message, with the role the server
  gave; the connections there were stay, nobody is called, and the announced nicknames are set.
\<close>

theorem users_get_connections:
  assumes "ev_webrtc env" and "distinct (up_peerIds payload)"
    and "\<not> up_recordStatus payload \<or> fst (handleUsers env h payload c) = None"
    and new: "new = filter (\<lambda>u. registered u c = None \<and> u \<noteq> sh_userId h) (up_peerIds payload)"
  shows "\<exists>c'. handleUsers env h payload c = (None, c') \<and>
    c_peers c' = c_peers c @ map (\<lambda>u. new_peer u (up_initiator payload = sh_userId h)) new \<and>
    (\<forall>k < length new. registered (new ! k) c' = Some (length (c_peers c) + k)) \<and>
    (\<forall>u. u \<notin> set new \<longrightarrow> registered u c' = registered u c) \<and>
    pw_calls (s_world (c_store c')) = pw_calls (s_world (c_store c)) \<and>
    s_nicknames (c_store c') =
      Room.nicknames (se_me (ev_store env)) (s_nicknames (c_store c)) (NICKNAMES_SET (up_nicknames payload))"
proof -
  obtain c1 where r: "handleRecordCallback env h (up_recordStatus payload) (up_recordStatus payload) (up_recordUrl payload)
      (noted env Info [''Connected users: {0}'', dec_nat (length (up_nicknames payload))] c) = (None, c1)"
    and eq: "handleUsers env h payload c = for_each (\<lambda>u. createPeer env u (up_initiator payload = sh_userId h)) new
      (snd (disp env (NicknamesSet (up_nicknames payload)) c1))"
    using handleUsers_no_throw [OF assms(3)] unfolding new by blast
  let ?c2 = "snd (disp env (NicknamesSet (up_nicknames payload)) c1)"
  note c1 = record_callback_peers [OF r]
  have "registered u ?c2 = registered u c" for u using c1(2) by (simp add: registered_def nicknames_set)
  then show ?thesis
    using createPeer_all [OF assms(1), of new ?c2 "up_initiator payload = sh_userId h"] assms(2) c1(1,3,4)
    by (auto simp: eq new nicknames_set)
qed

section \<open>Dialling\<close>

abbreviation dial_state_of :: "'p client \<Rightarrow> dial_state" where
  "dial_state_of c \<equiv> dialState (s_media (c_store c))"

definition dials_are :: "dial_state \<Rightarrow> bool list \<Rightarrow> unit async_action list \<Rightarrow> 'p client \<Rightarrow> bool" where
  "dials_are x ds ms c \<longleftrightarrow> dial_state_of c = x \<and> c_dials c = ds \<and> c_microtasks c = ms"

lemma dialState_keeps:
  "(\<And>m. to_media a = Some m \<Longrightarrow> dialState (media (s_media s) m) = dialState (s_media s)) \<Longrightarrow>
     dialState (s_media (snd (reducers env a s))) = dialState (s_media s)"
  by (auto simp: reducers_def Let_def split: prod.split option.split sum.split)

lemma handler_dialState:
  "handler_action a \<Longrightarrow> dialState (s_media (snd (reducers env a s))) = dialState (s_media s)"
  by (rule dialState_keeps) (cases a; auto)

interpretation dialling: client_effects env "dials_are x ds ms" handler_action for env x ds ms
proof
  show "dials_are x ds ms (snd (on_peer env call c))" if "dials_are x ds ms c" for env :: "'p client_env" and call c
    using that by (simp add: dials_are_def on_peer_def split_beta Let_def)
qed (simp_all add: dials_are_def handler_dialState dialState_keeps [of "AddPeer _ _", simplified])

lemma dial_action:
  "dial_state_of (snd (disp env (DialAction r) c)) = (case r of
     Pending \<Rightarrow> DIAL_STATE_DIALLING | Resolved _ \<Rightarrow> DIAL_STATE_IN_CALL | Rejected _ \<Rightarrow> DIAL_STATE_HUNG_UP)"
  by (simp add: reducers_def peers_slice_def Let_def split_beta handleDial_def split: async_action.split)

lemma run_microtasks_simps:
  "c_microtasks c = [] \<Longrightarrow> run_microtasks env c = c"
  "c_microtasks c = [r] \<Longrightarrow> run_microtasks env c = snd (disp env (DialAction r) (c\<lparr>c_microtasks := []\<rparr>))"
  by (simp_all add: run_microtasks_def)

lemma dial_open:
  assumes "c_socket c = Open" and "c_microtasks c = []"
  shows "dial_state_of (dial env nickname c) = DIAL_STATE_DIALLING"
    "c_dials (dial env nickname c) = c_dials c @ [False]" "c_microtasks (dial env nickname c) = []"
    "c_out (dial env nickname c) = c_out c @ [Ready (ev_callId env) nickname nickname]"
    "listeners (c_emitter (dial env nickname c)) ''users'' =
       [(OnUsers \<lparr>sh_roomName = ev_callId env, sh_userId = se_me (ev_store env), sh_nickname = nickname\<rparr>, False),
        (ResolveDial (length (c_dials c)), True)]"
    "s_peers (c_store (dial env nickname c)) = s_peers (c_store c)"
  using assms
  by (simp_all add: dial_def handshake_def removeEventListeners_def emit_def Let_def run_microtasks_simps
      dial_action [simplified] reducers_quiet)

lemma timeout_first:
  assumes "c_microtasks c = []" and "d < length (c_dials c)"
  shows "c_dials c ! d \<Longrightarrow> dial_timeout env d c = c"
    "\<not> c_dials c ! d \<Longrightarrow> dial_state_of (dial_timeout env d c) = DIAL_STATE_HUNG_UP"
    "c_dials (dial_timeout env d c) = (c_dials c)[d := True]"
    "c_microtasks (dial_timeout env d c) = []"
    "s_peers (c_store (dial_timeout env d c)) = s_peers (c_store c)"
    "c_emitter (dial_timeout env d c) = c_emitter c"
  using assms
  by (simp_all add: dial_timeout_def settle_dial_def run_microtasks_simps dial_action [simplified] reducers_quiet list_update_id)
    (metis list_update_id)?

lemma users_resolve:
  assumes l: "listeners (c_emitter c) ''users'' = [(OnUsers h, False), (ResolveDial d, True)]"
    and m: "c_microtasks c = []" and d: "d < length (c_dials c)"
    and r: "receive env (UsersMsg payload) c = (None, c')"
  shows "c_dials c' = (c_dials c)[d := True]" "c_microtasks c' = []"
    "dial_state_of c' = (if c_dials c ! d then dial_state_of c else DIAL_STATE_IN_CALL)"
proof -
  obtain e c1 where u: "handleUsers env h payload c = (e, c1)" by fastforce
  let ?c1 = "c1\<lparr>c_emitter := em_removeListener ''users'' (ResolveDial d) (c_emitter c1)\<rparr>"
  have k: "dials_are (dial_state_of c) (c_dials c) [] c1"
    using dialling.handleUsers_inv [of "dial_state_of c" "c_dials c" "[]" c env h payload] u m by (simp add: dials_are_def)
  have e: "e = None" and c': "c' = run_microtasks env (settle_dial d (Resolved ()) ?c1)"
    using r u l by (cases e; simp add: receive_def call_listener_def split: prod.splits)+
  show "c_dials c' = (c_dials c)[d := True]" "c_microtasks c' = []"
    "dial_state_of c' = (if c_dials c ! d then dial_state_of c else DIAL_STATE_IN_CALL)"
    using k d by (cases "c_dials c ! d"; simp add: c' dials_are_def settle_dial_def run_microtasks_simps
        dial_action [simplified]; metis list_update_id)+
qed

text \<open>
  C9. A dial on an open socket sends one ready message and is settled exactly once: the first of
  the users message and the timeout decides whether the client is in the call or hung up, and the
  other then leaves the dial state alone.
\<close>

theorem dial_settles_once:
  assumes "c_socket c = Open" and "c_microtasks c = []" and "c1 = dial env nickname c" and "d = length (c_dials c)"
  shows "dial_state_of c1 = DIAL_STATE_DIALLING \<and>
    c_out c1 = c_out c @ [Ready (ev_callId env) nickname nickname] \<and>
    dial_state_of (dial_timeout env d c1) = DIAL_STATE_HUNG_UP \<and>
    (\<forall>payload c2. receive env (UsersMsg payload) c1 = (None, c2) \<longrightarrow>
       dial_state_of c2 = DIAL_STATE_IN_CALL \<and> dial_timeout env d c2 = c2) \<and>
    (\<forall>payload c2. receive env (UsersMsg payload) (dial_timeout env d c1) = (None, c2) \<longrightarrow>
       dial_state_of c2 = DIAL_STATE_HUNG_UP)"
proof -
  note o = dial_open [OF assms(1,2), of env nickname, folded assms(3)]
  have d: "d < length (c_dials c1)" "\<not> c_dials c1 ! d" using o(2) assms(4) by simp_all
  note l = o(5) [folded assms(4)] and t = timeout_first [OF o(3) d(1), of env]
  have "dial_state_of c2 = DIAL_STATE_IN_CALL \<and> dial_timeout env d c2 = c2"
    if "receive env (UsersMsg payload) c1 = (None, c2)" for payload c2
    using users_resolve [OF l o(3) d(1) that] d timeout_first(1) [of c2 d env] by simp
  moreover have "dial_state_of c2 = DIAL_STATE_HUNG_UP"
    if "receive env (UsersMsg payload) (dial_timeout env d c1) = (None, c2)" for payload c2
    using users_resolve [OF l [folded t(6)] t(4) _ that] d t(2,3) by simp
  ultimately show ?thesis using o(1,4) t(2) d by blast
qed

text \<open>
  C29. The timer of a dial is not cancelled: when the user hung up before the answer and dials
  again, the timer of the first dial hangs up the running call, with the peers still connected.
\<close>

theorem stale_dial_timeout:
  assumes "c_socket c = Open" and "c_microtasks c = []" and "d = length (c_dials c)"
    and "c1 = snd (hangUp env (dial env nickname c))"
    and "receive env (UsersMsg payload) (dial env nickname' c1) = (None, c2)"
  shows "dial_state_of c2 = DIAL_STATE_IN_CALL \<and>
    dial_state_of (dial_timeout env d c2) = DIAL_STATE_HUNG_UP \<and>
    (\<forall>u. registered u (dial_timeout env d c2) = registered u c2)"
proof -
  note o = dial_open [OF assms(1,2), of env nickname]
  have "c_socket (dial env nickname c) = Open"
    using assms(1,2) by (simp add: dial_def handshake_def removeEventListeners_def emit_def Let_def run_microtasks_simps)
  then have c1: "c_socket c1 = Open" "c_microtasks c1 = []" "c_dials c1 = c_dials c @ [False]"
    using assms(4) o(2,3) by (simp_all add: hangUp_def before_def emit_def removeEventListeners_def)
  note o1 = dial_open [OF c1(1,2), of env nickname']
  have "length (c_dials c1) < length (c_dials (dial env nickname' c1))" using o1(2) by simp
  note u = users_resolve [OF o1(5,3) this assms(5)]
  have d: "d < length (c_dials c2)" "\<not> c_dials c2 ! d"
    using u(1) o1(2) c1(3) assms(3) by (simp_all add: nth_append)
  show ?thesis
    using u(3) o1(2) timeout_first(2,5) [OF u(2) d(1)] d(2) by (simp add: registered_def)
qed

section \<open>Joining again\<close>

text \<open>Joining and leaving: what the buttons of the page do.\<close>

fun dials_in :: "happening list \<Rightarrow> nat" where
  "dials_in [] = 0"
| "dials_in (Dials nickname # es) = Suc (dials_in es)"
| "dials_in (e # es) = dials_in es"

definition record_handlers :: "nat \<Rightarrow> 'p client \<Rightarrow> bool" where
  "record_handlers n c \<longleftrightarrow> (\<exists>hs. length hs = n \<and>
     listeners (c_emitter c) ''record_callback'' = map (\<lambda>h. (OnRecordCallback h, False)) hs)"

lemma run_microtasks_emitter: "c_emitter (run_microtasks env c) = c_emitter c"
proof -
  have "c_emitter (fold (\<lambda>result c. snd (disp env (DialAction result) c)) rs c) = c_emitter c" for rs c
    by (induction rs arbitrary: c) simp_all
  then show ?thesis by (simp add: run_microtasks_def)
qed

lemma emit_emitter: "c_emitter (snd (emit m c)) = c_emitter c"
  by (simp add: emit_def split: socket_state.split)

lemma dial_listeners:
  assumes "name \<noteq> ''users''"
  shows "listeners (c_emitter (dial env nickname c)) name = listeners (c_emitter (snd (handshake (ev_callId env)
    \<lparr>sh_roomName = ev_callId env, sh_userId = se_me (ev_store env), sh_nickname = nickname\<rparr> c))) name"
proof -
  let ?h = "\<lparr>sh_roomName = ev_callId env, sh_userId = se_me (ev_store env), sh_nickname = nickname\<rparr>"
  obtain e c1 where r: "handshake (ev_callId env) ?h (c\<lparr>c_dials := c_dials c @ [False]\<rparr>) = (e, c1)" by fastforce
  have "c_emitter c1 = c_emitter (snd (handshake (ev_callId env) ?h c))"
    using arg_cong [OF r, of snd] by (auto simp: handshake_def Let_def removeEventListeners_def emit_emitter)
  then show ?thesis
    using assms r by (simp add: dial_def Let_def run_microtasks_emitter settle_dial_def split: option.split)
qed

lemma record_handlers_step:
  assumes "record_handlers n c"
  shows "record_handlers (Suc n) (dial env nickname c)" "record_handlers n (snd (hangUp env c))"
proof -
  obtain hs where hs: "length hs = n" "listeners (c_emitter c) ''record_callback'' = map (\<lambda>h. (OnRecordCallback h, False)) hs"
    using assms by (auto simp: record_handlers_def)
  show "record_handlers (Suc n) (dial env nickname c)"
    unfolding record_handlers_def dial_listeners [of "''record_callback''" env nickname c, simplified]
    by (rule exI [of _ "hs @ [_]"]) (simp add: hs handshake_def Let_def emit_emitter removeEventListeners_def)
  have "listeners (c_emitter (snd (hangUp env c))) ''record_callback'' = listeners (c_emitter c) ''record_callback''"
    by (simp add: hangUp_def before_def emit_def removeEventListeners_def split: socket_state.split)
  then show "record_handlers n (snd (hangUp env c))" using assms by (simp add: record_handlers_def)
qed

lemma record_handlers_run:
  "record_handlers n c \<Longrightarrow> set es \<subseteq> range Dials \<union> {HangsUp} \<Longrightarrow> record_handlers (n + dials_in es) (run (occur env) c es)"
  by (induction es arbitrary: n c rule: dials_in.induct) (force simp: record_handlers_step simp flip: add_Suc)+

lemma stop_message:
  assumes "record_handlers n c"
  shows "fst (receive env (RecordCallbackMsg True False url) c) = None"
    "isRecording (s_streams (c_store (snd (receive env (RecordCallbackMsg True False url) c)))) =
       (isRecording (s_streams (c_store c)) \<noteq> odd n)"
proof -
  obtain hs where hs: "length hs = n" "listeners (c_emitter c) ''record_callback'' = map (\<lambda>h. (OnRecordCallback h, False)) hs"
    using assms by (auto simp: record_handlers_def)
  let ?f = "\<lambda>(l, once) c. call_listener env (RecordCallbackMsg True False url) l
    (if once then c\<lparr>c_emitter := em_removeListener ''record_callback'' l (c_emitter c)\<rparr> else c)"
  have step: "fst (?f (OnRecordCallback h, False) c) = None"
    "isRecording (s_streams (c_store (snd (?f (OnRecordCallback h, False) c)))) = (\<not> isRecording (s_streams (c_store c)))" for h c
    by (simp_all add: call_listener_def handleRecordCallback_def before_def disp_def reducers_def peers_slice_def
        Let_def split_beta stopRecordLocalStream_def destroy_peer_def split: option.split)
  have "fst (for_each ?f (map (\<lambda>h. (OnRecordCallback h, False)) hs) c) = None \<and>
      isRecording (s_streams (c_store (snd (for_each ?f (map (\<lambda>h. (OnRecordCallback h, False)) hs) c)))) =
        (isRecording (s_streams (c_store c)) \<noteq> odd (length hs))" for c
  proof (induction hs arbitrary: c)
    case (Cons h hs)
    then show ?case using step [of h c] by (cases "?f (OnRecordCallback h, False) c") auto
  qed simp
  moreover have "isRecording (s_streams (c_store (run_microtasks env c))) = isRecording (s_streams (c_store c))" for c
  proof -
    have "s_streams (c_store (fold (\<lambda>r c. snd (disp env (DialAction r) c)) rs c)) = s_streams (c_store c)" for rs c
      by (induction rs arbitrary: c) (simp_all add: reducers_quiet)
    then show ?thesis by (simp add: run_microtasks_def)
  qed
  ultimately show "fst (receive env (RecordCallbackMsg True False url) c) = None"
    "isRecording (s_streams (c_store (snd (receive env (RecordCallbackMsg True False url) c)))) =
       (isRecording (s_streams (c_store c)) \<noteq> odd n)"
    using hs by (simp_all add: receive_def split_beta)
qed

text \<open>
  C33. The handlers of the messages about recordings are never removed: after the user dialled n
  times, each such message is handled n times. The message that recording has stopped then toggles
  the recording flag n times: for even n a client that records goes on, one that does not stays so.
\<close>

theorem record_handlers_pile_up:
  assumes "listeners (c_emitter c) ''record_callback'' = []" and "set es \<subseteq> range Dials \<union> {HangsUp}"
    and "c' = run (occur env) c es"
  shows "length (listeners (c_emitter c') ''record_callback'') = dials_in es \<and>
    isRecording (s_streams (c_store (occur env c' (Receives (RecordCallbackMsg True False url))))) =
      (isRecording (s_streams (c_store c')) \<noteq> odd (dials_in es))"
proof -
  have "record_handlers 0 c" using assms(1) by (simp add: record_handlers_def)
  then have r: "record_handlers (dials_in es) c'" using record_handlers_run [of 0 c es env] assms(2,3) by simp
  then show ?thesis using stop_message(2) [OF r] by (auto simp: record_handlers_def)
qed

text \<open>
  C34. The close event of a connection removes whatever connection its user has by then: when an old
  connection closes after a new one was made for the same user, the new one is forgotten, with its
  nickname, and it is not destroyed.
\<close>

theorem old_close_forgets_new_peer:
  assumes "p < length (c_peers c)" and "user_of p c = u" and "registered u c = Some q" and "q \<noteq> p"
    and "listeners (po_emitter (c_peers c ! p)) ''close'' = [(HandleClose, True)]"
  shows "\<exists>c'. peer_emit env p CloseEv c = (None, c') \<and> registered u c' = None \<and>
    nick (s_nicknames (c_store c')) u = None \<and>
    pw_calls (s_world (c_store c')) = pw_calls (s_world (c_store c))"
proof -
  let ?po = "(c_peers c ! p)\<lparr>po_emitter := em_removeListener ''close'' HandleClose (po_emitter (c_peers c ! p))\<rparr>"
  let ?c = "c\<lparr>c_peers := (c_peers c)[p := ?po]\<rparr>"
  have u: "user_of p ?c = u" using assms(1,2) by (simp add: user_of_def)
  let ?s = "c_store (noted env NotifyError [''Peer connection closed''] ?c)"
  have s: "s_world ?s = s_world (c_store c)" by simp
  have r: "fst (reducers (ev_store env) (RemovePeer u) ?s) = None"
    "s_peers (snd (reducers (ev_store env) (RemovePeer u) ?s)) = omit (s_peers ?s) [u]"
    "s_nicknames (snd (reducers (ev_store env) (RemovePeer u) ?s)) = omit (s_nicknames ?s) [u]"
    "pw_calls (s_world (snd (reducers (ev_store env) (RemovePeer u) ?s))) = pw_calls (s_world ?s)"
    by (simp_all add: reducers_def peers_slice_def Let_def split_beta)
  have "peer_emit env p CloseEv c = disp env (RemovePeer u) (noted env NotifyError [''Peer connection closed''] ?c)"
    using assms(5) u by (simp add: peer_emit_def peer_handleClose_def Let_def split: prod.split option.split)
  then show ?thesis
    using r s by (auto simp: disp_def split_beta registered_def nick_def)
qed

section \<open>Runs that meet the hypotheses\<close>

definition toy_client_env :: "nat client_env" where
  "toy_client_env = \<lparr>ev_store = toy_store_env, ev_chat = toy_chat, ev_callId = ''room'', ev_webrtc = True\<rparr>"

definition toy_users :: users_payload where
  "toy_users = \<lparr>up_initiator = ''me'', up_peerIds = [''me'', ''ann''], up_nicknames = [(''ann'', ''Ann'')],
     up_recordStatus = False, up_recordUrl = ''''\<rparr>"

definition toy_client :: "nat client" where
  "toy_client = (first_client toy_store)\<lparr>c_socket := Open\<rparr>"

definition toy_handler :: "string \<Rightarrow> socket_handler" where
  "toy_handler nickname = \<lparr>sh_roomName = ''room'', sh_userId = ''me'', sh_nickname = nickname\<rparr>"

lemma toy_client_simps [simp]:
  "c_socket toy_client = Open" "c_microtasks toy_client = []" "c_dials toy_client = []" "c_peers toy_client = []"
  "s_peers (c_store toy_client) = []" "listeners (c_emitter toy_client) ''record_callback'' = []"
  "pw_calls (s_world (c_store toy_client)) = []" "ev_webrtc toy_client_env"
  "se_me (ev_store toy_client_env) = ''me''" "ev_callId toy_client_env = ''room''"
  by (simp_all add: toy_client_def first_client_def init_def toy_store_def initial_store_def listeners_def em_on_def
      toy_peer_world_def toy_client_env_def toy_store_env_def)

text \<open>A users message in a client that has just dialled.\<close>

lemma users_after_dial:
  assumes "listeners (c_emitter c) ''users'' = [(OnUsers h, False), (ResolveDial d, True)]"
    and "sh_userId h = ''me''" and "registered ''ann'' c = None"
  shows "fst (receive toy_client_env (UsersMsg toy_users) c) = None"
    "registered ''ann'' (snd (receive toy_client_env (UsersMsg toy_users) c)) = Some (length (c_peers c))"
    "c_peers (snd (receive toy_client_env (UsersMsg toy_users) c)) = c_peers c @ [new_peer ''ann'' True]"
proof -
  let ?c0 = "snd (disp toy_client_env (NicknamesSet (up_nicknames toy_users))
    (noted toy_client_env Info [''Connected users: {0}'', dec_nat (length (up_nicknames toy_users))] c))"
  obtain c1 where c1: "handleRecordCallback toy_client_env h (up_recordStatus toy_users) (up_recordStatus toy_users) (up_recordUrl toy_users)
      (noted toy_client_env Info [''Connected users: {0}'', dec_nat (length (up_nicknames toy_users))] c) = (None, c1)"
    "handleUsers toy_client_env h toy_users c = for_each (\<lambda>u. createPeer toy_client_env u (up_initiator toy_users = sh_userId h))
        (filter (\<lambda>u. registered u c = None \<and> u \<noteq> sh_userId h) (up_peerIds toy_users))
        (snd (disp toy_client_env (NicknamesSet (up_nicknames toy_users)) c1))"
    by (rule handleUsers_no_throw [of toy_users toy_client_env h c]) (simp_all add: toy_users_def)
  have "c1 = noted toy_client_env Info [''Connected users: {0}'', dec_nat (length (up_nicknames toy_users))] c"
    using c1(1) by (simp add: handleRecordCallback_def toy_users_def skip_def)
  then have u: "handleUsers toy_client_env h toy_users c = createPeer toy_client_env ''ann'' True ?c0"
    using c1(2) assms(2,3) by (simp add: toy_users_def split: prod.split option.split)
  have n: "registered ''ann'' ?c0 = None" using assms(3) by (simp add: registered_def nicknames_set)
  note new = createPeer_new [where env = toy_client_env and u = "''ann''" and c = ?c0 and i = True, simplified toy_client_simps, OF _ n]
  have mt: "registered u (run_microtasks env c) = registered u c" "c_peers (run_microtasks env c) = c_peers c"
    for env :: "nat client_env" and u c
  proof -
    have "registered u (fold (\<lambda>r c. snd (disp env (DialAction r) c)) rs c) = registered u c \<and>
        c_peers (fold (\<lambda>r c. snd (disp env (DialAction r) c)) rs c) = c_peers c" for rs c
      by (induction rs arbitrary: c) (simp_all add: registered_def reducers_quiet)
    then show "registered u (run_microtasks env c) = registered u c" "c_peers (run_microtasks env c) = c_peers c"
      by (simp_all add: run_microtasks_def registered_def)
  qed
  have st: "registered u (settle_dial d r c) = registered u c" "c_peers (settle_dial d r c) = c_peers c"
    "registered u (c\<lparr>c_emitter := em\<rparr>) = registered u c" for u d r em and c :: "nat client"
    by (simp_all add: settle_dial_def registered_def)
  show "fst (receive toy_client_env (UsersMsg toy_users) c) = None"
    "registered ''ann'' (snd (receive toy_client_env (UsersMsg toy_users) c)) = Some (length (c_peers c))"
    "c_peers (snd (receive toy_client_env (UsersMsg toy_users) c)) = c_peers c @ [new_peer ''ann'' True]"
    using new by (simp_all add: receive_def assms(1) call_listener_def u mt st)
qed

abbreviation joined :: "nat client \<Rightarrow> nat client" where
  "joined c \<equiv> snd (receive toy_client_env (UsersMsg toy_users) (dial toy_client_env ''joe'' c))"

lemma dial_peers: "c_socket c = Open \<Longrightarrow> c_microtasks c = [] \<Longrightarrow> c_peers (dial env nickname c) = c_peers c"
  by (simp add: dial_def handshake_def removeEventListeners_def emit_def Let_def run_microtasks_simps)

lemma joined_simps:
  assumes "c_socket c = Open" and "c_microtasks c = []" and "registered ''ann'' c = None"
  shows "receive toy_client_env (UsersMsg toy_users) (dial toy_client_env ''joe'' c) = (None, joined c)"
    "registered ''ann'' (joined c) = Some (length (c_peers c))" "c_peers (joined c) = c_peers c @ [new_peer ''ann'' True]"
    "c_microtasks (joined c) = []"
proof -
  note d = dial_open [OF assms(1,2), of toy_client_env "''joe''"]
  have n: "registered ''ann'' (dial toy_client_env ''joe'' c) = None" using assms(3) d(6) by (simp add: registered_def)
  note u = users_after_dial [OF d(5) _ n, simplified]
  show r: "receive toy_client_env (UsersMsg toy_users) (dial toy_client_env ''joe'' c) = (None, joined c)"
    using u(1) by (simp add: prod_eq_iff)
  show "registered ''ann'' (joined c) = Some (length (c_peers c))" "c_peers (joined c) = c_peers c @ [new_peer ''ann'' True]"
    using u(2,3) dial_peers [OF assms(1,2)] by simp_all
  show "c_microtasks (joined c) = []" using users_resolve(2) [OF d(5,3) _ r] d(2) by simp
qed

lemma hung_up:
  "registered u (snd (hangUp env (c\<lparr>c_socket := Open\<rparr>))) = None"
  "c_peers (snd (hangUp env (c\<lparr>c_socket := Open\<rparr>))) = c_peers c"
  "c_socket (snd (hangUp env (c\<lparr>c_socket := Open\<rparr>))) = Open"
  "c_microtasks (snd (hangUp env (c\<lparr>c_socket := Open\<rparr>))) = c_microtasks c"
  by (simp_all add: hangUp_def before_def emit_def removeEventListeners_def registered_def reducers_def peers_slice_def
      Let_def split_beta)

lemmas toy_joined = joined_simps [of toy_client, simplified registered_def toy_client_simps, simplified]

theorem connections_belong_to_users_witness:
  "user_of 0 (run (occur toy_client_env) (first_client toy_store)
     [SocketBecomes Open, Dials ''joe'', Receives (UsersMsg toy_users)]) = ''ann''"
proof -
  let ?c = "run (occur toy_client_env) (first_client toy_store) [SocketBecomes Open, Dials ''joe'', Receives (UsersMsg toy_users)]"
  have "registered ''ann'' ?c = Some 0"
    using toy_joined(2) by (simp add: toy_client_def registered_def)
  then show ?thesis
    using connections_belong_to_users [OF _ _ _ refl, of toy_peer_world toy_client_env None "''joe''"
        "[SocketBecomes Open, Dials ''joe'', Receives (UsersMsg toy_users)]"]
    by (simp add: toy_peer_world_def toy_store_def)
qed

theorem users_get_connections_witness:
  "\<exists>c. handleUsers toy_client_env (toy_handler ''joe'') toy_users toy_client = (None, c) \<and>
     registered ''ann'' c = Some 0 \<and> registered ''me'' c = None"
proof -
  have "filter (\<lambda>u. registered u toy_client = None \<and> u \<noteq> sh_userId (toy_handler ''joe'')) (up_peerIds toy_users) = [''ann'']"
    by (simp add: toy_users_def toy_handler_def registered_def)
  from users_get_connections [OF _ _ _ this [symmetric], of toy_client_env] show ?thesis
    by (auto simp: toy_users_def registered_def)
qed

theorem dial_settles_once_witness:
  "dial_state_of (joined toy_client) = DIAL_STATE_IN_CALL \<and>
   dial_state_of (dial_timeout toy_client_env 0 (dial toy_client_env ''joe'' toy_client)) = DIAL_STATE_HUNG_UP"
  using dial_settles_once [OF _ _ refl refl, of toy_client toy_client_env "''joe''"] toy_joined(1) by simp

theorem stale_dial_timeout_witness:
  "dial_state_of (dial_timeout toy_client_env 0 (joined (snd (hangUp toy_client_env (dial toy_client_env ''joe'' toy_client))))) =
     DIAL_STATE_HUNG_UP"
proof -
  let ?c = "dial toy_client_env ''joe'' toy_client"
  have "?c\<lparr>c_socket := Open\<rparr> = ?c"
    by (simp add: dial_def handshake_def removeEventListeners_def emit_def Let_def run_microtasks_simps disp_def split_beta)
  with hung_up [where env = toy_client_env and c = ?c] dial_open(3) [of toy_client toy_client_env "''joe''"]
  have "receive toy_client_env (UsersMsg toy_users) (dial toy_client_env ''joe'' (snd (hangUp toy_client_env ?c))) =
      (None, joined (snd (hangUp toy_client_env ?c)))"
    by (intro joined_simps(1)) simp_all
  from stale_dial_timeout [OF _ _ refl refl this] show ?thesis by simp
qed

theorem record_handlers_pile_up_witness:
  "length (listeners (c_emitter (run (occur toy_client_env) toy_client [Dials ''joe'', HangsUp, Dials ''joe''])) ''record_callback'') = 2"
proof -
  have "set [Dials ''joe'', HangsUp, Dials ''joe''] \<subseteq> range Dials \<union> {HangsUp}" by auto
  from record_handlers_pile_up [OF _ this refl, of toy_client toy_client_env] show ?thesis by simp
qed

theorem old_close_forgets_new_peer_witness:
  "\<exists>c. peer_emit toy_client_env 0 CloseEv (joined (snd (hangUp toy_client_env ((joined toy_client)\<lparr>c_socket := Open\<rparr>)))) = (None, c) \<and>
     registered ''ann'' c = None"
proof -
  let ?c = "snd (hangUp toy_client_env ((joined toy_client)\<lparr>c_socket := Open\<rparr>))"
  note h = hung_up [where env = toy_client_env and c = "joined toy_client"]
  note j = joined_simps [OF h(3) _ h(1), unfolded h(2,4), OF toy_joined(4)]
  have "c_peers (joined ?c) = [new_peer ''ann'' True, new_peer ''ann'' True]" "registered ''ann'' (joined ?c) = Some 1"
    using j(2,3) toy_joined(3) by simp_all
  with old_close_forgets_new_peer [of 0 "joined ?c" "''ann''" 1 toy_client_env] show ?thesis
    by (auto simp: user_of_def new_peer_def listeners_def [of "[]"])
qed

end
