(* ===== verification/MediaRequests.thy ===== *)
theory MediaRequests
  imports Store
begin

text \<open>
  The requests of \<open>actions/MediaActions.ts\<close>: enumerating the devices, opening the camera, the
  microphone or the screen, and playing the videos. What the media interface of the browser answers
  is a parameter; the streams it opens are new streams of the heap. A request is dispatched through
  the asynchronous middleware, so that its effect on the store is that of a pending action followed
  by a resolved or a rejected one.
\<close>

section \<open>The media interface of the browser\<close>

record media_constraints =
  mc_audio :: audio_constraint
  mc_video :: video_constraint

record device_info =
  di_deviceId :: string
  di_kind :: string
  di_label :: string

text \<open>The answers may differ from call to call: they depend on the number of streams made before.
  \<open>mn_legacy\<close> is the first of \<open>getUserMedia\<close>, \<open>webkitGetUserMedia\<close> and \<open>mozGetUserMedia\<close> of the
  navigator that exists.\<close>

record media_navigator =
  mn_getUserMedia :: "(nat \<Rightarrow> media_constraints \<Rightarrow> err_obj + track list) option"
  mn_legacy :: "(nat \<Rightarrow> media_constraints \<Rightarrow> err_obj + track list) option"
  mn_getDisplayMedia :: "nat \<Rightarrow> err_obj + track list"
  mn_enumerateDevices :: "err_obj + device_info list"

definition new_stream :: "track list \<Rightarrow> 'p stream_world \<Rightarrow> nat \<times> 'p stream_world" where
  "new_stream ts w = (nextStream w, w\<lparr>heap := (heap w)(nextStream w := ts), nextStream := Suc (nextStream w)\<rparr>)"

definition open_stream :: "err_obj + track list \<Rightarrow> 'p stream_world \<Rightarrow> (err_obj + nat) \<times> 'p stream_world" where
  "open_stream answer w = (case answer of
      Inl e \<Rightarrow> (Inl e, w)
    | Inr ts \<Rightarrow> (let (s, w) = new_stream ts w in (Inr s, w)))"

definition getUserMediaFail :: err_obj where
  "getUserMediaFail = \<lparr>er_name = ''Error'', er_message = ''No API to retrieve media stream. This can happen if you '' @
     ''are using an old browser, or the application is not using HTTPS''\<rparr>"

definition getUserMedia ::
  "media_navigator \<Rightarrow> media_constraints \<Rightarrow> 'p stream_world \<Rightarrow> (err_obj + nat) \<times> 'p stream_world"
where
  "getUserMedia nav constraints w = (case mn_getUserMedia nav of
      Some f \<Rightarrow> open_stream (f (nextStream w) constraints) w
    | None \<Rightarrow> (case mn_legacy nav of
        Some f \<Rightarrow> open_stream (f (nextStream w) constraints) w
      | None \<Rightarrow> (Inl getUserMediaFail, w)))"

definition getDisplayMedia :: "media_navigator \<Rightarrow> 'p stream_world \<Rightarrow> (err_obj + nat) \<times> 'p stream_world" where
  "getDisplayMedia nav w = open_stream (mn_getDisplayMedia nav (nextStream w)) w"

section \<open>Requests\<close>

definition getStream :: "media_navigator \<Rightarrow> 'p stream_world \<Rightarrow> nat \<times> 'p stream_world" where
  "getStream nav w = (case getUserMedia nav \<lparr>mc_audio = AudioOn True, mc_video = VideoOn True\<rparr> w of
      (Inl _, w) \<Rightarrow> new_stream [] w
    | (Inr s, w) \<Rightarrow> (s, w))"

fun device_type_of :: "string \<Rightarrow> device_type" where
  "device_type_of kind = (if kind = ''audioinput'' then AudioInput else VideoInput)"

text \<open>The \<open>finally\<close> block opens a stream, so that the user is asked for permission, and stops its
  tracks; it runs whether or not the devices were listed.\<close>

definition enumerateDevices ::
  "media_navigator \<Rightarrow> 'p stream_world \<Rightarrow> (err_obj + media_device list) \<times> 'p stream_world"
where
  "enumerateDevices nav w =
    (let answer = mn_enumerateDevices nav;
         (stream, w) = getStream nav w;
         w = w\<lparr>stopped := stopped w @ heap w stream\<rparr>
     in (case answer of
           Inl e \<Rightarrow> Inl e
         | Inr ds \<Rightarrow> Inr (map (\<lambda>d. \<lparr>dv_id = di_deviceId d, dv_name = di_label d, dv_type = device_type_of (di_kind d)\<rparr>)
             (filter (\<lambda>d. di_kind d = ''audioinput'' \<or> di_kind d = ''videoinput'') ds)), w))"

text \<open>Every video element as a pair: whether it is paused, and how its \<open>play()\<close> ends. They are in
  the order in which the promises are settled, since \<open>Promise.all\<close> fails with the first failure.\<close>

definition play :: "(bool \<times> (err_obj + unit)) list \<Rightarrow> err_obj + unit" where
  "play videos =
    (let promises = map snd (filter (\<lambda>(paused, _). paused) videos)
     in case List.find isl promises of None \<Rightarrow> Inr () | Some p \<Rightarrow> p)"

datatype media_track_params = AudioParams audio_constraint | VideoParams video_constraint

fun audio_wanted :: "audio_constraint \<Rightarrow> bool" where
  "audio_wanted (AudioOn b) = b"
| "audio_wanted _ = True"

fun video_wanted :: "video_constraint \<Rightarrow> bool" where
  "video_wanted (VideoOn b) = b"
| "video_wanted _ = True"

fun first_of :: "'a list \<Rightarrow> 'a option" where
  "first_of [] = None"
| "first_of (x # _) = Some x"

definition track_request ::
  "media_kind \<Rightarrow> (err_obj + nat) \<times> 'p stream_world \<Rightarrow> (err_obj + media_track_payload) \<times> 'p stream_world"
where
  "track_request kind = (\<lambda>(answer, w). case answer of
      Inl e \<Rightarrow> (Inl e, w)
    | Inr s \<Rightarrow> (Inr \<lparr>mt_kind = kind, mt_track = first_of (filter (\<lambda>t. tr_kind t = kind_string kind) (heap w s)),
                     mt_type = Camera\<rparr>, w))"

fun getMediaTrack ::
  "media_navigator \<Rightarrow> media_track_params \<Rightarrow> 'p stream_world \<Rightarrow> (err_obj + media_track_payload) \<times> 'p stream_world"
where
  "getMediaTrack nav (AudioParams constraint) w =
    (if \<not> audio_wanted constraint then (Inr \<lparr>mt_kind = AudioKind, mt_track = None, mt_type = Camera\<rparr>, w)
     else track_request AudioKind (getUserMedia nav \<lparr>mc_audio = constraint, mc_video = VideoOn False\<rparr> w))"
| "getMediaTrack nav (VideoParams constraint) w =
    (if \<not> video_wanted constraint then (Inr \<lparr>mt_kind = VideoKind, mt_track = None, mt_type = Camera\<rparr>, w)
     else track_request VideoKind (getUserMedia nav \<lparr>mc_audio = AudioOn False, mc_video = constraint\<rparr> w))"

definition getMediaStream ::
  "media_navigator \<Rightarrow> media_constraints \<Rightarrow> 'p stream_world \<Rightarrow> (err_obj + stream_type \<times> nat) \<times> 'p stream_world"
where
  "getMediaStream nav constraints w =
    (if \<not> audio_wanted (mc_audio constraints) \<and> \<not> video_wanted (mc_video constraints)
     then (let (s, w) = new_stream [] w in (Inr (Camera, s), w))
     else (case getUserMedia nav constraints w of
             (Inl e, w) \<Rightarrow> (Inl e, w)
           | (Inr s, w) \<Rightarrow> (Inr (Camera, s), w)))"

definition getDesktopStream ::
  "media_navigator \<Rightarrow> 'p stream_world \<Rightarrow> (err_obj + stream_type \<times> nat) \<times> 'p stream_world"
where
  "getDesktopStream nav w = (case getDisplayMedia nav w of
      (Inl e, w) \<Rightarrow> (Inl e, w)
    | (Inr s, w) \<Rightarrow> (Inr (Desktop, s), w))"

definition enableMediaTrack :: "media_kind \<Rightarrow> action" where
  "enableMediaTrack kind = MediaTrackEnable kind Camera"

section \<open>A request in the store\<close>

text \<open>\<open>dispatch(request())\<close>: the pending action; then, in a later turn, the answer and what the
  continuations of the promise dispatch. \<open>err_of\<close> is the error object of an exception that a reducer
  throws.\<close>

definition answered ::
  "(js_error \<Rightarrow> err_obj) \<Rightarrow> 'p store_env \<Rightarrow> string \<Rightarrow> ('a async_action \<Rightarrow> action) \<Rightarrow>
     ('p stream_world \<Rightarrow> (err_obj + 'a) \<times> 'p stream_world) \<Rightarrow> 'p store \<Rightarrow> err_obj option \<times> 'p store"
where
  "answered err_of env type mk f s =
    (let (answer, sw) = f (pw_streams (s_world s));
         s = s\<lparr>s_world := (s_world s)\<lparr>pw_streams := sw\<rparr>\<rparr>
     in settled (\<lambda>(_, a) s. let (e, s) = reducers env (mk a) s in (map_option err_of e, s)) type answer s)"

definition request ::
  "(js_error \<Rightarrow> err_obj) \<Rightarrow> 'p store_env \<Rightarrow> string \<Rightarrow> ('a async_action \<Rightarrow> action) \<Rightarrow>
     ('p stream_world \<Rightarrow> (err_obj + 'a) \<times> 'p stream_world) \<Rightarrow> 'p store \<Rightarrow> err_obj option \<times> 'p store"
where
  "request err_of env type mk f s = answered err_of env type mk f (snd (reducers env (mk Pending) s))"

section \<open>Opening streams\<close>

text \<open>\<open>opens\<close>: the second world has the first one's streams and perhaps new ones.\<close>

definition opens :: "'p stream_world \<Rightarrow> 'p stream_world \<Rightarrow> bool" where
  "opens w w' \<longleftrightarrow> nextStream w \<le> nextStream w' \<and> (\<forall>a < nextStream w. heap w' a = heap w a)"

lemma opens_refl [simp]: "opens w w"
  by (simp add: opens_def)

lemma opens_trans: "opens w w' \<Longrightarrow> opens w' w'' \<Longrightarrow> opens w w''"
  by (auto simp: opens_def)

lemma new_stream_opens: "new_stream ts w = (s, w') \<Longrightarrow> opens w w' \<and> s = nextStream w \<and> nextStream w' = Suc s \<and> heap w' s = ts"
  by (auto simp: new_stream_def opens_def)

lemma open_stream_opens:
  "open_stream answer w = (r, w') \<Longrightarrow> opens w w' \<and> (\<forall>s. r = Inr s \<longrightarrow> s = nextStream w \<and> nextStream w' = Suc s)
     \<and> (\<forall>e. r = Inl e \<longrightarrow> w' = w)"
  by (auto simp: open_stream_def dest: new_stream_opens split: sum.splits prod.splits)

lemma getUserMedia_opens:
  "getUserMedia nav cs w = (r, w') \<Longrightarrow> opens w w' \<and> (\<forall>s. r = Inr s \<longrightarrow> s = nextStream w \<and> nextStream w' = Suc s)
     \<and> (\<forall>e. r = Inl e \<longrightarrow> w' = w)"
  by (auto simp: getUserMedia_def dest: open_stream_opens split: option.splits)

lemma getStream_opens:
  assumes "getStream nav w = (s, w')"
  shows "opens w w' \<and> s = nextStream w \<and> nextStream w' = Suc s"
proof -
  obtain r w1 where r: "getUserMedia nav \<lparr>mc_audio = AudioOn True, mc_video = VideoOn True\<rparr> w = (r, w1)" by fastforce
  show ?thesis
    using assms r getUserMedia_opens [OF r] new_stream_opens [of "[]" w1]
    by (cases r) (auto simp: getStream_def)
qed

lemma enumerateDevices_opens: "opens w (snd (enumerateDevices nav w))"
  using getStream_opens [of nav w] by (cases "getStream nav w") (simp add: enumerateDevices_def opens_def)

lemma getMediaTrack_opens: "opens w (snd (getMediaTrack nav params w))"
proof -
  have "opens w (snd (track_request kind (getUserMedia nav cs w)))" for kind cs
    using getUserMedia_opens [of nav cs w]
    by (cases "getUserMedia nav cs w") (auto simp: track_request_def split: sum.split)
  then show ?thesis by (cases params) simp_all
qed

lemma stream_request_opens:
  "opens w (snd (getMediaStream nav cs w))"
  "fst (getMediaStream nav cs w) = Inr (type, s) \<Longrightarrow> s = nextStream w \<and> nextStream (snd (getMediaStream nav cs w)) = Suc s"
  "opens w (snd (getDesktopStream nav w))"
  "fst (getDesktopStream nav w) = Inr (type, s) \<Longrightarrow> s = nextStream w \<and> nextStream (snd (getDesktopStream nav w)) = Suc s"
  using getUserMedia_opens [of nav cs w] open_stream_opens [of _ w] new_stream_opens [of "[]" w]
  by (auto simp: getMediaStream_def getDesktopStream_def getDisplayMedia_def split: sum.splits prod.splits)

section \<open>Requests and remote streams\<close>

lemma streams_inv_opens:
  assumes inv: "streams_inv (st, w)" and o: "opens w w'"
  shows "streams_inv (st, w')"
proof -
  have "apart (st, w)" using inv by (simp add: streams_inv_def)
  then have n: "sw_stream s < nextStream w" if "stream_at (streamsByUserId st) u sid = Some s" for u sid s
    using that by (auto simp: apart_def)
  then have h: "heap w' (sw_stream s) = heap w (sw_stream s)" if "stream_at (streamsByUserId st) u sid = Some s" for u sid s
    using that o by (simp add: opens_def)
  have c: "contains (st, w') u sid tr = contains (st, w) u sid tr" for u sid tr
    using h [of u sid] by (cases "stream_at (streamsByUserId st) u sid") (simp_all add: contains_def)
  have "inhabited (st, w')" using inv h by (simp add: streams_inv_def inhabited_def)
  moreover have "apart (st, w')" using \<open>apart (st, w)\<close> n o by (fastforce simp: apart_def opens_def)
  ultimately show ?thesis
    using inv by (simp add: streams_inv_def linked_def c associated_def indexed_def)
qed

lemma find_distinct: "distinct (map f xs) \<Longrightarrow> x \<in> set xs \<Longrightarrow> List.find (\<lambda>y. f y = f x) xs = Some x"
  by (induction xs) force+

lemma held_less:
  assumes inv: "streams_inv (st, w)" and a: "a \<in> held (st, w)"
  shows "a < nextStream w"
proof -
  obtain u us s where s: "(u, us) \<in> set (streamsByUserId st)" "s \<in> set (us_streams us)" "a = sw_stream s"
    using a by (auto simp: held_def)
  have shape: "shape (streamsByUserId st)" and apart: "apart (st, w)" using inv by (simp_all add: streams_inv_def)
  then have g: "oget (streamsByUserId st) u = Some us" using s(1) by (simp add: shape_def oget_Some_iff)
  with shape have "distinct (map sw_streamId (us_streams us))" by (simp add: shape_def)
  from find_distinct [OF this s(2)] g have "stream_at (streamsByUserId st) u (sw_streamId s) = Some s"
    by (simp add: stream_at_def)
  with apart show ?thesis using s(3) by (auto simp: apart_def)
qed

lemma store_inv_opens:
  assumes inv: "store_inv s" and o: "opens (pw_streams (s_world s)) sw"
  shows "store_inv (s\<lparr>s_world := (s_world s)\<lparr>pw_streams := sw\<rparr>\<rparr>)"
proof -
  have "nextStream (pw_streams (s_world s)) \<le> nextStream sw" using o by (simp add: opens_def)
  then show ?thesis
    using inv streams_inv_opens [OF _ o] by (fastforce simp: store_inv_def local_apart_def held_def)
qed

text \<open>What the actions of a request may be and what it may open.\<close>

locale media_request =
  fixes mk :: "'a async_action \<Rightarrow> action"
    and f :: "'p stream_world \<Rightarrow> (err_obj + 'a) \<times> 'p stream_world"
  assumes f_opens: "opens w (snd (f w))"
    and local: "local_action (to_streams (mk a))"
    and no_notification: "mk a \<noteq> NotificationAdd n"
    and fresh: "mk a = MediaStreamAction (Resolved (type, l)) \<Longrightarrow>
      (\<exists>x. a = Resolved x \<and> (fst (f w) = Inr x \<longrightarrow> nextStream w \<le> l \<and> l < nextStream (snd (f w))))"
begin

lemma settled_ok:
  assumes "a = Pending \<or> (\<exists>e. a = Rejected e)"
  shows "store_ok s (mk a)"
proof -
  have "action_ok sw (to_streams (mk a))" for sw :: "'q sw" using local [of a] by (cases "to_streams (mk a)") simp_all
  then show ?thesis using assms fresh [of a] no_notification by (auto simp: store_ok_def)
qed

lemma dispatch_same:
  "tracksByPeerIdMid (s_streams (snd (reducers env (mk a) s))) = tracksByPeerIdMid (s_streams s)"
proof -
  obtain e ps w where p: "peers_slice env (mk a) s = (e, ps, w)" by (metis prod_cases3)
  then show ?thesis
    using reducers_sw(1) [OF p] local_action_same [OF local, of "se_browser env" "s_streams s" "pw_streams w" a]
    by (cases e) (auto simp: same_tracks_def prod_eq_iff split: prod.splits)
qed

lemma request_inv:
  assumes inv: "store_inv s"
  shows "store_inv (snd (request err_of env type mk f s))"
    "tracksByPeerIdMid (s_streams (snd (request err_of env type mk f s))) = tracksByPeerIdMid (s_streams s)"
proof -
  let ?s1 = "snd (reducers env (mk Pending) s)"
  let ?w1 = "pw_streams (s_world ?s1)"
  let ?s2 = "?s1\<lparr>s_world := (s_world ?s1)\<lparr>pw_streams := snd (f ?w1)\<rparr>\<rparr>"
  let ?d = "\<lambda>(_, a) s. let (e, s) = reducers env (mk a) s in (map_option err_of e, s)"
  have s1: "store_inv ?s1" using store_inv_step [OF inv settled_ok] by blast
  then have s2: "store_inv ?s2" using store_inv_opens f_opens by blast
  have req: "request err_of env type mk f s = settled ?d type (fst (f ?w1)) ?s2"
    by (simp add: request_def answered_def split_beta Let_def)
  have ok: "store_ok ?s2 (mk (Resolved x))" if "fst (f ?w1) = Inr x" for x
  proof -
    have "l < nextStream (snd (f ?w1)) \<and> l \<notin> held (s_sw ?s2)"
      if "mk (Resolved x) = MediaStreamAction (Resolved (type, l))" for type l
    proof -
      have l: "nextStream ?w1 \<le> l" "l < nextStream (snd (f ?w1))"
        using fresh [OF that, of ?w1] \<open>fst (f ?w1) = Inr x\<close> by auto
      have "held (s_sw ?s2) = held (s_sw ?s1)" by (simp add: held_def)
      then show ?thesis using l held_less [of "s_streams ?s1" ?w1 l] s1 by (fastforce simp: store_inv_def)
    qed
    moreover have "action_ok sw (to_streams (mk (Resolved x)))" for sw :: "'q sw"
      using local [of "Resolved x"] by (cases "to_streams (mk (Resolved x))") simp_all
    ultimately show ?thesis using no_notification by (simp add: store_ok_def)
  qed
  have rej: "store_inv (snd (?d (type, Rejected e) t)) \<and>
      tracksByPeerIdMid (s_streams (snd (?d (type, Rejected e) t))) = tracksByPeerIdMid (s_streams t)" if "store_inv t" for t e
    using store_inv_step [OF that settled_ok] by (simp add: split_beta dispatch_same)
  have res: "store_inv (snd (?d (type, Resolved x) ?s2)) \<and>
      tracksByPeerIdMid (s_streams (snd (?d (type, Resolved x) ?s2))) = tracksByPeerIdMid (s_streams s)"
    if "fst (f ?w1) = Inr x" for x
    using store_inv_step [OF s2 ok [OF that]] by (simp add: split_beta dispatch_same)
  have "store_inv (snd (settled ?d type (fst (f ?w1)) ?s2)) \<and>
      tracksByPeerIdMid (s_streams (snd (settled ?d type (fst (f ?w1)) ?s2))) = tracksByPeerIdMid (s_streams s)"
  proof (cases "fst (f ?w1)")
    case (Inl e)
    then show ?thesis using rej [OF s2, of e] by (simp add: settled_def split_beta dispatch_same)
  next
    case (Inr x)
    then show ?thesis
      using res [OF Inr] rej [of "snd (?d (type, Resolved x) ?s2)"]
      by (cases "fst (?d (type, Resolved x) ?s2)") (auto simp: settled_def split_beta)
  qed
  then show "store_inv (snd (request err_of env type mk f s))"
    "tracksByPeerIdMid (s_streams (snd (request err_of env type mk f s))) = tracksByPeerIdMid (s_streams s)"
    by (simp_all add: req)
qed

end

interpretation camera: media_request MediaStreamAction "getMediaStream nav constraints" for nav constraints
  by unfold_locales (auto simp: stream_request_opens(1) dest: stream_request_opens(2))

interpretation desktop: media_request MediaStreamAction "getDesktopStream nav" for nav
  by unfold_locales (auto simp: stream_request_opens(3) dest: stream_request_opens(4))

interpretation switch: media_request MediaTrackAction "getMediaTrack nav params" for nav params
  by unfold_locales (simp_all add: getMediaTrack_opens)

interpretation devices: media_request MediaEnumerate "enumerateDevices nav" for nav
  by unfold_locales (simp_all add: enumerateDevices_opens)

section \<open>What requests guarantee\<close>

datatype media_query =
    OpenCamera media_constraints
  | OpenDesktop
  | SwitchDevice media_track_params
  | ListDevices

fun ask :: "(js_error \<Rightarrow> err_obj) \<Rightarrow> 'p store_env \<Rightarrow> media_navigator \<Rightarrow> 'p store \<Rightarrow> media_query \<Rightarrow> 'p store" where
  "ask err_of env nav s (OpenCamera cs) = snd (request err_of env ''MEDIA_STREAM'' MediaStreamAction (getMediaStream nav cs) s)"
| "ask err_of env nav s OpenDesktop = snd (request err_of env ''MEDIA_STREAM'' MediaStreamAction (getDesktopStream nav) s)"
| "ask err_of env nav s (SwitchDevice params) = snd (request err_of env ''MEDIA_TRACK'' MediaTrackAction (getMediaTrack nav params) s)"
| "ask err_of env nav s ListDevices = snd (request err_of env ''MEDIA_ENUMERATE'' MediaEnumerate (enumerateDevices nav) s)"

lemma ask_inv:
  assumes "store_inv s"
  shows "store_inv (ask err_of env nav s q)"
    and "tracksByPeerIdMid (s_streams (ask err_of env nav s q)) = tracksByPeerIdMid (s_streams s)"
  using assms
  by (cases q; simp add: camera.request_inv desktop.request_inv switch.request_inv devices.request_inv)+

lemma linked_contains:
  assumes "store_inv s" and "store_inv t" and "tracksByPeerIdMid (s_streams t) = tracksByPeerIdMid (s_streams s)"
  shows "contains (s_sw t) u sid tr = contains (s_sw s) u sid tr"
proof -
  have "linked (s_sw s)" "linked (s_sw t)" using assms(1,2) by (simp_all add: store_inv_def streams_inv_def)
  then show ?thesis using assms(3) by (simp add: linked_def associated_def)
qed

interpretation asking: machine "ask err_of env nav" "\<lambda>_ _. True"
  "\<lambda>t. store_inv t \<and> tracksByPeerIdMid (s_streams t) = tracksByPeerIdMid (s_streams s)" for err_of env nav s
  by unfold_locales (simp add: ask_inv)

text \<open>
  C20. Whatever the browser answers and whether or not reducers throw, a sequence of requests for
  cameras, screens and devices leaves the streams of the remote users as they are: each has the same
  tracks, and no local stream is the stream of a remote user.
\<close>

theorem requests_leave_remote_streams:
  assumes "store_inv s" and "t = run (ask err_of env nav) s qs"
  shows "(\<forall>u sid tr. contains (s_sw t) u sid tr \<longleftrightarrow> contains (s_sw s) u sid tr) \<and>
    (\<forall>u sid x type. at (s_sw t) u sid = Some x \<longrightarrow> map_of (pw_local (s_world t)) type \<noteq> Some (sw_stream x))"
proof -
  have "admissible (ask err_of env nav) (\<lambda>_ _. True) s qs" by (induction qs arbitrary: s) simp_all
  from asking.run_inv [OF _ this] assms
  have t: "store_inv t" "tracksByPeerIdMid (s_streams t) = tracksByPeerIdMid (s_streams s)" by blast+
  have "map_of (pw_local (s_world t)) type \<noteq> Some (sw_stream x)" if "at (s_sw t) u sid = Some x" for u sid x type
    using at_held [OF that] t(1) by (auto simp: store_inv_def local_apart_def)
  then show ?thesis using linked_contains [OF assms(1) t] by blast
qed

lemma enumerateDevices_stops:
  assumes "enumerateDevices nav w = (answer, w')"
  shows "nextStream w' = Suc (nextStream w)" "a < nextStream w \<Longrightarrow> heap w' a = heap w a"
    "stopped w' = stopped w @ heap w' (nextStream w)"
    "answer = (case mn_enumerateDevices nav of Inl e \<Rightarrow> Inl e | Inr ds \<Rightarrow>
       Inr (map (\<lambda>d. \<lparr>dv_id = di_deviceId d, dv_name = di_label d, dv_type = device_type_of (di_kind d)\<rparr>)
         (filter (\<lambda>d. di_kind d = ''audioinput'' \<or> di_kind d = ''videoinput'') ds)))"
proof -
  obtain s w1 where g: "getStream nav w = (s, w1)" by fastforce
  have "stopped w1 = stopped w"
    using g by (auto simp: getStream_def getUserMedia_def open_stream_def new_stream_def
        split: option.splits sum.splits prod.splits)
  then show "nextStream w' = Suc (nextStream w)" "a < nextStream w \<Longrightarrow> heap w' a = heap w a"
    "stopped w' = stopped w @ heap w' (nextStream w)"
    "answer = (case mn_enumerateDevices nav of Inl e \<Rightarrow> Inl e | Inr ds \<Rightarrow>
       Inr (map (\<lambda>d. \<lparr>dv_id = di_deviceId d, dv_name = di_label d, dv_type = device_type_of (di_kind d)\<rparr>)
         (filter (\<lambda>d. di_kind d = ''audioinput'' \<or> di_kind d = ''videoinput'') ds)))"
    using assms getStream_opens [OF g] by (auto simp: enumerateDevices_def g opens_def)
qed

lemma list_devices:
  assumes "enumerateDevices nav (pw_streams (s_world s)) = (answer, w')" and "s' = ask err_of env nav s ListDevices"
  shows "s_world s' = (s_world s)\<lparr>pw_streams := w'\<rparr>" "s_streams s' = s_streams s" "s_peers s' = s_peers s"
    "s_media s' = (case answer of
        Inl _ \<Rightarrow> (s_media s)\<lparr>loading := False, errorText := ''Could not retrieve media devices''\<rparr>
      | Inr ds \<Rightarrow> (s_media s)\<lparr>loading := False, devices := ds\<rparr>)"
  using assms
  by (simp_all add: request_def answered_def settled_def reducers_def peers_slice_def handleEnumerate_def Let_def split_beta
      split: sum.split)

text \<open>
  C28. Listing the devices, dispatches included, keeps no device open and shares nothing: the streams
  opened for the permission have all their tracks stopped, whether or not the devices were listed, and no
  other track is stopped. The local streams, the streams of the others, the tracks in older streams and what
  the peers were asked to do are what they were, and the form no longer waits. A refusal keeps the old list and
  shows an error; otherwise the store has the audio and video inputs in the order of the browser.
\<close>

theorem enumerate_releases_devices:
  assumes "s' = ask err_of env nav s ListDevices" and "w = pw_streams (s_world s)" and "w' = pw_streams (s_world s')"
  shows "s_streams s' = s_streams s \<and> s_peers s' = s_peers s \<and> pw_local (s_world s') = pw_local (s_world s) \<and>
    pw_calls (s_world s') = pw_calls (s_world s) \<and> \<not> loading (s_media s') \<and>
    (\<forall>a < nextStream w. heap w' a = heap w a) \<and>
    set (stopped w') = set (stopped w) \<union> (\<Union>a \<in> {nextStream w..<nextStream w'}. set (heap w' a)) \<and>
    (case mn_enumerateDevices nav of
       Inl _ \<Rightarrow> devices (s_media s') = devices (s_media s) \<and> errorText (s_media s') = ''Could not retrieve media devices''
     | Inr ds \<Rightarrow> errorText (s_media s') = errorText (s_media s) \<and>
         map dv_id (devices (s_media s')) = map di_deviceId (filter (\<lambda>d. di_kind d \<in> {''audioinput'', ''videoinput''}) ds))"
proof -
  obtain answer w1 where e: "enumerateDevices nav w = (answer, w1)" by fastforce
  note s' = list_devices [OF e [unfolded assms(2)] assms(1)]
  have w': "w' = w1" by (simp add: assms(3) s')
  note stops = enumerateDevices_stops [OF e]
  have "{nextStream w..<nextStream w'} = {nextStream w}" using stops(1) by (auto simp: w')
  then show ?thesis
    using stops(2-4) by (simp add: s' w' comp_def split: sum.split)
qed

section \<open>Runs that meet the hypotheses\<close>

definition toy_navigator :: media_navigator where
  "toy_navigator = \<lparr>mn_getUserMedia = Some (\<lambda>_ _. Inr [toy_track]), mn_legacy = None,
     mn_getDisplayMedia = (\<lambda>_. Inl getUserMediaFail), mn_enumerateDevices = Inl getUserMediaFail\<rparr>"

theorem requests_leave_remote_streams_witness:
  "contains (s_sw (run (ask (\<lambda>_. getUserMediaFail) toy_store_env toy_navigator)
       (snd (reducers toy_store_env (AddTrackAction toy_add) toy_store))
       [OpenDesktop, OpenCamera \<lparr>mc_audio = AudioOn True, mc_video = VideoOn True\<rparr>])) ''sfu'' ''s'' toy_track"
proof -
  let ?s = "snd (reducers toy_store_env (AddTrackAction toy_add) toy_store)"
  have sw: "s_sw ?s = addTrack toy_browser toy_add (defaultState, pw_streams toy_peer_world)"
    by (cases "addTrack toy_browser toy_add (defaultState, pw_streams toy_peer_world)")
      (simp add: reducers_def peers_slice_def toy_store_def initial_store_def toy_store_env_def)
  have "store_inv toy_store" unfolding toy_store_def by (rule store_inv_initial) (simp add: toy_peer_world_def)
  then have inv: "store_inv ?s"
    by (rule store_inv_step) (simp add: store_ok_def add_ok_def toy_store_def initial_store_def defaultState_def)
  have "associated (s_sw ?s) ''sfu'' ''s'' toy_track"
    unfolding sw by (simp add: associated_def info_addTrack toy_add_def target_def Streams.getUserId_def defaultState_def)
  then have "contains (s_sw ?s) ''sfu'' ''s'' toy_track"
    using inv by (simp add: store_inv_def streams_inv_def linked_def)
  with requests_leave_remote_streams [OF inv refl] show ?thesis by blast
qed

theorem enumerate_releases_devices_witness:
  "set (stopped (pw_streams (s_world (ask (\<lambda>_. getUserMediaFail) toy_store_env toy_navigator toy_store ListDevices)))) = {toy_track} \<and>
   localStreams (s_streams (ask (\<lambda>_. getUserMediaFail) toy_store_env toy_navigator toy_store ListDevices)) = []"
proof -
  let ?s = "ask (\<lambda>_. getUserMediaFail) toy_store_env toy_navigator toy_store ListDevices"
  have n: "nextStream (pw_streams (s_world ?s)) = 2" "heap (pw_streams (s_world ?s)) 1 = [toy_track]"
    unfolding list_devices [OF surjective_pairing refl]
    by (simp_all add: enumerateDevices_def getStream_def getUserMedia_def open_stream_def
        new_stream_def toy_navigator_def toy_store_defs)
  have i: "nextStream (pw_streams (s_world toy_store)) = 1" "stopped (pw_streams (s_world toy_store)) = []"
    "localStreams (s_streams toy_store) = []" by (simp_all add: toy_store_defs)
  have new: "{1..<2} = {1 :: nat}" by auto
  note released = enumerate_releases_devices [OF refl refl refl, of "\<lambda>_. getUserMediaFail" toy_store_env toy_navigator toy_store,
      unfolded n(1) i new]
  then have "set (stopped (pw_streams (s_world ?s))) = set (heap (pw_streams (s_world ?s)) 1)"
    "s_streams ?s = s_streams toy_store" by (simp_all del: ask.simps)
  then show ?thesis unfolding n(2) by (simp del: ask.simps add: i)
qed

end
