(* ===== verification/Html.thy ===== *)
theory Html
  imports Main
begin

text \<open>
  What the \<open>render\<close> methods of the components return: trees of React elements. An element has the name
  of a tag or of a component, its attributes and its children; \<open>null\<close> and \<open>false\<close> are no child. The
  arguments of \<open>classnames\<close> (a package) are kept as they are: the fixed class names and those that
  depend on a condition. Event handlers are values of a parameter type.
\<close>

datatype 'h attribute =
    Attr string string
  | Classes "string list" "(string \<times> bool) list"
  | Flag string bool
  | Count string nat
  | On string 'h

datatype 'h node =
    Element string "'h attribute list" "'h node list"
  | Content string

abbreviation elem :: "string \<Rightarrow> 'h attribute list \<Rightarrow> 'h node list \<Rightarrow> 'h node" where
  "elem \<equiv> Element"

definition shown_if :: "bool \<Rightarrow> 'h node \<Rightarrow> 'h node list" where
  "shown_if b n = (if b then [n] else [])"

text \<open>The handlers of a tree, in the order of the document.\<close>

fun attribute_handlers :: "'h attribute \<Rightarrow> (string \<times> 'h) list" where
  "attribute_handlers (On name h) = [(name, h)]"
| "attribute_handlers _ = []"

fun handlers_of :: "'h node \<Rightarrow> (string \<times> 'h) list" where
  "handlers_of (Element name attrs children) =
     concat (map attribute_handlers attrs) @ concat (map handlers_of children)"
| "handlers_of (Content t) = []"

definition offers :: "'h node list \<Rightarrow> 'h \<Rightarrow> bool" where
  "offers ns h \<longleftrightarrow> h \<in> snd ` set (concat (map handlers_of ns))"

text \<open>Queries of the document: all elements in order, the text of an attribute, the select with a name and the
  values of the options in it.\<close>

fun elements_of :: "'h node \<Rightarrow> 'h node list" where
  "elements_of (Element name attrs children) = Element name attrs children # concat (map elements_of children)"
| "elements_of (Content t) = []"

fun tag_of :: "'h node \<Rightarrow> string" where
  "tag_of (Element name attrs children) = name"
| "tag_of (Content t) = ''''"

fun attributes_of :: "'h node \<Rightarrow> (string \<times> string) list" where
  "attributes_of (Element name attrs children) = concat (map (\<lambda>a. case a of Attr n v \<Rightarrow> [(n, v)] | _ \<Rightarrow> []) attrs)"
| "attributes_of (Content t) = []"

definition is_select :: "string \<Rightarrow> 'h node \<Rightarrow> bool" where
  "is_select name n \<longleftrightarrow> tag_of n = ''select'' \<and> map_of (attributes_of n) ''name'' = Some name"

definition select_named :: "string \<Rightarrow> 'h node list \<Rightarrow> 'h node option" where
  "select_named name ns = List.find (is_select name) (concat (map elements_of ns))"

definition select_value :: "string \<Rightarrow> 'h node list \<Rightarrow> string option" where
  "select_value name ns = Option.bind (select_named name ns) (\<lambda>n. map_of (attributes_of n) ''value'')"

definition option_values :: "string \<Rightarrow> 'h node list \<Rightarrow> string list" where
  "option_values name ns = (case select_named name ns of
      None \<Rightarrow> []
    | Some n \<Rightarrow> List.map_filter (\<lambda>m. if tag_of m = ''option'' then map_of (attributes_of m) ''value'' else None) (elements_of n))"

lemma shown_if_simps [simp]: "shown_if True n = [n]" "shown_if False n = []"
  by (simp_all add: shown_if_def)

end
