(* ===== verification/Videos.thy ===== *)
theory Videos
  imports Store Html
begin

text \<open>
  The components that show what the store holds: the videos (\<open>components/Videos.tsx\<close>,
  \<open>components/Video.tsx\<close>), the notifications (\<open>components/Notifications.tsx\<close>) and the chat
  (\<open>components/Chat.tsx\<close>). The element of a video is a record of the properties the code sets.
\<close>

section \<open>The list of videos\<close>

record stream_props =
  sp_key :: string
  sp_stream :: "stream_with_url option"
  sp_userId :: string
  sp_muted :: "bool option"
  sp_localUser :: bool
  sp_mirrored :: "bool option"
  sp_minimized :: bool

datatype shown_stream = RemoteStream stream_with_url | LocalStream local_stream

fun with_url :: "shown_stream \<Rightarrow> stream_with_url" where
  "with_url (RemoteStream s) = s"
| "with_url (LocalStream l) = stream_with_url.truncate l"

text \<open>\<open>isLocalStream(stream) && stream.type === StreamTypeCamera && stream.mirror\<close>\<close>

fun mirrored_camera :: "shown_stream \<Rightarrow> bool" where
  "mirrored_camera (RemoteStream s) = False"
| "mirrored_camera (LocalStream l) = (ls_type l = Camera \<and> ls_mirror l)"

definition addStreamProps ::
  "stream_props \<Rightarrow> stream_props list \<times> stream_props list \<Rightarrow> stream_props list \<times> stream_props list"
where
  "addStreamProps props = (\<lambda>(minimized, maximized).
     if sp_minimized props then (minimized @ [props], maximized) else (minimized, maximized @ [props]))"

definition no_stream_props :: "window_states \<Rightarrow> bool \<Rightarrow> string \<Rightarrow> stream_props" where
  "no_stream_props ws localUser userId =
    (let key = getStreamKey userId None
     in \<lparr>sp_key = key, sp_stream = None, sp_userId = userId, sp_muted = None, sp_localUser = localUser,
         sp_mirrored = None, sp_minimized = (oget ws key \<noteq> None)\<rparr>)"

definition stream_props_of :: "window_states \<Rightarrow> bool \<Rightarrow> string \<Rightarrow> shown_stream \<Rightarrow> stream_props" where
  "stream_props_of ws localUser userId stream =
    (let key = getStreamKey userId (Some (sw_streamId (with_url stream)))
     in \<lparr>sp_key = key, sp_stream = Some (with_url stream), sp_userId = userId, sp_muted = Some localUser,
         sp_localUser = localUser, sp_mirrored = Some (localUser \<and> mirrored_camera stream),
         sp_minimized = (oget ws key \<noteq> None)\<rparr>)"

definition addStreamsByUser ::
  "window_states \<Rightarrow> bool \<Rightarrow> string \<Rightarrow> shown_stream list \<Rightarrow>
     stream_props list \<times> stream_props list \<Rightarrow> stream_props list \<times> stream_props list"
where
  "addStreamsByUser ws localUser userId ss acc =
    (if ss = [] then addStreamProps (no_stream_props ws localUser userId) acc
     else fold (\<lambda>stream. addStreamProps (stream_props_of ws localUser userId stream)) ss acc)"

definition streams_of_user :: "streams_state \<Rightarrow> string \<Rightarrow> shown_stream list" where
  "streams_of_user st userId = (case oget (streamsByUserId st) userId of
      None \<Rightarrow> []
    | Some s \<Rightarrow> map RemoteStream (us_streams s))"

definition getStreams ::
  "window_states \<Rightarrow> nicknames \<Rightarrow> streams_state \<Rightarrow> stream_props list \<times> stream_props list"
where
  "getStreams ws nks st =
    fold (\<lambda>(userId, _) acc. if userId \<noteq> ME then addStreamsByUser ws False userId (streams_of_user st userId) acc else acc)
      nks
      (addStreamsByUser ws True ME (map (\<lambda>(_, s). LocalStream s) (localStreams st)) ([], []))"

record video_props = stream_props +
  vp_nickname :: string

definition video_of :: "nicknames \<Rightarrow> stream_props \<Rightarrow> video_props" where
  "video_of nks p = stream_props.extend p \<lparr>vp_nickname = getNickname nks (sp_userId p)\<rparr>"

text \<open>The videos of the toolbar and those of the grid.\<close>

definition render_videos ::
  "window_states \<Rightarrow> nicknames \<Rightarrow> streams_state \<Rightarrow> video_props list \<times> video_props list"
where
  "render_videos ws nks st =
    (let (minimized, maximized) = getStreams ws nks st
     in (map (video_of nks) minimized, map (video_of nks) maximized))"

section \<open>One video\<close>

record video_element =
  ve_hasSrcObject :: bool
  ve_srcObject :: "nat option"
  ve_src :: string
  ve_muted :: bool
  ve_objectFit :: string

text \<open>\<open>muted\<close> and \<open>mirrored\<close> have the default \<open>false\<close>.\<close>

definition setVideoMetaData :: "'a stream_props_scheme \<Rightarrow> video_element \<Rightarrow> video_element" where
  "setVideoMetaData props v =
    (let mediaStream = map_option sw_stream (sp_stream props);
         url = Option.bind (sp_stream props) sw_url;
         v = (if ve_hasSrcObject v
                  then (if ve_srcObject v \<noteq> mediaStream then v\<lparr>ve_srcObject := mediaStream\<rparr> else v)
                  else (if Some (ve_src v) \<noteq> url
                        then v\<lparr>ve_src := (case url of None \<Rightarrow> '''' | Some u \<Rightarrow> u)\<rparr> else v))
     in v\<lparr>ve_muted := (sp_muted props = Some True)\<rparr>)"

text \<open>Whether a click or loaded metadata play the videos.\<close>

definition video_play :: "'a stream_props_scheme \<Rightarrow> bool" where
  "video_play props \<longleftrightarrow> sp_stream props \<noteq> None"

definition handleMinimize :: "'a stream_props_scheme \<Rightarrow> action" where
  "handleMinimize props = MinimizeToggle (sp_userId props) (map_option sw_streamId (sp_stream props))"

definition handleToggleCover :: "video_element \<Rightarrow> video_element" where
  "handleToggleCover v = v\<lparr>ve_objectFit := (if ve_objectFit v \<noteq> '''' then '''' else ''contain'')\<rparr>"

datatype video_handler = HandlePlay | HandleMinimizeClick | HandleToggleCover

definition render_video :: "video_props \<Rightarrow> video_handler node" where
  "render_video props =
    (let minimized = sp_minimized props in
     elem ''div'' [Classes [''video-container''] [(''minimized'', minimized), (''mirrored'', sp_mirrored props = Some True)]]
       [elem ''video'' [Attr ''id'' (''video-'' @ sp_userId props), Flag ''playsInline'' True, On ''click'' HandlePlay,
          On ''loadedMetadata'' HandlePlay] [],
        elem ''div'' [Attr ''className'' ''video-footer'']
          [elem ''span'' [Attr ''className'' ''nickname''] [Content (vp_nickname props)],
           elem ''Dropdown'' []
             [elem ''li'' [Attr ''className'' ''action-minimize'', On ''click'' HandleMinimizeClick]
                [elem (if minimized then ''MdZoomIn'' else ''MdZoomOut'') [] [],
                 Content (if minimized then ''Maximize'' else ''Minimize'')],
              elem ''li'' [Attr ''className'' ''action-toggle-fit'', On ''click'' HandleToggleCover]
                [elem ''MdCrop'' [] [], Content ''Toggle Fit'']]]])"

section \<open>Notifications\<close>

text \<open>\<open>slice(-n)\<close>: the last \<open>n\<close> elements, and all of them for \<open>n = 0\<close>.\<close>

definition slice_end :: "nat \<Rightarrow> 'a list \<Rightarrow> 'a list" where
  "slice_end n xs = (if n = 0 then xs else drop (length xs - n) xs)"

definition max_notifications :: nat where
  "max_notifications = 20"

definition shown_notifications :: "nat \<Rightarrow> notification_state \<Rightarrow> notification list" where
  "shown_notifications n ns = List.map_filter (oget ns) (rev (slice_end n (okeys ns)))"

fun notify_class :: "notify_type \<Rightarrow> string" where
  "notify_class Info = ''info''"
| "notify_class Warning = ''warning''"
| "notify_class NotifyError = ''error''"

definition render_notification :: "notification \<Rightarrow> 'h node" where
  "render_notification n = elem ''div'' [Classes [notify_class (nt_type n), ''notification''] []] [Content (nt_message n)]"

definition render_notifications :: "string list \<Rightarrow> notification_state \<Rightarrow> 'h node" where
  "render_notifications className ns =
     elem ''div'' [Classes (''notifications'' # className) [], Count ''tabIndex'' 0]
       (map render_notification (shown_notifications max_notifications ns))"

section \<open>The chat\<close>

datatype chat_handler = OnClose | Download string string

definition render_entry :: "message \<Rightarrow> chat_handler node" where
  "render_entry m =
     elem ''p'' [Attr ''className'' ''message-text'']
       ((if ms_image m then [elem ''img'' (case ms_data m of None \<Rightarrow> [] | Some d \<Rightarrow> [Attr ''src'' d]) []] else []) @
        (case ms_data m of
           None \<Rightarrow> [Content (ms_message m)]
         | Some d \<Rightarrow> if d = '''' then [Content d, Content (ms_message m)]
             else [elem ''button'' [Attr ''className'' ''message-download'', On ''click'' (Download d (ms_message m))]
                     [elem ''span'' [] [Content (ms_message m)], elem ''MdFileDownload'' [] []]]))"

definition render_message :: "nicknames \<Rightarrow> message \<Rightarrow> chat_handler node" where
  "render_message nks m =
    (let face = elem ''span'' [Attr ''className'' ''chat-item-img''] [elem ''MdFace'' [] []];
         body = elem ''div'' [Attr ''className'' ''message'']
           [elem ''span'' [Attr ''className'' ''message-user-name''] [Content (getNickname nks (ms_userId m))],
            elem ''time'' [Attr ''className'' ''message-time''] [Content (ms_timestamp m)],
            render_entry m]
     in elem ''div'' []
          [if ms_userId m = ME
           then elem ''div'' [Attr ''className'' ''chat-item chat-item-me''] [body, face]
           else elem ''div'' [Attr ''className'' ''chat-item chat-item-other''] [face, body]])"

definition render_chat :: "bool \<Rightarrow> nicknames \<Rightarrow> message list \<Rightarrow> chat_handler node" where
  "render_chat visible nks ms =
     elem ''div'' [Classes [''chat-container''] [(''show'', visible)]]
       [elem ''div'' [Attr ''className'' ''chat-header'']
          [elem ''div'' [Attr ''className'' ''chat-close'', On ''click'' OnClose] [elem ''MdClose'' [] []],
           elem ''div'' [Attr ''className'' ''chat-title''] [Content ''Chat'']],
        elem ''div'' [Attr ''className'' ''chat-history'']
          (if ms \<noteq> [] then map (render_message nks) ms
           else [elem ''div'' [Attr ''className'' ''chat-empty'']
                   [elem ''span'' [Attr ''className'' ''chat-empty-icon''] [elem ''MdQuestionAnswer'' [] []],
                    elem ''div'' [Attr ''className'' ''chat-empty-message''] [Content ''No Notifications'']]]),
        elem ''Input'' [] []]"

section \<open>Every stream of a named user is shown once\<close>

text \<open>The tiles, in the order of the code, without the two accumulators.\<close>

definition user_tiles :: "window_states \<Rightarrow> bool \<Rightarrow> string \<Rightarrow> shown_stream list \<Rightarrow> stream_props list" where
  "user_tiles ws localUser userId ss =
    (if ss = [] then [no_stream_props ws localUser userId] else map (stream_props_of ws localUser userId) ss)"

definition tiles :: "window_states \<Rightarrow> nicknames \<Rightarrow> streams_state \<Rightarrow> stream_props list" where
  "tiles ws nks st =
     user_tiles ws True ME (map (\<lambda>(_, s). LocalStream s) (localStreams st)) @
     concat (map (\<lambda>u. user_tiles ws False u (streams_of_user st u)) (filter (\<lambda>u. u \<noteq> ME) (okeys nks)))"

abbreviation split_tiles :: "stream_props list \<Rightarrow> stream_props list \<times> stream_props list" where
  "split_tiles ts \<equiv> (filter sp_minimized ts, filter (\<lambda>p. \<not> sp_minimized p) ts)"

lemma addStreamProps_split: "addStreamProps p (split_tiles ts) = split_tiles (ts @ [p])"
  by (simp add: addStreamProps_def)

lemma add_all_split:
  "fold (\<lambda>x. addStreamProps (f x)) xs (split_tiles ts) = split_tiles (ts @ map f xs)"
proof (induction xs arbitrary: ts)
  case (Cons x xs)
  show ?case using Cons.IH [of "ts @ [f x]"] by (simp add: addStreamProps_split del: filter_append)
qed simp

lemma addStreamsByUser_split:
  "addStreamsByUser ws localUser u ss (split_tiles ts) = split_tiles (ts @ user_tiles ws localUser u ss)"
  using add_all_split [of "stream_props_of ws localUser u" ss ts]
  by (simp add: addStreamsByUser_def user_tiles_def addStreamProps_split del: filter_append)

lemma users_split:
  "fold (\<lambda>(u, _) acc. if u \<noteq> ME then addStreamsByUser ws False u (streams_of_user st u) acc else acc) nks (split_tiles ts) =
     split_tiles (ts @ concat (map (\<lambda>u. user_tiles ws False u (streams_of_user st u)) (filter (\<lambda>u. u \<noteq> ME) (okeys nks))))"
proof (induction nks arbitrary: ts)
  case (Cons x nks)
  obtain u v where x: "x = (u, v)" by fastforce
  show ?case
    using Cons.IH [of "ts @ user_tiles ws False u (streams_of_user st u)"] Cons.IH [of ts]
    by (simp add: x addStreamsByUser_split del: filter_append)
qed simp

text \<open>
  C25. The two lists of videos the component builds by pushing are the minimised and the other ones
  of the list of all tiles, in its order: one tile per stream of the local user and of every other
  user that has a nickname, and one tile without a stream for a user that has none.
\<close>

theorem getStreams_partition:
  "getStreams ws nks st = (filter sp_minimized (tiles ws nks st), filter (\<lambda>p. \<not> sp_minimized p) (tiles ws nks st))"
proof -
  have "addStreamsByUser ws True ME ss ([], []) = split_tiles (user_tiles ws True ME ss)" for ss
    using addStreamsByUser_split [of ws True ME ss "[]"] by simp
  then show ?thesis
    unfolding getStreams_def tiles_def by (simp only: users_split)
qed

section \<open>Minimising a video\<close>

abbreviation tiles_of :: "'p store \<Rightarrow> stream_props list" where
  "tiles_of s \<equiv> tiles (s_windowStates s) (s_nicknames s) (s_streams s)"

lemma tile_key:
  "p \<in> set (tiles ws nks st) \<Longrightarrow> sp_key p = getStreamKey (sp_userId p) (map_option sw_streamId (sp_stream p))"
  by (auto simp: tiles_def user_tiles_def no_stream_props_def stream_props_of_def Let_def split: if_splits)

lemma minimizeToggle_lookup:
  "oget (minimizeToggle ws u sid) k = (if k = getStreamKey u sid then (if oget ws k = None then Some () else None) else oget ws k)"
  by (simp add: minimizeToggle_def unminimize_def minimize_def Let_def)

definition toggle_tile :: "string \<Rightarrow> stream_props \<Rightarrow> stream_props" where
  "toggle_tile key q = (if sp_key q = key then q\<lparr>sp_minimized := \<not> sp_minimized q\<rparr> else q)"

lemma tiles_toggle: "tiles (minimizeToggle ws u sid) nks st = map (toggle_tile (getStreamKey u sid)) (tiles ws nks st)"
proof -
  have "no_stream_props (minimizeToggle ws u sid) b v = toggle_tile (getStreamKey u sid) (no_stream_props ws b v)"
    "stream_props_of (minimizeToggle ws u sid) b v x = toggle_tile (getStreamKey u sid) (stream_props_of ws b v x)" for b v x
    by (simp_all add: no_stream_props_def stream_props_of_def toggle_tile_def minimizeToggle_lookup Let_def)
  then have "user_tiles (minimizeToggle ws u sid) b v ss = map (toggle_tile (getStreamKey u sid)) (user_tiles ws b v ss)" for b v ss
    by (simp add: user_tiles_def comp_def)
  then show ?thesis by (simp add: tiles_def map_concat comp_def)
qed

text \<open>
  Pressing Minimize or Maximize in the menu of a video moves exactly the tiles with its key from
  the grid to the toolbar or back; every tile keeps its place and its stream, and nothing else of the
  store changes.
\<close>

lemma minimize_moves_tile:
  assumes "p \<in> set (tiles_of s)"
  shows "\<exists>s'. reducers env (handleMinimize p) s = (None, s') \<and>
    tiles_of s' = map (\<lambda>q. if sp_key q = sp_key p then q\<lparr>sp_minimized := \<not> sp_minimized q\<rparr> else q) (tiles_of s) \<and>
    s' = s\<lparr>s_windowStates := s_windowStates s'\<rparr>"
proof -
  let ?ws = "minimizeToggle (s_windowStates s) (sp_userId p) (map_option sw_streamId (sp_stream p))"
  have "reducers env (handleMinimize p) s = (None, s\<lparr>s_windowStates := ?ws\<rparr>)"
    by (simp add: handleMinimize_def reducers_def peers_slice_def windowStates_def)
  then show ?thesis
    using tile_key [OF assms] by (simp add: tiles_toggle toggle_tile_def)
qed

section \<open>The newest notification\<close>

lemma lookup_entries:
  assumes "wf_obj ob" and "set es \<subseteq> set ob"
  shows "List.map_filter (oget ob) (map fst es) = map snd es"
  using assms(2)
proof (induction es)
  case (Cons e es)
  then have "oget ob (fst e) = Some (snd e)" using oget_Some_iff [OF assms(1)] by (cases e) simp
  then show ?case using Cons by (simp add: List.map_filter_simps)
qed (simp add: List.map_filter_simps)

lemma shown_entries:
  assumes "wf_obj ns" and "0 < n"
  shows "shown_notifications n ns = take n (rev (map snd ns))"
proof -
  have "set (rev (drop (length ns - n) ns)) \<subseteq> set ns" using set_drop_subset [of _ ns] by auto
  from lookup_entries [OF assms(1) this]
  have "List.map_filter (oget ns) (rev (drop (length ns - n) (map fst ns))) = rev (drop (length ns - n) (map snd ns))"
    by (simp add: drop_map rev_map)
  then show ?thesis using assms(2) by (simp add: shown_notifications_def slice_end_def take_rev)
qed

text \<open>
  A notification that is shown stands above all others, and with it the newest of those there
  were, twenty at most, newest first.
\<close>

lemma newest_notification_first:
  assumes "store_inv s" and "wf_obj (s_notifications s)"
  shows "shown_notifications max_notifications (s_notifications (snd (dispatch_notify env type args s))) =
    take 20 (fst (notify type args (s_counter s)) # rev (map snd (s_notifications s)))"
proof -
  let ?n = "fst (notify type args (s_counter s))"
  have fresh: "nt_id ?n \<notin> set (okeys (s_notifications s))"
    using fresh_id [of "s_notifications s" "s_counter s"] assms(1)
    by (simp add: store_inv_def notify_def Let_def del: dec_nat.simps)
  have "s_notifications (snd (dispatch_notify env type args s)) = oset (nt_id ?n) ?n (s_notifications s)"
    by (simp add: dispatch_notify_def reducers_def peers_slice_def notify_def Let_def del: dec_nat.simps)
  also have "\<dots> = s_notifications s @ [(nt_id ?n, ?n)]" by (rule oset_fresh [OF fresh])
  finally have ns: "s_notifications (snd (dispatch_notify env type args s)) = s_notifications s @ [(nt_id ?n, ?n)]" .
  have "wf_obj (s_notifications s @ [(nt_id ?n, ?n)])" using assms(2) fresh by (simp add: wf_obj_def)
  from shown_entries [OF this, of max_notifications] show ?thesis by (simp add: ns max_notifications_def)
qed

section \<open>Runs that meet the hypotheses\<close>

end
