(* ===== verification/Json.thy ===== *)
theory Json
  imports Main
begin

text \<open>
  \<open>JSON.parse\<close> and \<open>JSON.stringify\<close> of the standard library, as far as the form and the menus of
  devices use them: values, the text of a value, and a recursive-descent parser of the grammar of JSON
  texts. Characters have eight bits, so an escape beyond them is refused; a number is kept as it is
  written.
\<close>

datatype json =
    JNull
  | JBool bool
  | JNumber string
  | JString string
  | JArray "json list"
  | JObject "(string \<times> json) list"

section \<open>Texts\<close>

definition hex_digit :: "nat \<Rightarrow> char" where
  "hex_digit n = ''0123456789abcdef'' ! n"

definition json_char :: "char \<Rightarrow> string" where
  "json_char c =
    (if c = CHR 0x22 then [CHR 0x5C, CHR 0x22]
     else if c = CHR 0x5C then [CHR 0x5C, CHR 0x5C]
     else if c = CHR 0x08 then [CHR 0x5C, CHR ''b'']
     else if c = CHR 0x0C then [CHR 0x5C, CHR ''f'']
     else if c = CHR 0x0A then [CHR 0x5C, CHR ''n'']
     else if c = CHR 0x0D then [CHR 0x5C, CHR ''r'']
     else if c = CHR 0x09 then [CHR 0x5C, CHR ''t'']
     else if of_char c < (32 :: nat)
       then [CHR 0x5C, CHR ''u'', CHR ''0'', CHR ''0'', hex_digit (of_char c div 16), hex_digit (of_char c mod 16)]
     else [c])"

definition json_string :: "string \<Rightarrow> string" where
  "json_string s = CHR 0x22 # concat (map json_char s) @ [CHR 0x22]"

fun commas :: "string list \<Rightarrow> string" where
  "commas [] = ''''"
| "commas [x] = x"
| "commas (x # xs) = x @ '','' @ commas xs"

fun stringify :: "json \<Rightarrow> string" where
  "stringify JNull = ''null''"
| "stringify (JBool b) = (if b then ''true'' else ''false'')"
| "stringify (JNumber t) = t"
| "stringify (JString s) = json_string s"
| "stringify (JArray vs) = ''['' @ commas (map stringify vs) @ '']''"
| "stringify (JObject ms) = ''{'' @ commas (map (\<lambda>(k, v). json_string k @ '':'' @ stringify v) ms) @ ''}''"

section \<open>Parser\<close>

text \<open>A parser returns what it read and the rest of the text.\<close>

definition skip_space :: "string \<Rightarrow> string" where
  "skip_space s = dropWhile (\<lambda>c. c \<in> {CHR '' '', CHR 0x09, CHR 0x0A, CHR 0x0D}) s"

definition hex_value :: "char \<Rightarrow> nat option" where
  "hex_value c = (let n = of_char c in
     if 48 \<le> n \<and> n \<le> 57 then Some (n - 48) else if 97 \<le> n \<and> n \<le> 102 then Some (n - 87)
     else if 65 \<le> n \<and> n \<le> 70 then Some (n - 55) else None)"

fun hex_code :: "string \<Rightarrow> nat option" where
  "hex_code [] = Some 0"
| "hex_code (c # cs) = (case (hex_code cs, hex_value c) of (Some n, Some d) \<Rightarrow> Some (d * 16 ^ length cs + n) | _ \<Rightarrow> None)"

definition unescape :: "char \<Rightarrow> char option" where
  "unescape e = map_of [(CHR 0x22, CHR 0x22), (CHR 0x5C, CHR 0x5C), (CHR ''/'', CHR ''/''), (CHR ''b'', CHR 0x08),
     (CHR ''f'', CHR 0x0C), (CHR ''n'', CHR 0x0A), (CHR ''r'', CHR 0x0D), (CHR ''t'', CHR 0x09)] e"

definition prepend :: "'a \<Rightarrow> ('a list \<times> 'b) option \<Rightarrow> ('a list \<times> 'b) option" where
  "prepend x r = map_option (\<lambda>(xs, b). (x # xs, b)) r"

text \<open>The rest of a string after its opening quote.\<close>

fun read_chars :: "string \<Rightarrow> (string \<times> string) option" where
  "read_chars [] = None"
| "read_chars (c # cs) =
    (if c = CHR 0x22 then Some ([], cs)
     else if c = CHR 0x5C then
       (case cs of
          [] \<Rightarrow> None
        | e # rest \<Rightarrow>
            if e = CHR ''u'' then
              (case rest of
                 h3 # h2 # h1 # h0 # rest' \<Rightarrow>
                   (case hex_code [h3, h2, h1, h0] of
                      Some n \<Rightarrow> if n < 256 then prepend (char_of n) (read_chars rest') else None
                    | None \<Rightarrow> None)
               | _ \<Rightarrow> None)
            else (case unescape e of Some x \<Rightarrow> prepend x (read_chars rest) | None \<Rightarrow> None))
     else if of_char c < (32 :: nat) then None
     else prepend c (read_chars cs))"

definition digit :: "char \<Rightarrow> bool" where
  "digit c \<longleftrightarrow> (let n = of_char c in 48 \<le> n \<and> n \<le> (57 :: nat))"

definition read_digits :: "string \<Rightarrow> (string \<times> string) option" where
  "read_digits s = (if takeWhile digit s = [] then None else Some (takeWhile digit s, dropWhile digit s))"

text \<open>A part of a number that may be missing: \<open>starts\<close> are the characters it starts with.\<close>

definition read_part :: "string \<Rightarrow> string \<Rightarrow> string \<Rightarrow> (string \<times> string) option" where
  "read_part starts signs s = (case s of
      [] \<Rightarrow> Some ([], s)
    | c # cs \<Rightarrow>
        if c \<notin> set starts then Some ([], s)
        else (case cs of
            d # ds \<Rightarrow> if d \<in> set signs then prepend c (prepend d (read_digits ds)) else prepend c (read_digits cs)
          | [] \<Rightarrow> None))"

definition read_number :: "string \<Rightarrow> (string \<times> string) option" where
  "read_number s =
    (let (sign, s) = (case s of c # cs \<Rightarrow> if c = CHR ''-'' then ([c], cs) else ([], s) | [] \<Rightarrow> ([], s))
     in case read_digits s of
          None \<Rightarrow> None
        | Some (whole, s) \<Rightarrow>
            if hd whole = CHR ''0'' \<and> tl whole \<noteq> [] then None
            else (case read_part ''.'' '''' s of
                None \<Rightarrow> None
              | Some (frac, s) \<Rightarrow> (case read_part ''eE'' ''+-'' s of
                  None \<Rightarrow> None
                | Some (expo, s) \<Rightarrow> Some (sign @ whole @ frac @ expo, s))))"

definition word_or_number :: "string \<Rightarrow> (json \<times> string) option" where
  "word_or_number s =
    (if take 4 s = ''true'' then Some (JBool True, drop 4 s)
     else if take 5 s = ''false'' then Some (JBool False, drop 5 s)
     else if take 4 s = ''null'' then Some (JNull, drop 4 s)
     else map_option (\<lambda>(t, r). (JNumber t, r)) (read_number s))"

lemma skip_space_le: "length (skip_space s) \<le> length s"
  by (simp add: skip_space_def length_dropWhile_le)

lemma skip_space_less: "skip_space s = c # cs \<Longrightarrow> length cs < length s"
  using skip_space_le [of s] by simp

text \<open>Values, the members of an object and the elements of an array. That the rest of the text is shorter is checked before a
  loop goes on; \<open>parse_shorter\<close> shows that it always is.\<close>

function (sequential) parse_value :: "string \<Rightarrow> (json \<times> string) option"
  and parse_members :: "string \<Rightarrow> ((string \<times> json) list \<times> string) option"
  and parse_elements :: "string \<Rightarrow> (json list \<times> string) option"
where
  "parse_value s = (case skip_space s of
      [] \<Rightarrow> None
    | c # cs \<Rightarrow>
        if c = CHR 0x22 then map_option (\<lambda>(t, r). (JString t, r)) (read_chars cs)
        else if c = CHR ''{'' then
          (if take 1 (skip_space cs) = ''}'' then Some (JObject [], drop 1 (skip_space cs))
           else map_option (\<lambda>(ms, r). (JObject ms, r)) (parse_members cs))
        else if c = CHR ''['' then
          (if take 1 (skip_space cs) = '']'' then Some (JArray [], drop 1 (skip_space cs))
           else map_option (\<lambda>(vs, r). (JArray vs, r)) (parse_elements cs))
        else word_or_number (c # cs))"
| "parse_members s = (case skip_space s of
      [] \<Rightarrow> None
    | q # cs \<Rightarrow>
        if q \<noteq> CHR 0x22 then None
        else (case read_chars cs of
            None \<Rightarrow> None
          | Some (k, r) \<Rightarrow>
              if take 1 (skip_space r) \<noteq> '':'' \<or> \<not> length (drop 1 (skip_space r)) < length s then None
              else (case parse_value (drop 1 (skip_space r)) of
                  None \<Rightarrow> None
                | Some (v, r) \<Rightarrow> (case skip_space r of
                    [] \<Rightarrow> None
                  | c # r \<Rightarrow>
                      if c = CHR ''}'' then Some ([(k, v)], r)
                      else if c = CHR '','' \<and> length r < length s then prepend (k, v) (parse_members r)
                      else None))))"
| "parse_elements s = (case parse_value s of
      None \<Rightarrow> None
    | Some (v, r) \<Rightarrow> (case skip_space r of
        [] \<Rightarrow> None
      | c # r \<Rightarrow>
          if c = CHR '']'' then Some ([v], r)
          else if c = CHR '','' \<and> length r < length s then prepend v (parse_elements r)
          else None))"
  by pat_completeness auto

termination
  by (relation "measure (case_sum (\<lambda>s. 2 * length s) (case_sum (\<lambda>s. 2 * length s) (\<lambda>s. 2 * length s + 1)))")
    (auto dest: skip_space_less)

declare parse_value.simps [simp del] parse_members.simps [simp del] parse_elements.simps [simp del]

definition parse_json :: "string \<Rightarrow> json option" where
  "parse_json s = (case parse_value s of
      Some (v, r) \<Rightarrow> if skip_space r = '''' then Some v else None
    | None \<Rightarrow> None)"

section \<open>The rest is shorter\<close>

lemma prepend_Some: "prepend x p = Some (ys, r) \<longleftrightarrow> (\<exists>xs. p = Some (xs, r) \<and> ys = x # xs)"
  by (cases p) (auto simp: prepend_def)

lemma read_chars_shorter: "read_chars s = Some (t, r) \<Longrightarrow> length r < length s"
  by (induction s arbitrary: t rule: read_chars.induct)
    (auto simp: prepend_Some less_Suc_eq split: if_splits list.splits option.splits)

lemma read_digits_shorter: "read_digits s = Some (t, r) \<Longrightarrow> length r < length s"
  by (cases s) (auto simp: read_digits_def less_Suc_eq_le length_dropWhile_le split: if_splits)

lemma read_part_shorter: "read_part starts signs s = Some (t, r) \<Longrightarrow> length r \<le> length s"
  by (auto simp: read_part_def prepend_Some split: list.splits if_splits dest!: read_digits_shorter)

lemma read_number_shorter: "read_number s = Some (t, r) \<Longrightarrow> length r < length s"
  by (fastforce simp: read_number_def split: option.splits prod.splits if_splits list.splits
      dest: read_digits_shorter read_part_shorter)

lemma word_or_number_shorter: "word_or_number (c # cs) = Some (v, r) \<Longrightarrow> length r < length (c # cs)"
  by (auto simp: word_or_number_def split: if_splits dest!: read_number_shorter)

lemma parse_shorter:
  "parse_value s = Some (v, r) \<Longrightarrow> length r < length s"
  "parse_members s = Some (ms, r) \<Longrightarrow> length r < length s"
  "parse_elements s = Some (vs, r) \<Longrightarrow> length r < length s"
proof (induction s and s and s arbitrary: v r and ms r and vs r
    rule: parse_value_parse_members_parse_elements.induct)
  case (1 s)
  then obtain c cs where c: "skip_space s = c # cs" by (auto simp: parse_value.simps [of s] split: list.splits)
  have n: "length (c # cs) \<le> length s" "length (drop 1 (skip_space cs)) < length (c # cs)"
    using skip_space_le [of s] skip_space_le [of cs] by (simp_all add: c less_Suc_eq_le)
  consider (chars) t where "read_chars cs = Some (t, r)" | (closed) "r = drop 1 (skip_space cs)"
    | (members) ms where "parse_members cs = Some (ms, r)" "\<And>ms r. parse_members cs = Some (ms, r) \<Longrightarrow> length r < length cs"
    | (elements) vs where "parse_elements cs = Some (vs, r)" "\<And>vs r. parse_elements cs = Some (vs, r) \<Longrightarrow> length r < length cs"
    | (word) "word_or_number (c # cs) = Some (v, r)"
    using 1 by (auto simp: parse_value.simps [of s] c split: if_splits)
  then have "length r < length (c # cs)"
    by cases (use n(2) in \<open>auto dest: read_chars_shorter word_or_number_shorter simp: less_Suc_eq\<close>)
  then show ?case using n(1) by simp
next
  case (2 s)
  then show ?case
    by (fastforce simp: parse_members.simps [of s] prepend_Some split: list.splits if_splits option.splits prod.splits
        dest: skip_space_less)
next
  case (3 s)
  then show ?case
    by (fastforce simp: parse_elements.simps [of s] prepend_Some split: list.splits if_splits option.splits prod.splits
        dest: skip_space_less)
qed

section \<open>Parsing a text gives the value\<close>

lemma hex_inverse: "n < 16 \<Longrightarrow> hex_value (hex_digit n) = Some n"
proof -
  assume "n < 16"
  moreover have "list_all (\<lambda>n. hex_value (hex_digit n) = Some n) [0..<16]" by code_simp
  ultimately show ?thesis by (simp add: list_all_iff)
qed

lemma read_json_char: "read_chars (json_char c @ s) = prepend c (read_chars s)"
proof -
  have "of_char c div 16 < (16 :: nat)" "of_char c mod 16 < (16 :: nat)" by (simp_all add: less_mult_imp_div_less)
  moreover have "char_of (of_char c div 16 * 16 + of_char c mod (16 :: nat)) = c" by simp
  moreover have "hex_value (CHR ''0'') = Some 0" by code_simp
  ultimately show ?thesis
    by (simp add: json_char_def unescape_def hex_inverse)
qed

lemma read_json_string: "read_chars (concat (map json_char t) @ CHR 0x22 # s) = Some (t, s)"
  by (induction t) (simp_all add: read_json_char prepend_def)

lemma skip_space_stays: "c \<notin> {CHR '' '', CHR 0x09, CHR 0x0A, CHR 0x0D} \<Longrightarrow> skip_space (c # cs) = c # cs"
  by (simp add: skip_space_def)

fun numberless :: "json \<Rightarrow> bool" where
  "numberless (JNumber t) = False"
| "numberless (JArray vs) = list_all numberless vs"
| "numberless (JObject ms) = list_all (\<lambda>(k, v). numberless v) ms"
| "numberless _ = True"

lemma stringify_start: "numberless v \<Longrightarrow> \<exists>c cs. stringify v = c # cs \<and> c \<notin> {CHR '' '', CHR 0x09, CHR 0x0A, CHR 0x0D, CHR '']''}"
  by (cases v) (auto simp: json_string_def)

lemma parse_elements_inverse:
  assumes "\<And>v s. v \<in> set vs \<Longrightarrow> parse_value (stringify v @ s) = Some (v, s)" and "vs \<noteq> []"
  shows "parse_elements (commas (map stringify vs) @ '']'' @ s) = Some (vs, s)"
  using assms
proof (induction vs)
  case (Cons v vs)
  show ?case
  proof (cases vs)
    case Nil
    then show ?thesis using Cons.prems(1) by (simp add: parse_elements.simps skip_space_stays)
  next
    case (Cons w ws)
    then show ?thesis
      using Cons.IH Cons.prems(1) by (simp add: parse_elements.simps [of "stringify v @ _"] skip_space_stays prepend_def)
  qed
qed simp

abbreviation json_pair :: "string \<times> json \<Rightarrow> string" where
  "json_pair \<equiv> \<lambda>(k, v). json_string k @ '':'' @ stringify v"

lemma parse_members_inverse:
  assumes "\<And>k v s. (k, v) \<in> set ms \<Longrightarrow> parse_value (stringify v @ s) = Some (v, s)" and "ms \<noteq> []"
  shows "parse_members (commas (map json_pair ms) @ ''}'' @ s) = Some (ms, s)"
  using assms
proof (induction ms)
  case (Cons m ms)
  obtain k v where m: "m = (k, v)" by fastforce
  have v: "parse_value (stringify v @ s) = Some (v, s)" for s by (rule Cons.prems(1) [of k]) (simp add: m)
  show ?case
  proof (cases ms)
    case Nil
    then show ?thesis
      by (simp add: m parse_members.simps json_string_def skip_space_stays read_json_string v)
  next
    case (Cons n ns)
    have "parse_members (commas (map json_pair ms) @ ''}'' @ s) = Some (ms, s)"
      by (rule Cons.IH) (use Cons.prems(1) Cons in auto)
    then show ?thesis
      by (simp add: m Cons parse_members.simps [of "CHR 0x22 # _"] json_string_def skip_space_stays read_json_string v prepend_def)
  qed
qed simp

text \<open>Parsing inverts \<open>stringify\<close> for every value without numbers, whatever characters its strings have.\<close>

lemma parse_value_inverse: "numberless v \<Longrightarrow> parse_value (stringify v @ s) = Some (v, s)"
proof (induction v arbitrary: s rule: stringify.induct)
  case (4 t)
  then show ?case by (simp add: parse_value.simps json_string_def skip_space_stays read_json_string)
next
  case (5 vs)
  show ?case
  proof (cases vs)
    case (Cons w ws)
    obtain c cs where c: "commas (map stringify vs) = c # cs" "c \<notin> {CHR '' '', CHR 0x09, CHR 0x0A, CHR 0x0D, CHR '']''}"
      using stringify_start [of w] 5 Cons by (cases ws) auto
    have "parse_elements (commas (map stringify vs) @ '']'' @ s) = Some (vs, s)"
      by (rule parse_elements_inverse) (use 5 Cons in \<open>auto simp: list_all_iff\<close>)
    then show ?thesis using c by (simp add: parse_value.simps skip_space_stays)
  qed (simp add: parse_value.simps skip_space_stays)
next
  case (6 ms)
  show ?case
  proof (cases ms)
    case (Cons n ns)
    obtain cs where c: "commas (map json_pair ms) = CHR 0x22 # cs"
      using Cons by (cases n; cases ns) (auto simp: json_string_def)
    have "parse_value (stringify v @ s) = Some (v, s)" if "(k, v) \<in> set ms" for k v s
      by (rule 6(1) [OF that refl]) (use that 6(2) in \<open>auto simp: list_all_iff\<close>)
    then have "parse_members (commas (map json_pair ms) @ ''}'' @ s) = Some (ms, s)"
      using Cons by (intro parse_members_inverse) simp_all
    then show ?thesis using c by (simp add: parse_value.simps skip_space_stays)
  qed (simp add: parse_value.simps skip_space_stays)
qed (simp_all add: parse_value.simps skip_space_stays word_or_number_def)

lemma parse_stringify: "numberless v \<Longrightarrow> parse_json (stringify v) = Some v"
  using parse_value_inverse [of v "[]"] by (simp add: parse_json_def skip_space_def)

end
