(* ===== verification/Controls.thy ===== *)
theory Controls
  imports Calls MediaRequests Videos Json
begin

text \<open>
  The components with a state of their own: the toolbar (\<open>components/Toolbar.tsx\<close>,
  \<open>components/ToolbarButton.tsx\<close>), the form to join a call (\<open>components/Media.tsx\<close>), the menus of
  devices (\<open>components/DeviceDropdown.tsx\<close>) and the input of the chat (\<open>components/Input.tsx\<close>). A
  handler takes the state of its component and returns the next one; what it does to the store or
  the client is the function it calls. \<open>Page\<close> puts them together.
\<close>

section \<open>Menus\<close>

definition Backdrop :: "bool \<Rightarrow> 'h \<Rightarrow> 'h node list" where
  "Backdrop visible onClick =
     shown_if visible (elem ''section'' [Attr ''className'' ''dropdown-backdrop'', On ''click'' onClick] [])"

text \<open>The menu of a video: an item closes or opens the menu, then does what it is for.\<close>

datatype 'h menu_handler = MenuClick | MenuClose | MenuItem 'h

fun menu_step :: "'h menu_handler \<Rightarrow> bool \<Rightarrow> bool \<times> 'h option" where
  "menu_step MenuClick isOpen = (\<not> isOpen, None)"
| "menu_step MenuClose isOpen = (False, None)"
| "menu_step (MenuItem onClick) isOpen = (\<not> isOpen, Some onClick)"

definition Dropdown ::
  "'h menu_handler node \<Rightarrow> ('h menu_handler attribute list \<times> 'h \<times> 'h menu_handler node list) list \<Rightarrow> bool \<Rightarrow> 'h menu_handler node"
where
  "Dropdown label children isOpen =
     elem ''div'' [Attr ''className'' ''dropdown'']
       ([elem ''button'' [On ''click'' MenuClick] [label]] @ Backdrop isOpen MenuClose @
        [elem ''ul'' [Classes [''dropdown-list''] [(''dropdown-list-open'', isOpen)]]
           (map (\<lambda>(attrs, onClick, content). elem ''li'' (attrs @ [On ''click'' (MenuItem onClick)]) content) children)])"

section \<open>Toolbar\<close>

record toolbar_state =
  tb_hidden :: bool
  tb_readMessages :: nat
  tb_camDisabled :: bool
  tb_micMuted :: bool
  tb_fullScreenEnabled :: bool
  tb_encryptionDialogVisible :: bool
  tb_encrypted :: bool
  tb_copiedToastStatus :: bool

definition new_toolbar :: "nat \<Rightarrow> toolbar_state" where
  "new_toolbar messagesCount =
     \<lparr>tb_hidden = False, tb_readMessages = messagesCount, tb_camDisabled = False, tb_micMuted = False,
      tb_fullScreenEnabled = False, tb_encryptionDialogVisible = False, tb_encrypted = False,
      tb_copiedToastStatus = False\<rparr>"

definition fullscreenChange :: "bool \<Rightarrow> bool \<Rightarrow> toolbar_state \<Rightarrow> toolbar_state" where
  "fullscreenChange isEnabled isFullscreen tb = tb\<lparr>tb_fullScreenEnabled := isEnabled \<and> isFullscreen\<rparr>"

definition toggleHidden :: "string option \<Rightarrow> toolbar_state \<Rightarrow> toolbar_state" where
  "toggleHidden tagName tb =
     (if tagName = Some ''DIV'' \<or> tagName = Some ''VIDEO'' then tb\<lparr>tb_hidden := \<not> tb_hidden tb\<rparr> else tb)"

definition toggleEncryptionDialog :: "toolbar_state \<Rightarrow> toolbar_state" where
  "toggleEncryptionDialog tb = tb\<lparr>tb_encryptionDialogVisible := \<not> tb_encryptionDialogVisible tb\<rparr>"

text \<open>\<open>setPassword\<close> of the toolbar: the key is what the input held.\<close>

definition save_password :: "string \<Rightarrow> toolbar_state \<times> codec \<Rightarrow> toolbar_state \<times> codec" where
  "save_password key = (\<lambda>(tb, k).
     let (k, posted) = setPassword key k
     in (tb\<lparr>tb_encryptionDialogVisible := False, tb_encrypted := posted \<and> length key > 0\<rparr>, k))"

definition setPasswordOnEnter :: "string \<Rightarrow> string \<Rightarrow> toolbar_state \<times> codec \<Rightarrow> toolbar_state \<times> codec" where
  "setPasswordOnEnter pressed key tk = (if pressed = ''Enter'' then save_password key tk else tk)"

datatype invitation = Share string string string | Clipboard string

definition copyInvitationURL :: "bool \<Rightarrow> string \<Rightarrow> string \<Rightarrow> string \<Rightarrow> invitation" where
  "copyInvitationURL canShare nickname callId link =
    (let invitation = nickname @ '' has invited you to a meeting on MeeTiNG''
     in if canShare then Share ''MeeTiNG'' invitation link
        else Clipboard (invitation @ ''. '' @ [CHR 0x0A] @ ''Room: '' @ callId @ '' '' @ [CHR 0x0A] @ ''Link: '' @ link))"

definition read_messages :: "nat \<Rightarrow> toolbar_state \<Rightarrow> toolbar_state" where
  "read_messages messagesCount tb = tb\<lparr>tb_readMessages := messagesCount\<rparr>"

definition record_toast :: "bool \<Rightarrow> toolbar_state \<Rightarrow> toolbar_state" where
  "record_toast status tb = (if \<not> status then tb\<lparr>tb_copiedToastStatus := True\<rparr> else tb)"

definition toast_timer :: "toolbar_state \<Rightarrow> toolbar_state" where
  "toast_timer tb = tb\<lparr>tb_copiedToastStatus := False\<rparr>"

record toolbar_props =
  tp_dialState :: dial_state
  tp_messagesCount :: nat
  tp_desktopStream :: "local_stream option"
  tp_recordStatus :: bool
  tp_chatVisible :: bool

definition unreadCount :: "toolbar_props \<Rightarrow> toolbar_state \<Rightarrow> int" where
  "unreadCount props tb = int (tp_messagesCount props) - int (tb_readMessages tb)"

definition js_int :: "int \<Rightarrow> string" where
  "js_int i = (if i < 0 then CHR ''-'' # dec_nat (nat (- i)) else dec_nat (nat i))"

datatype toolbar_handler =
    CopyInvitation
  | ToggleChatClick
  | EncryptionClick
  | EncryptionKeyUp
  | SavePasswordClick
  | ShareDesktopClick
  | RecordClick
  | HangUpClick
  | FullscreenClick

definition ToolbarButton ::
  "'h attribute list \<Rightarrow> int \<Rightarrow> bool \<Rightarrow> 'h \<Rightarrow> string \<Rightarrow> string option \<Rightarrow> bool \<Rightarrow> string \<Rightarrow> 'h node"
where
  "ToolbarButton classes badge blink onClick icon offIcon on title =
     elem ''a'' ([Classes [''button''] [(''blink'', blink), (''on'', on)]] @ classes @ [On ''click'' onClick])
       [elem ''span'' [Attr ''className'' ''icon'']
          (elem (case offIcon of Some off \<Rightarrow> if \<not> on then off else icon | None \<Rightarrow> icon) [] [] #
           shown_if (badge \<noteq> 0) (elem ''span'' [Attr ''className'' ''badge''] [Content (js_int badge)])),
        elem ''span'' [Attr ''className'' ''tooltip''] [Content title]]"

definition encryption_dialog :: "bool \<Rightarrow> toolbar_state \<Rightarrow> toolbar_handler node" where
  "encryption_dialog supportsInsertableStreams tb =
     elem ''div'' [Attr ''className'' ''encryption-wrapper'']
       [ToolbarButton [Classes [''encryption''] [(''encryption-enabled'', tb_encrypted tb)]] 0 False EncryptionClick
          (if tb_encrypted tb then ''MdLock'' else ''MdLockOpen'') None
          (tb_encryptionDialogVisible tb \<or> tb_encrypted tb) ''Setup Encryption'',
        elem ''div'' [Classes [''encryption-dialog''] [(''encryption-dialog-visible'', tb_encryptionDialogVisible tb)]]
          [elem ''div'' [Attr ''className'' ''encryption-form'']
             [elem ''input'' [Attr ''autoComplete'' ''off'', Attr ''name'' ''encryption-key'', Attr ''className'' ''encryption-key'',
                Attr ''placeholder'' ''Enter Passphrase'', Attr ''type'' ''password'', On ''keyUp'' EncryptionKeyUp] [],
              elem ''button'' [On ''click'' SavePasswordClick] [Content ''Save'']],
           elem ''div'' [Attr ''className'' ''note'']
             (elem ''p'' [] [elem ''MdWarning'' [] [], Content '' Experimental functionality for A/V only.''] #
              shown_if (\<not> supportsInsertableStreams)
                (elem ''p'' [] [Content (''Your browser does not support Insertable Streams; currently only Chrome has support. '' @
                  ''If you are using Chrome, please make sure Experimental Web Platform Features are enabled in chrome://flags.'')]))]]"

definition toolbar_call :: "toolbar_props \<Rightarrow> toolbar_state \<Rightarrow> toolbar_handler node" where
  "toolbar_call props tb =
     elem ''div'' [Classes [''toolbar-call'', ''toolbar''] [(''toolbar-hidden'', tp_chatVisible props \<or> tb_hidden tb)]]
       [ToolbarButton [Attr ''className'' ''stream-desktop''] 0 False ShareDesktopClick ''MdStopScreenShare'' (Some ''MdScreenShare'')
          (tp_desktopStream props \<noteq> None) ''Share Desktop'',
        elem ''VideoDropdown'' [] [],
        elem ''TransitionGroup'' []
          (shown_if (tb_copiedToastStatus tb) (elem ''span'' [Attr ''className'' ''copied-toast''] [Content ''Copied!''])),
        ToolbarButton [Attr ''className'' ''recording''] 0 False RecordClick ''MdRadioButtonUnchecked'' (Some ''MdRadioButtonChecked'')
          (tp_recordStatus props) (if \<not> tp_recordStatus props then ''Start Recording'' else ''Stop Recording''),
        ToolbarButton [Attr ''className'' ''hangup''] 0 False HangUpClick ''MdCallEnd'' None False ''Hang Up'',
        elem ''AudioDropdown'' [] [],
        ToolbarButton [Attr ''className'' ''fullscreen''] 0 False FullscreenClick ''MdFullscreenExit'' (Some ''MdFullscreen'')
          (tb_fullScreenEnabled tb) ''Toggle Fullscreen'']"

definition render_toolbar :: "bool \<Rightarrow> bool \<Rightarrow> toolbar_props \<Rightarrow> toolbar_state \<Rightarrow> toolbar_handler node list" where
  "render_toolbar canShare supportsInsertableStreams props tb =
    (let unread = unreadCount props tb; hasUnread = unread > 0;
         isInCall = (tp_dialState props = DIAL_STATE_IN_CALL)
     in elem ''div'' [Classes [''toolbar-other'', ''toolbar''] [(''toolbar-hidden'', tp_chatVisible props \<or> tb_hidden tb)]]
          ([ToolbarButton [Attr ''className'' ''copy-url''] 0 False CopyInvitation (if canShare then ''MdShare'' else ''MdContentCopy'')
              None False (if canShare then ''Share'' else ''Copy Invitation URL'')] @
           shown_if isInCall
             (ToolbarButton [Attr ''className'' ''chat''] unread (\<not> tp_chatVisible props \<and> hasUnread) ToggleChatClick
                ''MdQuestionAnswer'' None (tp_chatVisible props) ''Toggle Chat'') @
           [encryption_dialog supportsInsertableStreams tb]) #
        shown_if isInCall (toolbar_call props tb))"

section \<open>JSON of constraints\<close>

text \<open>A constraint as the object the code has, and its text.\<close>

fun facing_string :: "facing_mode \<Rightarrow> string" where
  "facing_string FacingUser = ''user''"
| "facing_string FacingEnvironment = ''environment''"

fun video_object :: "video_constraint \<Rightarrow> json" where
  "video_object (VideoDevice d) = JObject [(''deviceId'', JString d)]"
| "video_object (VideoWithoutId n) = JObject [(''deviceId'', JString ''''), (''name'', JString n)]"
| "video_object (VideoOn b) = JBool b"
| "video_object (VideoFacing f) = JObject [(''facingMode'', JString (facing_string f))]"
| "video_object (VideoExactFacing f) = JObject [(''facingMode'', JObject [(''exact'', JString (facing_string f))])]"

fun audio_object :: "audio_constraint \<Rightarrow> json" where
  "audio_object (AudioDevice d) = JObject [(''deviceId'', JString d)]"
| "audio_object (AudioWithoutId n) = JObject [(''deviceId'', JString ''''), (''name'', JString n)]"
| "audio_object (AudioOn b) = JBool b"

definition json_video :: "video_constraint \<Rightarrow> string" where
  "json_video c = stringify (video_object c)"

definition json_audio :: "audio_constraint \<Rightarrow> string" where
  "json_audio c = stringify (audio_object c)"

text \<open>The constraint that a parsed value is, if it is one: the code does not check it.\<close>

fun facing_of :: "string \<Rightarrow> facing_mode option" where
  "facing_of m = (if m = ''user'' then Some FacingUser else if m = ''environment'' then Some FacingEnvironment else None)"

fun video_of :: "json \<Rightarrow> video_constraint option" where
  "video_of (JBool b) = Some (VideoOn b)"
| "video_of (JObject [(k, JString t)]) =
    (if k = ''deviceId'' then Some (VideoDevice t)
     else if k = ''facingMode'' then map_option VideoFacing (facing_of t) else None)"
| "video_of (JObject [(k, JObject [(k', JString t)])]) =
    (if k = ''facingMode'' \<and> k' = ''exact'' then map_option VideoExactFacing (facing_of t) else None)"
| "video_of (JObject [(k, JString t), (k', JString n)]) =
    (if k = ''deviceId'' \<and> t = '''' \<and> k' = ''name'' then Some (VideoWithoutId n) else None)"
| "video_of _ = None"

fun audio_of :: "json \<Rightarrow> audio_constraint option" where
  "audio_of (JBool b) = Some (AudioOn b)"
| "audio_of (JObject [(k, JString t)]) = (if k = ''deviceId'' then Some (AudioDevice t) else None)"
| "audio_of (JObject [(k, JString t), (k', JString n)]) =
    (if k = ''deviceId'' \<and> t = '''' \<and> k' = ''name'' then Some (AudioWithoutId n) else None)"
| "audio_of _ = None"

section \<open>The form to join a call\<close>

record form_state =
  mf_nickname :: string
  mf_error :: "bool option"

definition new_form :: "string option \<Rightarrow> form_state" where
  "new_form nickname = \<lparr>mf_nickname = (case nickname of None \<Rightarrow> '''' | Some n \<Rightarrow> n), mf_error = None\<rparr>"

definition joinEnabled :: "media_state \<Rightarrow> bool" where
  "joinEnabled m \<longleftrightarrow> dialState m = DIAL_STATE_HUNG_UP \<and> socketConnected m \<and> \<not> loading m"

definition form_visible :: "media_state \<Rightarrow> bool" where
  "form_visible m \<longleftrightarrow> dialState m = DIAL_STATE_HUNG_UP"

definition handleNicknameChange :: "string \<Rightarrow> form_state \<Rightarrow> form_state" where
  "handleNicknameChange value f = f\<lparr>mf_nickname := value\<rparr>"

text \<open>The handlers of the two menus of the form: a value that is no JSON throws; \<open>Inr None\<close> stands for the dispatch of
  a value that is no constraint, which no option has.\<close>

definition handleVideoChange :: "string \<Rightarrow> js_error + action option" where
  "handleVideoChange value = (case parse_json value of
      None \<Rightarrow> Inl SyntaxError
    | Some constraint \<Rightarrow> Inr (map_option VideoConstraint (video_of constraint)))"

definition handleAudioChange :: "string \<Rightarrow> js_error + action option" where
  "handleAudioChange value = (case parse_json value of
      None \<Rightarrow> Inl SyntaxError
    | Some constraint \<Rightarrow> Inr (map_option AudioConstraint (audio_of constraint)))"

fun device_label :: "device_type \<Rightarrow> string" where
  "device_label AudioInput = ''Audio''"
| "device_label VideoInput = ''Video''"

fun device_kind :: "device_type \<Rightarrow> string" where
  "device_kind AudioInput = ''audioinput''"
| "device_kind VideoInput = ''videoinput''"

text \<open>\<open>Options\<close>: the values and the labels of the options.\<close>

definition Options :: "device_type \<Rightarrow> string \<Rightarrow> media_device list \<Rightarrow> (string \<times> string) list" where
  "Options type dflt ds =
     [(''false'', ''No '' @ device_label type), (dflt, ''Default '' @ device_label type)] @
     map (\<lambda>d. (stringify (JObject [(''deviceId'', JString (dv_id d))]), if dv_name d \<noteq> '''' then dv_name d else device_kind (dv_type d)))
       (filter (\<lambda>d. dv_type d = type) ds)"

datatype form_handler = FormSubmit | NicknameChange | VideoChange | AudioChange | PlayClick

definition render_select :: "string \<Rightarrow> form_handler \<Rightarrow> string \<Rightarrow> (string \<times> string) list \<Rightarrow> form_handler node" where
  "render_select name h value os =
     elem ''div'' [Attr ''className'' ''form-item'']
       [elem ''select'' [Attr ''name'' name, On ''change'' h, Attr ''value'' value, Attr ''autoComplete'' ''off'']
          (map (\<lambda>(v, l). elem ''option'' [Attr ''value'' v] [Content l]) os)]"

definition render_form :: "string \<Rightarrow> media_state \<Rightarrow> form_state \<Rightarrow> form_handler node list" where
  "render_form network m f =
     shown_if (form_visible m)
       (elem ''form'' [Attr ''className'' ''media'', On ''submit'' FormSubmit]
         ([elem ''div'' [Attr ''className'' ''form-item'']
             [elem ''label'' [Classes [] [(''label-error'', mf_nickname f = '''')]] [Content ''Enter your name''],
              elem ''input'' [Flag ''required'' True, Classes [] [(''error'', mf_nickname f = '''')], Attr ''name'' ''nickname'',
                Attr ''type'' ''text'', Attr ''placeholder'' ''Name'', Flag ''autoFocus'' True, On ''change'' NicknameChange,
                Attr ''value'' (mf_nickname f)] []],
           render_select ''video-input'' VideoChange (json_video (video m))
             (Options VideoInput ''{\"facingMode\":\"user\"}'' (devices m)),
           render_select ''audio-input'' AudioChange (json_audio (audio m)) (Options AudioInput ''true'' (devices m)),
           elem ''button'' [Attr ''type'' ''submit'', Flag ''disabled'' (\<not> joinEnabled m)] [Content ''Join Call'']] @
          shown_if (mf_error f = Some True)
            (elem ''Message'' [Attr ''className'' ''message-error'']
               [elem ''MdError'' [] [], elem ''span'' [] [Content (''Could not get access to microphone or camera. '' @
                  ''Please grant the necessary permissions and try again.'')]]) @
          [elem ''Unsupported'' [] [],
           elem ''div'' [Attr ''className'' ''network-info''] [elem ''span'' [] [Content (''Network: '' @ network)]]]))"

definition render_media :: "string \<Rightarrow> media_state \<Rightarrow> form_state \<Rightarrow> form_handler node" where
  "render_media network m f =
     elem ''div'' [Attr ''className'' ''media-container'']
       (elem ''Alerts'' []
          (shown_if (autoplayError m)
             (elem ''Alert'' []
                [Content ''Your browser has blocked video autoplay on this page. To continue with your call, please press the play button:'',
                 elem ''button'' [Attr ''className'' ''button'', On ''click'' PlayClick] [Content ''Play'']])) #
        render_form network m f)"

section \<open>The menus of devices\<close>

record 'c dropdown =
  dd_open :: bool
  dd_lastDevice :: "'c option"

definition toggleOpen :: "'c dropdown \<Rightarrow> 'c dropdown" where
  "toggleOpen dd = dd\<lparr>dd_open := \<not> dd_open dd\<rparr>"

definition close_dropdown :: "'c dropdown \<Rightarrow> 'c dropdown" where
  "close_dropdown dd = dd\<lparr>dd_open := False\<rparr>"

text \<open>What the options of a menu stand for. \<open>toPlainConstraint\<close> drops the name of a device that has an
  identifier.\<close>

datatype device_choice = NoDevice | DefaultDevice | ChosenDevice string string

fun audio_choice :: "device_choice \<Rightarrow> audio_constraint" where
  "audio_choice NoDevice = AudioOn False"
| "audio_choice DefaultDevice = AudioOn True"
| "audio_choice (ChosenDevice deviceId name) = (if deviceId \<noteq> '''' then AudioDevice deviceId else AudioWithoutId name)"

fun video_choice :: "device_choice \<Rightarrow> video_constraint" where
  "video_choice NoDevice = VideoOn False"
| "video_choice DefaultDevice = VideoFacing FacingUser"
| "video_choice (ChosenDevice deviceId name) = (if deviceId \<noteq> '''' then VideoDevice deviceId else VideoWithoutId name)"

text \<open>\<open>getMediaTrack\<close> of the component: the track that was disabled is enabled when its constraint
  is chosen again, otherwise a new one is requested. The handlers return the request that waits for the
  browser, if there is one.\<close>

definition dropdown_track ::
  "'p store_env \<Rightarrow> media_kind \<Rightarrow> media_track_params \<Rightarrow> bool \<Rightarrow> 'p store \<Rightarrow> 'p store \<times> media_track_params option"
where
  "dropdown_track env kind params same s =
     (if same then (snd (reducers env (enableMediaTrack kind) s), None)
      else (snd (reducers env (MediaTrackAction Pending) s), Some params))"

definition handle_audio_device ::
  "'p store_env \<Rightarrow> device_choice \<Rightarrow> audio_constraint dropdown \<times> 'p store \<Rightarrow>
     audio_constraint dropdown \<times> 'p store \<times> media_track_params option"
where
  "handle_audio_device env choice = (\<lambda>(dd, s).
    let dd = close_dropdown dd;
        constraint = audio_choice choice;
        dd = (if \<not> audio_wanted constraint \<and> audio_wanted (audio (s_media s))
              then dd\<lparr>dd_lastDevice := Some (audio (s_media s))\<rparr> else dd);
        s = snd (reducers env (AudioConstraint constraint) s)
    in (dd, dropdown_track env AudioKind (AudioParams constraint)
              (audio_wanted constraint \<and> map_option json_audio (dd_lastDevice dd) = Some (json_audio constraint)) s))"

definition handle_video_device ::
  "'p store_env \<Rightarrow> device_choice \<Rightarrow> video_constraint dropdown \<times> 'p store \<Rightarrow>
     video_constraint dropdown \<times> 'p store \<times> media_track_params option"
where
  "handle_video_device env choice = (\<lambda>(dd, s).
    let dd = close_dropdown dd;
        constraint = video_choice choice;
        dd = (if \<not> video_wanted constraint \<and> video_wanted (video (s_media s))
              then dd\<lparr>dd_lastDevice := Some (video (s_media s))\<rparr> else dd);
        s = snd (reducers env (VideoConstraint constraint) s)
    in (dd, dropdown_track env VideoKind (VideoParams constraint)
              (video_wanted constraint \<and> map_option json_video (dd_lastDevice dd) = Some (json_video constraint)) s))"

text \<open>The answer of the browser to a request for a track, and a choice whose request is answered at
  once.\<close>

definition track_answered ::
  "(js_error \<Rightarrow> err_obj) \<Rightarrow> 'p store_env \<Rightarrow> media_navigator \<Rightarrow> media_track_params \<Rightarrow> 'p store \<Rightarrow> 'p store"
where
  "track_answered err_of env nav params s =
     snd (answered err_of env ''MEDIA_TRACK'' MediaTrackAction (getMediaTrack nav params) s)"

definition choose_audio ::
  "(js_error \<Rightarrow> err_obj) \<Rightarrow> 'p store_env \<Rightarrow> media_navigator \<Rightarrow> device_choice \<Rightarrow>
     audio_constraint dropdown \<times> 'p store \<Rightarrow> audio_constraint dropdown \<times> 'p store"
where
  "choose_audio err_of env nav choice x = (case handle_audio_device env choice x of
      (dd, s, None) \<Rightarrow> (dd, s)
    | (dd, s, Some params) \<Rightarrow> (dd, track_answered err_of env nav params s))"

text \<open>The options with their names and which of them is selected.\<close>

definition dropdown_options ::
  "device_type \<Rightarrow> media_device list \<Rightarrow> bool \<Rightarrow> bool \<Rightarrow> string option \<Rightarrow> (device_choice \<times> string \<times> bool) list"
where
  "dropdown_options kind ds noneSelected defaultSelected selectedId =
     [(NoDevice, ''No '' @ device_label kind, noneSelected), (DefaultDevice, ''Default '' @ device_label kind, defaultSelected)] @
     map (\<lambda>d. (ChosenDevice (dv_id d) (dv_name d), dv_name d, selectedId = Some (dv_id d) \<and> dv_id d \<noteq> ''''))
       (filter (\<lambda>d. dv_type d = kind) ds)"

definition audio_options :: "media_state \<Rightarrow> (device_choice \<times> string \<times> bool) list" where
  "audio_options m = dropdown_options AudioInput (devices m) (audio m = AudioOn False)
     (json_audio (audio m) = json_audio (AudioOn True)) (case audio m of AudioDevice d \<Rightarrow> Some d | _ \<Rightarrow> None)"

definition video_options :: "media_state \<Rightarrow> (device_choice \<times> string \<times> bool) list" where
  "video_options m = dropdown_options VideoInput (devices m) (video m = VideoOn False)
     (json_video (video m) = json_video (VideoFacing FacingUser)) (case video m of VideoDevice d \<Rightarrow> Some d | _ \<Rightarrow> None)"

datatype dropdown_handler = ToggleOpen | CloseDropdown | ChooseOption device_choice

definition render_dropdown ::
  "string \<Rightarrow> string \<Rightarrow> string \<Rightarrow> string \<Rightarrow> bool \<Rightarrow> (device_choice \<times> string \<times> bool) list \<Rightarrow> 'c dropdown \<Rightarrow> dropdown_handler node"
where
  "render_dropdown className icon offIcon title noneSelected os dd =
     elem ''div'' [Attr ''className'' ''dropdown'']
       ([ToolbarButton [Attr ''className'' className] 0 False ToggleOpen icon (Some offIcon) noneSelected title] @
        Backdrop (dd_open dd) CloseDropdown @
        [elem ''ul'' [Classes [''dropdown-list'', ''dropdown-center''] [(''dropdown-list-open'', dd_open dd)]]
           (map (\<lambda>(choice, name, selected). elem ''li'' [On ''click'' (ChooseOption choice)]
              [elem (if selected then ''MdRadioButtonChecked'' else ''MdRadioButtonUnchecked'') [] [], Content name]) os)])"

section \<open>The input of the chat\<close>

text \<open>\<open>submit\<close>: the text that is sent, if any, and the next content of the input.\<close>

definition submit :: "string \<Rightarrow> string option \<times> string" where
  "submit message = (if message \<noteq> '''' then Some message else None, '''')"

definition handleKeyPress :: "string \<Rightarrow> bool \<Rightarrow> string \<Rightarrow> string option \<times> string" where
  "handleKeyPress key shiftKey message =
     (if key = ''Enter'' \<and> \<not> shiftKey then submit message else (None, message))"

definition handleSmileClick :: "string \<Rightarrow> string \<Rightarrow> string" where
  "handleSmileClick innerHTML value = value @ innerHTML"

text \<open>Both buttons are of type \<open>submit\<close>: the browser submits the form after the click handler, whichever is
  pressed. \<open>smiles\<close> are the five emoji.\<close>

datatype input_handler = InputSubmit | SelectFiles | InputChange | KeyPress | SendFileClick | SmileClick string

definition render_input :: "string list \<Rightarrow> string \<Rightarrow> input_handler node" where
  "render_input smiles message =
     elem ''form'' [Attr ''className'' ''chat-controls'', On ''submit'' InputSubmit]
       [elem ''input'' [Attr ''display'' ''none'', Attr ''type'' ''file'', Flag ''multiple'' True, On ''change'' SelectFiles] [],
        elem ''textarea'' [Attr ''className'' ''chat-controls-textarea'', On ''change'' InputChange, On ''keyPress'' KeyPress,
          Attr ''placeholder'' ''Type a message'', Attr ''value'' message] [],
        elem ''div'' [Attr ''className'' ''chat-controls-buttons'']
          [elem ''input'' [Attr ''type'' ''submit'', Attr ''value'' ''Send'', Attr ''className'' ''chat-controls-buttons-send''] [],
           elem ''input'' [Attr ''type'' ''submit'', Attr ''value'' ''Send File'', Attr ''className'' ''chat-controls-buttons-send-file'',
             On ''click'' SendFileClick] [],
           elem ''div'' [Attr ''className'' ''chat-controls-buttons-wrapper'']
             [elem ''div'' [Attr ''className'' ''emoji'']
                [elem ''div'' [Attr ''className'' ''chat-controls-buttons-smiles'']
                   [elem ''MdSentimentSatisfied'' [] [],
                    elem ''div'' [Attr ''className'' ''chat-controls-buttons-smiles-menu'']
                      (map (\<lambda>c. elem ''span'' [Attr ''className'' ''chat-controls-buttons-smile'', On ''click'' (SmileClick c)]
                         [Content c]) smiles)]]]]]"

section \<open>Supported browsers\<close>

record browser_features =
  bf_media :: bool
  bf_mediaStream :: bool
  bf_buffers :: bool
  bf_insertableStreams :: bool
  bf_webrtc :: bool
  bf_websockets :: bool
  bf_webworkers :: bool

definition isBrowserSupported :: "browser_features \<Rightarrow> bool" where
  "isBrowserSupported f \<longleftrightarrow> bf_media f \<and> bf_mediaStream f \<and> bf_buffers f \<and> bf_webrtc f \<and> bf_websockets f \<and> bf_webworkers f"

definition render_unsupported :: "browser_features \<Rightarrow> 'h node list" where
  "render_unsupported f =
     shown_if (\<not> isBrowserSupported f)
       (elem ''Message'' [Attr ''className'' ''message-error'']
         [elem ''MdError'' [Attr ''className'' ''icon''] [],
          elem ''span'' []
            [elem ''strong'' [] [Content ''You are using an unsupported browser!''], elem ''br'' [] [], elem ''br'' [] [],
             Content (''If you experience any issues during the call, please try joining using the latest version of''), Content '' '',
             elem ''a'' [Attr ''href'' ''https://www.google.com/chrome/''] [Content ''Chrome''], Content '','', Content '' '',
             elem ''a'' [Attr ''href'' ''https://www.microsoft.com/en-us/edge''] [Content ''Edge''], Content '','', Content '' '',
             elem ''a'' [Attr ''href'' ''https://www.mozilla.org/en-US/firefox/new/''] [Content ''Firefox''], Content '', or'', Content '' '',
             elem ''a'' [Attr ''href'' ''https://support.apple.com/en-us/HT204416''] [Content ''Safari''], Content ''.'', elem ''br'' [] [],
             Content ''On iOS devices, only Safari v12+ is supported.'']])"

section \<open>The options of the form\<close>

lemma find_skip: "(\<And>x. x \<in> set xs \<Longrightarrow> \<not> P x) \<Longrightarrow> List.find P (xs @ ys) = List.find P ys"
  by (induction xs) simp_all

abbreviation option_elem :: "string \<times> string \<Rightarrow> form_handler node" where
  "option_elem \<equiv> \<lambda>(v, l). elem ''option'' [Attr ''value'' v] [Content l]"

abbreviation select_elem :: "string \<Rightarrow> form_handler \<Rightarrow> string \<Rightarrow> (string \<times> string) list \<Rightarrow> form_handler node" where
  "select_elem name h v os \<equiv>
     elem ''select'' [Attr ''name'' name, On ''change'' h, Attr ''value'' v, Attr ''autoComplete'' ''off''] (map option_elem os)"

lemma option_elements: "concat (map (elements_of \<circ> option_elem) os) = map option_elem os"
  by (induction os) (auto simp: comp_def)

lemma select_elements:
  "elements_of (select_elem name h v os) = select_elem name h v os # map option_elem os"
  "elements_of (render_select name h v os) = [render_select name h v os, select_elem name h v os] @ map option_elem os"
  by (simp_all add: render_select_def option_elements)

lemma option_no_select: "x \<in> set (map option_elem os) \<Longrightarrow> \<not> is_select name x"
  by (auto simp: is_select_def)

lemma render_select_no_select: "\<not> is_select name (render_select name' h v os)"
  by (simp add: is_select_def render_select_def)

lemma find_render_select:
  "List.find (is_select name) (elements_of (render_select name' h v os) @ ys) =
     (if name = name' then Some (select_elem name h v os) else List.find (is_select name) ys)"
proof -
  have "List.find (is_select name) (map option_elem os @ ys) = List.find (is_select name) ys"
    by (rule find_skip) (rule option_no_select)
  then show ?thesis
    unfolding select_elements append_assoc by (auto simp: render_select_no_select) (simp_all add: is_select_def)
qed

lemma form_selects:
  assumes "form_visible m"
  shows "select_named ''video-input'' (render_form network m f) = Some (select_elem ''video-input'' VideoChange (json_video (video m))
      (Options VideoInput ''{\"facingMode\":\"user\"}'' (devices m)))"
    and "select_named ''audio-input'' (render_form network m f) = Some (select_elem ''audio-input'' AudioChange (json_audio (audio m))
      (Options AudioInput ''true'' (devices m)))"
  using assms
  by (simp_all add: render_form_def select_named_def find_render_select) (simp_all add: is_select_def find_render_select)

lemma select_options: "List.map_filter (\<lambda>m. if tag_of m = ''option'' then map_of (attributes_of m) ''value'' else None)
    (elements_of (select_elem name h v os)) = map fst os"
  by (simp only: select_elements, induction os) (auto simp: map_filter_simps)

lemma form_values:
  assumes "form_visible m"
  shows "option_values ''video-input'' (render_form network m f) = map fst (Options VideoInput ''{\"facingMode\":\"user\"}'' (devices m))"
    and "option_values ''audio-input'' (render_form network m f) = map fst (Options AudioInput ''true'' (devices m))"
    and "select_value ''video-input'' (render_form network m f) = Some (json_video (video m))"
    and "select_value ''audio-input'' (render_form network m f) = Some (json_audio (audio m))"
  unfolding option_values_def select_value_def form_selects [OF assms] option.case select_options by simp_all

text \<open>The texts of the options, as the parser reads them.\<close>

lemma default_text: "''{\"facingMode\":\"user\"}'' = stringify (JObject [(''facingMode'', JString ''user'')])"
  by (simp add: json_string_def json_char_def)

lemma option_texts: "''false'' = stringify (JBool False)" "''true'' = stringify (JBool True)"
  by simp_all

lemma option_parsed:
  "parse_json (stringify (JObject [(''deviceId'', JString d)])) = Some (JObject [(''deviceId'', JString d)])"
  "parse_json ''{\"facingMode\":\"user\"}'' = Some (JObject [(''facingMode'', JString ''user'')])"
  "parse_json ''false'' = Some (JBool False)" "parse_json ''true'' = Some (JBool True)"
  unfolding default_text option_texts by (rule parse_stringify, simp)+

text \<open>
  C26. What the form to join shows and what it does agree. Every option of its two menus, the first two and one per
  device, is a text that the handler of the menu reads without an error, and it dispatches the constraint the
  option stands for: none, the default, or the device with that identifier, whatever characters it has. When the
  constraint is in the store, the menu shows exactly that option as chosen.
\<close>

theorem form_options_select:
  assumes "form_visible m" and "m = s_media s"
    and "vs = [VideoOn False, VideoFacing FacingUser] @ map (VideoDevice \<circ> dv_id) (filter (\<lambda>d. dv_type d = VideoInput) (devices m))"
    and "xs = [AudioOn False, AudioOn True] @ map (AudioDevice \<circ> dv_id) (filter (\<lambda>d. dv_type d = AudioInput) (devices m))"
  shows "map handleVideoChange (option_values ''video-input'' (render_form network m f)) = map (\<lambda>c. Inr (Some (VideoConstraint c))) vs \<and>
    map handleAudioChange (option_values ''audio-input'' (render_form network m f)) = map (\<lambda>c. Inr (Some (AudioConstraint c))) xs \<and>
    (\<forall>i < length vs. select_value ''video-input'' (render_form network (s_media (snd (reducers env (VideoConstraint (vs ! i)) s))) f) =
       Some (option_values ''video-input'' (render_form network m f) ! i)) \<and>
    (\<forall>i < length xs. select_value ''audio-input'' (render_form network (s_media (snd (reducers env (AudioConstraint (xs ! i)) s))) f) =
       Some (option_values ''audio-input'' (render_form network m f) ! i))"
proof (intro conjI allI impI)
  let ?v = "option_values ''video-input'' (render_form network m f)" and ?a = "option_values ''audio-input'' (render_form network m f)"
  have v: "?v = map json_video vs" "map handleVideoChange ?v = map (\<lambda>c. Inr (Some (VideoConstraint c))) vs"
    unfolding form_values [OF assms(1)]
    by (simp_all add: Options_def assms(3) json_video_def default_text [simplified] comp_def)
      (simp_all add: handleVideoChange_def option_parsed [simplified])
  have a: "?a = map json_audio xs" "map handleAudioChange ?a = map (\<lambda>c. Inr (Some (AudioConstraint c))) xs"
    unfolding form_values [OF assms(1)]
    by (simp_all add: Options_def assms(4) json_audio_def comp_def)
      (simp_all add: handleAudioChange_def option_parsed [simplified])
  have visible: "form_visible (s_media (snd (reducers env (VideoConstraint c) s)))"
    "video (s_media (snd (reducers env (VideoConstraint c) s))) = c"
    "form_visible (s_media (snd (reducers env (AudioConstraint c') s)))"
    "audio (s_media (snd (reducers env (AudioConstraint c') s))) = c'" for c c'
    using assms(1,2) by (simp_all add: form_visible_def reducers_def peers_slice_def Let_def split_beta)
  show "map handleVideoChange ?v = map (\<lambda>c. Inr (Some (VideoConstraint c))) vs" by (rule v(2))
  show "map handleAudioChange ?a = map (\<lambda>c. Inr (Some (AudioConstraint c))) xs" by (rule a(2))
  show "select_value ''video-input'' (render_form network (s_media (snd (reducers env (VideoConstraint (vs ! i)) s))) f) = Some (?v ! i)"
    if "i < length vs" for i
    using that by (simp add: form_values(3) [OF visible(1)] visible(2) v(1))
  show "select_value ''audio-input'' (render_form network (s_media (snd (reducers env (AudioConstraint (xs ! i)) s))) f) = Some (?a ! i)"
    if "i < length xs" for i
    using that by (simp add: form_values(4) [OF visible(3)] visible(4) a(1))
qed

section \<open>Switching devices\<close>

lemma replace_all:
  assumes "reliable env"
  shows "\<exists>w'. for_each (\<lambda>(_, peer). peer_call env (ReplaceTrack peer t t' l)) st w = (None, w') \<and>
    pw_streams w' = pw_streams w \<and> pw_local w' = pw_local w"
proof (induction st arbitrary: w)
  case (Cons x st)
  obtain u p where x: "x = (u, p)" by fastforce
  show ?case
    using Cons.IH [of "w\<lparr>pw_calls := pw_calls w @ [ReplaceTrack p t t' l]\<rparr>"] assms
    by (simp add: x peer_call_def reliable_def)
qed simp

text \<open>The parts of the store that a change of the microphone reads.\<close>

definition microphone :: "'p store \<Rightarrow> nat \<Rightarrow> track list \<Rightarrow> audio_constraint \<Rightarrow> bool" where
  "microphone s l ts c \<longleftrightarrow> map_of (pw_local (s_world s)) Camera = Some l \<and> getTracksByKind (s_world s) l AudioKind = ts \<and>
     l < nextStream (pw_streams (s_world s)) \<and> audio (s_media s) = c"

lemma microphone_constraint:
  "microphone s l ts c \<Longrightarrow> microphone (snd (reducers env (AudioConstraint c') s)) l ts c'"
  by (simp add: microphone_def reducers_def peers_slice_def Let_def split_beta)

lemma microphone_enable:
  "microphone s l ts c \<Longrightarrow> microphone (snd (reducers env (enableMediaTrack AudioKind) s)) l ts c"
proof -
  assume m: "microphone s l ts c"
  have "pw_streams (fold (\<lambda>t w. w\<lparr>pw_enabled := (pw_enabled w)(t := True)\<rparr>) xs w) = pw_streams w \<and>
      pw_local (fold (\<lambda>t w. w\<lparr>pw_enabled := (pw_enabled w)(t := True)\<rparr>) xs w) = pw_local w" for xs and w :: "'a peer_world"
    by (induction xs arbitrary: w) simp_all
  then show ?thesis
    using m by (simp add: microphone_def enableMediaTrack_def reducers_def peers_slice_def Let_def split_beta
        handleLocalMediaTrackEnable_def getTracksByKind_def tracks_in_def split: option.split)
qed

lemma microphone_pending:
  "microphone s l ts c \<Longrightarrow> microphone (snd (reducers env (MediaTrackAction Pending) s)) l ts c"
  by (simp add: microphone_def reducers_def peers_slice_def handleLocalMediaTrack_def getTracksByKind_def tracks_in_def
      Let_def split_beta)

lemma microphone_off:
  assumes "microphone s l (t # ts) c"
  shows "microphone (track_answered err_of env nav (AudioParams (AudioOn False)) s) l (t # ts) c"
  using assms
  by (simp add: microphone_def track_answered_def answered_def settled_def reducers_def peers_slice_def handleLocalMediaTrack_def
      setLocalStreamMirror_def getTracksByKind_def tracks_in_def Let_def split_beta)

lemma microphone_switch:
  assumes m: "microphone s l [t] c" and rel: "reliable (se_peer env)"
    and nav: "mn_getUserMedia nav = Some f" "\<And>n. f n \<lparr>mc_audio = a, mc_video = VideoOn False\<rparr> = Inr [t']"
    and t': "tr_kind t' = ''audio''" "t' \<noteq> t" and a: "audio_wanted a"
  shows "microphone (track_answered err_of env nav (AudioParams a) s) l [t'] c"
proof -
  let ?sw = "pw_streams (s_world s)"
  let ?sw' = "?sw\<lparr>heap := (heap ?sw)(nextStream ?sw := [t']), nextStream := Suc (nextStream ?sw)\<rparr>"
  let ?w = "(s_world s)\<lparr>pw_streams := ?sw'\<rparr>" and ?p = "\<lparr>mt_kind = AudioKind, mt_track = Some t', mt_type = Camera\<rparr>"
  have l: "map_of (pw_local (s_world s)) Camera = Some l" "l < nextStream ?sw"
    and h: "filter (\<lambda>x. tr_kind x = ''audio'') (heap ?sw l) = [t]"
    using m by (simp_all add: microphone_def getTracksByKind_def tracks_in_def)
  obtain w1 where w1: "for_each (\<lambda>(_, peer). peer_call (se_peer env) (ReplaceTrack peer t t' l)) (s_peers s) ?w = (None, w1)"
    "pw_streams w1 = ?sw'" "pw_local w1 = pw_local (s_world s)"
    using replace_all [OF rel, of t t' l "s_peers s" ?w] by auto
  have "t' \<notin> set (heap ?sw l)"
  proof
    assume "t' \<in> set (heap ?sw l)"
    then have "t' \<in> set (filter (\<lambda>x. tr_kind x = ''audio'') (heap ?sw l))" using t'(1) by simp
    then show False using h t'(2) by simp
  qed
  moreover have "filter (\<lambda>x. tr_kind x = ''audio'' \<and> x \<noteq> t) (heap ?sw l) = []"
    using arg_cong [OF h, of "filter (\<lambda>x. x \<noteq> t)"] by (simp add: conj_commute)
  ultimately show ?thesis
    using m l h w1 t'
    by (simp add: microphone_def track_answered_def answered_def settled_def reducers_def peers_slice_def handleLocalMediaTrack_def
        setLocalStreamMirror_def getTracksByKind_def tracks_in_def Let_def split_beta nav a track_request_def getUserMedia_def
        open_stream_def new_stream_def with_streams_def stream_addTrack_def stream_removeTrack_def conj_commute)
qed

text \<open>Choosing an option of the menu of microphones, by what the choice does to the tracks.\<close>

lemma choose_none:
  assumes "microphone s l (t # ts) c" and "audio_wanted c"
    and "choose_audio err_of env nav NoDevice (dd, s) = (dd', s')"
  shows "microphone s' l (t # ts) (AudioOn False) \<and> dd_lastDevice dd' = Some c"
proof -
  have "audio (s_media s) = c" using assms(1) by (simp add: microphone_def)
  then show ?thesis
    using assms microphone_off [OF microphone_pending [OF microphone_constraint [OF assms(1)]]]
    by (auto simp: choose_audio_def handle_audio_device_def dropdown_track_def close_dropdown_def Let_def)
qed

lemma choose_device:
  assumes "microphone s l [t] c" and "reliable (se_peer env)" and "mn_getUserMedia nav = Some f"
    and "\<And>n. f n \<lparr>mc_audio = AudioDevice d, mc_video = VideoOn False\<rparr> = Inr [t']"
    and "tr_kind t' = ''audio''" and "t' \<noteq> t" and "d \<noteq> ''''" and "dd_lastDevice dd = Some (AudioOn True)"
    and "choose_audio err_of env nav (ChosenDevice d name) (dd, s) = (dd', s')"
  shows "microphone s' l [t'] (AudioDevice d) \<and> dd_lastDevice dd' = Some (AudioOn True)"
  using assms microphone_switch [OF microphone_pending [OF microphone_constraint [OF assms(1)]] assms(2-6)]
  by (auto simp: choose_audio_def handle_audio_device_def dropdown_track_def close_dropdown_def json_audio_def Let_def)

lemma choose_last:
  assumes "microphone s l ts c" and "dd_lastDevice dd = Some (AudioOn True)"
    and "choose_audio err_of env nav DefaultDevice (dd, s) = (dd', s')"
  shows "microphone s' l ts (AudioOn True)"
  using assms microphone_enable [OF microphone_constraint [OF assms(1)]]
  by (auto simp: choose_audio_def handle_audio_device_def dropdown_track_def close_dropdown_def Let_def)

text \<open>
  C30. A microphone that was turned off is remembered and never forgotten: after No Audio, some
  device and Default Audio, the default device is shown as selected, and the calls still get the
  track of the other device, because only the track that is there is enabled.
\<close>

theorem default_device_not_restored:
  assumes "microphone s l [t] (AudioOn True)" and "reliable (se_peer env)" and "mn_getUserMedia nav = Some f"
    and "\<And>n. f n \<lparr>mc_audio = AudioDevice d, mc_video = VideoOn False\<rparr> = Inr [t']"
    and "tr_kind t' = ''audio''" and "t' \<noteq> t" and "d \<noteq> ''''"
    and "(dd', s') = choose_audio err_of env nav DefaultDevice (choose_audio err_of env nav
      (ChosenDevice d name) (choose_audio err_of env nav NoDevice (dd, s)))"
  shows "(DefaultDevice, ''Default Audio'', True) \<in> set (audio_options (s_media s')) \<and>
    map_of (pw_local (s_world s')) Camera = Some l \<and> getTracksByKind (s_world s') l AudioKind = [t']"
proof -
  obtain dd1 s1 where 1: "choose_audio err_of env nav NoDevice (dd, s) = (dd1, s1)" by fastforce
  obtain dd2 s2 where 2: "choose_audio err_of env nav (ChosenDevice d name) (dd1, s1) = (dd2, s2)" by fastforce
  have m1: "microphone s1 l [t] (AudioOn False)" "dd_lastDevice dd1 = Some (AudioOn True)"
    using choose_none [OF assms(1) _ 1] by simp_all
  have m2: "microphone s2 l [t'] (AudioDevice d)" "dd_lastDevice dd2 = Some (AudioOn True)"
    using choose_device [OF m1(1) assms(2-7) m1(2) 2] by simp_all
  have "microphone s' l [t'] (AudioOn True)"
    by (rule choose_last [OF m2, of err_of env nav dd']) (simp add: assms(8) 1 2)
  then show ?thesis
    by (simp add: microphone_def audio_options_def dropdown_options_def)
qed

lemma chosen_wanted: "audio_wanted (audio_choice (ChosenDevice d name))"
  by simp

lemma pick_device:
  assumes "microphone s l ts c" and "dd_lastDevice dd = None" and a: "a = audio_choice (ChosenDevice d name)"
    and "handle_audio_device env (ChosenDevice d name) (dd, s) = (dd', s', r)"
  shows "microphone s' l ts a \<and> r = Some (AudioParams a) \<and> dd_lastDevice dd' = None"
  using assms(2,4) chosen_wanted [of d name, folded a] microphone_pending [OF microphone_constraint [OF assms(1)]]
  by (auto simp: handle_audio_device_def dropdown_track_def close_dropdown_def Let_def a [symmetric] simp del: audio_choice.simps)

text \<open>
  C31. Two microphones are chosen one after the other, and the browser opens the second one first:
  the second one is the device the store has, and the calls get the track of the first one, because
  the last answer wins.
\<close>

theorem late_device_answer_wins:
  assumes "microphone s l [t] c" and "dd_lastDevice dd = None" and "reliable (se_peer env)" and "mn_getUserMedia nav = Some f"
    and "a1 = audio_choice (ChosenDevice d1 n1)" and "a2 = audio_choice (ChosenDevice d2 n2)"
    and "\<And>n. f n \<lparr>mc_audio = a1, mc_video = VideoOn False\<rparr> = Inr [t1]"
    and "\<And>n. f n \<lparr>mc_audio = a2, mc_video = VideoOn False\<rparr> = Inr [t2]"
    and "tr_kind t1 = ''audio''" and "tr_kind t2 = ''audio''" and "t2 \<noteq> t" and "t1 \<noteq> t2"
    and "handle_audio_device env (ChosenDevice d1 n1) (dd, s) = (dd1, s1, Some first_request)"
    and "handle_audio_device env (ChosenDevice d2 n2) (dd1, s1) = (dd2, s2, Some second_request)"
    and "s' = track_answered err_of env nav first_request (track_answered err_of env nav second_request s2)"
  shows "audio (s_media s') = a2 \<and> getTracksByKind (s_world s') l AudioKind = [t1]"
proof -
  have wanted: "audio_wanted a1" "audio_wanted a2" using chosen_wanted assms(5,6) by simp_all
  note p1 = pick_device [OF assms(1,2,5,13)]
  then have p2: "microphone s2 l [t] a2" "second_request = AudioParams a2" "first_request = AudioParams a1"
    using pick_device [OF _ _ assms(6,14)] by auto
  have "microphone (track_answered err_of env nav second_request s2) l [t2] a2"
    unfolding p2(2) by (rule microphone_switch [OF p2(1) assms(3,4,8,10,11) wanted(2)])
  then have "microphone s' l [t1] a2"
    unfolding assms(15) p2(3) by (rule microphone_switch [OF _ assms(3,4,7,9,12) wanted(1)])
  then show ?thesis by (simp add: microphone_def)
qed

text \<open>A user with a microphone, and a browser that gives another one.\<close>

definition toy_audio :: "nat \<Rightarrow> track" where
  "toy_audio n = toy_track\<lparr>tr_obj := n, tr_kind := ''audio''\<rparr>"

definition toy_microphone :: "nat store" where
  "toy_microphone = toy_store\<lparr>s_world := toy_peer_world\<lparr>pw_local := [(Camera, 0)],
     pw_streams := toy_world\<lparr>heap := (\<lambda>_. [])(0 := [toy_audio 1]), nextStream := 1\<rparr>\<rparr>\<rparr>"

definition toy_headset :: media_navigator where
  "toy_headset = \<lparr>mn_getUserMedia = Some (\<lambda>_ _. Inr [toy_audio 2]), mn_legacy = None,
     mn_getDisplayMedia = (\<lambda>_. Inl getUserMediaFail), mn_enumerateDevices = Inl getUserMediaFail\<rparr>"

lemma toy_microphone_is: "microphone toy_microphone 0 [toy_audio 1] (AudioOn True)"
  by (simp add: microphone_def toy_microphone_def toy_store_defs toy_audio_def toy_track_def media_default_def getTracksByKind_def
      tracks_in_def)

lemma toy_reliable_env: "reliable (se_peer toy_store_env)"
  by (simp add: reliable_def toy_store_env_def toy_peer_env_def)

theorem default_device_not_restored_witness:
  "getTracksByKind (s_world (snd (choose_audio (\<lambda>_. getUserMediaFail) toy_store_env toy_headset DefaultDevice
     (choose_audio (\<lambda>_. getUserMediaFail) toy_store_env toy_headset (ChosenDevice ''b'' ''Headset'')
     (choose_audio (\<lambda>_. getUserMediaFail) toy_store_env toy_headset NoDevice
     (\<lparr>dd_open = True, dd_lastDevice = None\<rparr>, toy_microphone)))))) 0 AudioKind = [toy_audio 2]"
proof -
  note toy_microphone_is toy_reliable_env
  moreover have "mn_getUserMedia toy_headset = Some (\<lambda>_ _. Inr [toy_audio 2])"
    by (simp add: toy_headset_def)
  moreover have "tr_kind (toy_audio 2) = ''audio''" "toy_audio 2 \<noteq> toy_audio 1" by (simp_all add: toy_audio_def toy_track_def)
  ultimately show ?thesis
    using default_device_not_restored [where t' = "toy_audio 2" and d = "''b''",
        OF _ _ _ _ _ _ _ prod.collapse]
    by fastforce
qed

text \<open>A browser that gives a track of its own to every microphone.\<close>

definition toy_two_devices :: media_navigator where
  "toy_two_devices = toy_headset\<lparr>mn_getUserMedia :=
     Some (\<lambda>_ c. Inr [toy_audio (if mc_audio c = AudioDevice ''b'' then 2 else 3)])\<rparr>"

theorem late_device_answer_wins_witness:
  "getTracksByKind (s_world (
     let (dd1, s1, r1) = handle_audio_device toy_store_env (ChosenDevice ''b'' ''Headset'') (\<lparr>dd_open = True, dd_lastDevice = None\<rparr>, toy_microphone);
         (dd2, s2, r2) = handle_audio_device toy_store_env (ChosenDevice ''c'' ''Desk'') (dd1, s1);
         a = track_answered (\<lambda>_. getUserMediaFail) toy_store_env toy_two_devices
     in a (the r1) (a (the r2) s2))) 0 AudioKind = [toy_audio 2]"
proof -
  let ?dd = "\<lparr>dd_open = True, dd_lastDevice = None\<rparr>" and ?f = "\<lambda>(_ :: nat) c. Inr [toy_audio (if mc_audio c = AudioDevice ''b'' then 2 else 3)]"
  obtain dd1 s1 r1 where 1: "handle_audio_device toy_store_env (ChosenDevice ''b'' ''Headset'') (?dd, toy_microphone) = (dd1, s1, r1)"
    by (metis prod_cases3)
  obtain dd2 s2 r2 where 2: "handle_audio_device toy_store_env (ChosenDevice ''c'' ''Desk'') (dd1, s1) = (dd2, s2, r2)"
    by (metis prod_cases3)
  let ?b = "audio_choice (ChosenDevice ''b'' ''Headset'')" and ?c = "audio_choice (ChosenDevice ''c'' ''Desk'')"
  have p: "microphone s1 0 [toy_audio 1] ?b \<and> r1 = Some (AudioParams ?b) \<and> dd_lastDevice dd1 = None"
    by (rule pick_device [OF toy_microphone_is _ refl 1]) simp
  have q: "r2 = Some (AudioParams ?c)"
    using pick_device [OF conjunct1 [OF p] _ refl 2] p by simp
  have "getTracksByKind (s_world (track_answered (\<lambda>_. getUserMediaFail) toy_store_env toy_two_devices (AudioParams ?b)
      (track_answered (\<lambda>_. getUserMediaFail) toy_store_env toy_two_devices (AudioParams ?c) s2))) 0 AudioKind = [toy_audio 2]"
    using late_device_answer_wins [where f = ?f and nav = toy_two_devices and ?t1.0 = "toy_audio 2" and ?t2.0 = "toy_audio 3" and dd = ?dd,
        OF toy_microphone_is _ toy_reliable_env _ refl refl _ _ _ _ _ _ 1 [unfolded conjunct1 [OF conjunct2 [OF p]]] 2 [unfolded q] refl]
    by (simp add: toy_two_devices_def toy_audio_def toy_track_def)
  then show ?thesis by (simp add: 1 2 p q Let_def)
qed

theorem form_options_select_witness:
  "let m = media_default\<lparr>devices := [\<lparr>dv_id = ''a\"b'', dv_name = ''Camera'', dv_type = VideoInput\<rparr>]\<rparr>;
       chosen = s_media (snd (reducers toy_store_env (VideoConstraint (VideoDevice ''a\"b'')) (toy_store\<lparr>s_media := m\<rparr>)));
       ns = render_form ''well'' m (new_form None)
   in map handleVideoChange (option_values ''video-input'' ns) = [Inr (Some (VideoConstraint (VideoOn False))),
        Inr (Some (VideoConstraint (VideoFacing FacingUser))), Inr (Some (VideoConstraint (VideoDevice ''a\"b'')))] \<and>
      select_value ''video-input'' (render_form ''well'' chosen (new_form None)) = Some (option_values ''video-input'' ns ! 2)"
proof -
  let ?m = "media_default\<lparr>devices := [\<lparr>dv_id = ''a\"b'', dv_name = ''Camera'', dv_type = VideoInput\<rparr>]\<rparr>"
  let ?s = "toy_store\<lparr>s_media := ?m\<rparr>" and ?vs = "[VideoOn False, VideoFacing FacingUser, VideoDevice ''a\"b'']"
  have m: "form_visible ?m" "?m = s_media ?s" by (simp_all add: form_visible_def media_default_def)
  have vs: "?vs = [VideoOn False, VideoFacing FacingUser] @
      map (VideoDevice \<circ> dv_id) (filter (\<lambda>d. dv_type d = VideoInput) (devices ?m))" by simp
  note select = form_options_select [OF m vs refl, of "''well''" "new_form None" toy_store_env]
  have "select_value ''video-input'' (render_form ''well'' (s_media (snd (reducers toy_store_env (VideoConstraint (?vs ! 2)) ?s))) (new_form None)) =
      Some (option_values ''video-input'' (render_form ''well'' ?m (new_form None)) ! 2)"
    using select by (elim conjE allE [of _ 2]) simp
  moreover have "map handleVideoChange (option_values ''video-input'' (render_form ''well'' ?m (new_form None))) =
      map (\<lambda>c. Inr (Some (VideoConstraint c))) ?vs"
    by (rule conjunct1 [OF select])
  moreover have "?vs ! 2 = VideoDevice ''a\"b''" by simp
  ultimately show ?thesis unfolding Let_def by (simp only: list.map simp_thms)
qed

end
