(* ===== verification/Page.thy ===== *)
theory Page
  imports Controls
begin

text \<open>
  The whole page (\<open>components/App.tsx\<close> and \<open>containers/App.tsx\<close> with the components they render): the
  client, the encoder of the messaging middleware and the states of the components, under what the
  user does, what the browser answers and what comes from the network. A request for a camera, a
  screen, a device or the list of devices waits for the browser: between the pending action and the
  answer anything may happen, and the answers come in any order. A handler that throws stops there; what
  it did before stays.
\<close>

section \<open>State\<close>

datatype pending_request =
    JoinRequest string media_constraints
  | DesktopRequest
  | TrackRequest media_track_params
  | DevicesRequest
  | PlayRequest "(bool \<times> (err_obj + unit)) list"

record 'p page =
  pg_client :: "'p client"
  pg_encoder :: encoder
  pg_toolbar :: toolbar_state
  pg_chatVisible :: bool
  pg_form :: form_state
  pg_requests :: "pending_request list"
  pg_audio :: "audio_constraint dropdown"
  pg_video :: "video_constraint dropdown"
  pg_input :: string
  pg_storage :: "string option"

text \<open>What the page takes from the browser; \<open>pe_localStorage\<close> says whether there is a local storage.\<close>

record 'p page_env =
  pe_client :: "'p client_env"
  pe_navigator :: media_navigator
  pe_error :: "js_error \<Rightarrow> err_obj"
  pe_localStorage :: bool
  pe_fileReader :: bool

abbreviation store_of :: "'p page \<Rightarrow> 'p store" where
  "store_of p \<equiv> c_store (pg_client p)"

abbreviation pe_store :: "'p page_env \<Rightarrow> 'p store_env" where
  "pe_store env \<equiv> ev_store (pe_client env)"

definition on_client :: "('p client \<Rightarrow> 'p client) \<Rightarrow> 'p page \<Rightarrow> 'p page" where
  "on_client f p = p\<lparr>pg_client := f (pg_client p)\<rparr>"

definition on_store :: "('p store \<Rightarrow> 'p store) \<Rightarrow> 'p page \<Rightarrow> 'p page" where
  "on_store f = on_client (\<lambda>c. c\<lparr>c_store := f (c_store c)\<rparr>)"

text \<open>The page when it is shown: \<open>componentDidMount\<close> of the application calls \<open>init\<close>, that of the form asks
  for the devices.\<close>

definition first_page :: "'p page_env \<Rightarrow> encoder \<Rightarrow> 'p store \<Rightarrow> 'p page" where
  "first_page env e s =
     \<lparr>pg_client = first_client (snd (reducers (pe_store env) (MediaEnumerate Pending) s)), pg_encoder = e,
      pg_toolbar = new_toolbar (msg_count (s_messages s)), pg_chatVisible = False,
      pg_form = new_form (nick (s_nicknames s) ME), pg_requests = [DevicesRequest],
      pg_audio = \<lparr>dd_open = False, dd_lastDevice = None\<rparr>, pg_video = \<lparr>dd_open = False, dd_lastDevice = None\<rparr>,
      pg_input = '''', pg_storage = None\<rparr>"

text \<open>A request joins the ones that wait for the browser.\<close>

definition wait_for :: "pending_request \<Rightarrow> 'p page \<Rightarrow> 'p page" where
  "wait_for r p = p\<lparr>pg_requests := pg_requests p @ [r]\<rparr>"

section \<open>Handlers of the application\<close>

definition handleShowChat :: "'p page \<Rightarrow> 'p page" where
  "handleShowChat p = p\<lparr>pg_chatVisible := True\<rparr>"

definition handleHideChat :: "'p page \<Rightarrow> 'p page" where
  "handleHideChat p = p\<lparr>pg_chatVisible := False\<rparr>"

definition handleToggleChat :: "'p page \<Rightarrow> 'p page" where
  "handleToggleChat p = (if pg_chatVisible p then handleHideChat p else handleShowChat p)"

definition handleToggleRecord :: "'p page \<Rightarrow> 'p step" where
  "handleToggleRecord p = emit (RecordOut (\<not> recordStatus (s_media (store_of p))))"

text \<open>\<open>onHangup\<close> goes over the local streams of the state the page was rendered with.\<close>

definition onHangup :: "'p client_env \<Rightarrow> 'p step" where
  "onHangup env c =
     before (for_each (\<lambda>(_, s). disp env (RemoveLocalStream (sw_stream s) (ls_type s))) (localStreams (s_streams (c_store c))))
       (hangUp env) c"

section \<open>Handlers of the toolbar that use the page\<close>

definition toggle_chat :: "'p page \<Rightarrow> 'p page" where
  "toggle_chat p = handleToggleChat (p\<lparr>pg_toolbar := read_messages (msg_count (s_messages (store_of p))) (pg_toolbar p)\<rparr>)"

definition handleToggleShareDesktop :: "'p page_env \<Rightarrow> 'p page \<Rightarrow> 'p page" where
  "handleToggleShareDesktop env p = (case map_of (localStreams (s_streams (store_of p))) Desktop of
      Some s \<Rightarrow> on_client (\<lambda>c. snd (disp (pe_client env) (RemoveLocalStream (sw_stream s) (ls_type s)) c)) p
    | None \<Rightarrow> wait_for DesktopRequest (on_client (\<lambda>c. snd (disp (pe_client env) (MediaStreamAction Pending) c)) p))"

definition toggle_record :: "'p page \<Rightarrow> 'p page" where
  "toggle_record p =
    (let status = recordStatus (s_media (store_of p)); (e, c) = handleToggleRecord p (pg_client p); p = p\<lparr>pg_client := c\<rparr>
     in case e of None \<Rightarrow> p\<lparr>pg_toolbar := record_toast status (pg_toolbar p)\<rparr> | Some _ \<Rightarrow> p)"

definition on_password :: "(toolbar_state \<times> codec \<Rightarrow> toolbar_state \<times> codec) \<Rightarrow> 'p page \<Rightarrow> 'p page" where
  "on_password f p =
    (let (tb, k) = f (pg_toolbar p, pw_codec (s_world (store_of p)))
     in on_store (\<lambda>s. s\<lparr>s_world := (s_world s)\<lparr>pw_codec := k\<rparr>\<rparr>) (p\<lparr>pg_toolbar := tb\<rparr>))"

section \<open>Joining a call\<close>

text \<open>\<open>handleSubmit\<close> up to the request for the camera.\<close>

definition submit_form :: "'p page_env \<Rightarrow> 'p page \<Rightarrow> 'p page" where
  "submit_form env p =
    (let nickname = mf_nickname (pg_form p); m = s_media (store_of p);
         p = (if pe_localStorage env then p\<lparr>pg_storage := Some nickname\<rparr> else p);
         p = on_client (\<lambda>c. snd (disp (pe_client env) (MediaStreamAction Pending) c)) p
     in wait_for (JoinRequest nickname \<lparr>mc_audio = audio m, mc_video = video m\<rparr>) p)"

text \<open>\<open>dial\<close> and the notification of its rejection: a socket that is connecting rejects at once.\<close>

definition err_string :: "err_obj \<Rightarrow> string" where
  "err_string e = er_name e @ '': '' @ er_message e"

definition dial_and_log :: "'p client_env \<Rightarrow> string \<Rightarrow> 'p client \<Rightarrow> 'p client" where
  "dial_and_log env nickname c =
    (let c' = dial env nickname c
     in if c_socket c = Connecting then noted env NotifyError [''Error dialling: {0}'', err_string socket_error] c' else c')"

definition dial_timeout_and_log :: "'p client_env \<Rightarrow> nat \<Rightarrow> 'p client \<Rightarrow> 'p client" where
  "dial_timeout_and_log env d c =
    (let c' = dial_timeout env d c
     in if c_dials c ! d then c' else noted env NotifyError [''Error dialling: {0}'', ''Error: Dial timed out!''] c')"

text \<open>The rest of \<open>handleSubmit\<close>, when the browser answers the request for the camera. What is awaited
  is the promise the middleware returns: it fails if the dispatch of the rejected action throws, and
  otherwise has the outcome of the request itself.\<close>

definition camera_answered :: "'p page_env \<Rightarrow> string \<Rightarrow> media_constraints \<Rightarrow> 'p page \<Rightarrow> 'p page" where
  "camera_answered env nickname constraints p =
    (let request = getMediaStream (pe_navigator env) constraints;
         answer = fst (request (pw_streams (s_world (store_of p))));
         (e, s) = answered (pe_error env) (pe_store env) ''MEDIA_STREAM'' MediaStreamAction request (store_of p);
         p = on_store (\<lambda>_. s) p
     in if e \<noteq> None \<or> isl answer then p\<lparr>pg_form := (pg_form p)\<lparr>mf_error := Some True\<rparr>\<rparr>
        else on_client (\<lambda>c. dial_and_log (pe_client env) nickname (noted (pe_client env) Info [''Dialling...''] c))
               (p\<lparr>pg_form := (pg_form p)\<lparr>mf_error := Some False\<rparr>\<rparr>))"

section \<open>Answers of the browser\<close>

definition desktop_answered :: "'p page_env \<Rightarrow> 'p store \<Rightarrow> 'p store" where
  "desktop_answered env s =
     snd (answered (pe_error env) (pe_store env) ''MEDIA_STREAM'' MediaStreamAction (getDesktopStream (pe_navigator env)) s)"

definition devices_answered :: "'p page_env \<Rightarrow> 'p store \<Rightarrow> 'p store" where
  "devices_answered env s =
     snd (answered (pe_error env) (pe_store env) ''MEDIA_ENUMERATE'' MediaEnumerate (enumerateDevices (pe_navigator env)) s)"

text \<open>The videos are what \<open>play\<close> finds in the document.\<close>

definition play_answered :: "'p page_env \<Rightarrow> (bool \<times> (err_obj + unit)) list \<Rightarrow> 'p store \<Rightarrow> 'p store" where
  "play_answered env videos s =
     snd (answered (pe_error env) (pe_store env) ''MEDIA_PLAY'' MediaPlay (\<lambda>w. (play videos, w)) s)"

definition request_answered :: "'p page_env \<Rightarrow> nat \<Rightarrow> 'p page \<Rightarrow> 'p page" where
  "request_answered env i p =
    (let r = pg_requests p ! i; p = p\<lparr>pg_requests := take i (pg_requests p) @ drop (Suc i) (pg_requests p)\<rparr>
     in case r of
          JoinRequest nickname constraints \<Rightarrow> camera_answered env nickname constraints p
        | DesktopRequest \<Rightarrow> on_store (desktop_answered env) p
        | TrackRequest params \<Rightarrow> on_store (track_answered (pe_error env) (pe_store env) (pe_navigator env) params) p
        | DevicesRequest \<Rightarrow> on_store (devices_answered env) p
        | PlayRequest videos \<Rightarrow> on_store (play_answered env videos) p)"

section \<open>The chat\<close>

definition send_message :: "'p page_env \<Rightarrow> chat_message \<Rightarrow> 'p page \<Rightarrow> 'p page" where
  "send_message env msg p =
    (let (_, s, e) = message_send (ev_chat (pe_client env)) (pe_store env) msg (store_of p, pg_encoder p)
     in on_store (\<lambda>_. s) (p\<lparr>pg_encoder := e\<rparr>))"

text \<open>A handler of the input: the text it sends, if any, and the next content of the input.\<close>

definition input_event :: "'p page_env \<Rightarrow> string \<Rightarrow> string option \<times> string \<Rightarrow> 'p page \<Rightarrow> 'p page" where
  "input_event env now = (\<lambda>(sent, message) p.
    (case sent of None \<Rightarrow> p | Some t \<Rightarrow> send_message env (sendText (se_me (pe_store env)) now t) p)\<lparr>pg_input := message\<rparr>)"

definition send_file :: "'p page_env \<Rightarrow> string \<Rightarrow> js_file \<Rightarrow> string \<Rightarrow> 'p page \<Rightarrow> 'p page" where
  "send_file env now f result p = (case sendFile (pe_fileReader env) (se_me (pe_store env)) now f result of
      Inl t \<Rightarrow> on_client (noted (pe_client env) NotifyError [t]) p
    | Inr msg \<Rightarrow> send_message env msg p)"

text \<open>The timer of the encoder; that it returns is shown in \<open>Encoder\<close>.\<close>

definition encoder_fires :: "'p page_env \<Rightarrow> 'p page \<Rightarrow> 'p page" where
  "encoder_fires env p = (case encoder_timer (pe_store env) (store_of p, pg_encoder p) of
      None \<Rightarrow> p
    | Some (_, s, e) \<Rightarrow> on_store (\<lambda>_. s) (p\<lparr>pg_encoder := e\<rparr>))"

section \<open>The application\<close>

definition toolbar_props_of :: "'p page \<Rightarrow> toolbar_props" where
  "toolbar_props_of p = (let s = store_of p in
     \<lparr>tp_dialState = dialState (s_media s), tp_messagesCount = msg_count (s_messages s),
      tp_desktopStream = map_of (localStreams (s_streams s)) Desktop, tp_recordStatus = recordStatus (s_media s),
      tp_chatVisible = pg_chatVisible p\<rparr>)"

datatype app_handler =
    ToolbarHandler toolbar_handler
  | ChatHandler chat_handler
  | FormHandler form_handler
  | VideoHandler video_handler

definition render_app :: "bool \<Rightarrow> bool \<Rightarrow> string \<Rightarrow> 'p page \<Rightarrow> app_handler node" where
  "render_app canShare supportsInsertableStreams network p = (let s = store_of p in
     elem ''div'' [Attr ''className'' ''app'']
       (map (map_node ToolbarHandler) (render_toolbar canShare supportsInsertableStreams (toolbar_props_of p) (pg_toolbar p)) @
        [render_notifications (if pg_chatVisible p then [''chat-visible''] else []) (s_notifications s),
         map_node ChatHandler (render_chat (pg_chatVisible p) (s_nicknames s) (msg_list (s_messages s))),
         map_node FormHandler (render_media network (s_media s) (pg_form p))] @
        (if dialState (s_media s) \<noteq> DIAL_STATE_HUNG_UP
         then (let (minimized, maximized) = render_videos (s_windowStates s) (s_nicknames s) (s_streams s)
               in [elem ''div'' [Attr ''className'' ''videos videos-toolbar''] (map (map_node VideoHandler \<circ> render_video) minimized),
                   elem ''div'' [Attr ''className'' ''videos videos-grid''] (map (map_node VideoHandler \<circ> render_video) maximized)])
         else [])))"

section \<open>Sessions\<close>

text \<open>\<open>Outside\<close> is what comes from the network and from timers of the client.\<close>

datatype page_event =
    Outside happening
  | ToolbarChat
  | CloseChat
  | ToolbarRecord
  | ToastTimer
  | ToolbarDesktop
  | ToolbarHangUp
  | ToolbarPassword string
  | PasswordKey string string
  | EncryptionDialog
  | BodyClick "string option"
  | FullscreenChange bool bool
  | FormNickname string
  | FormVideo string
  | FormAudio string
  | FormJoin
  | Answer nat
  | PickAudio device_choice
  | PickVideo device_choice
  | InputText string
  | InputKey string bool string
  | InputSend string
  | InputSmile string
  | InputFile string js_file string
  | EncoderTimer
  | TileMinimize string "string option"
  | PlayPressed "(bool \<times> (err_obj + unit)) list"
  | AudioMenu
  | AudioMenuClosed
  | VideoMenu
  | VideoMenuClosed

fun outside :: "happening \<Rightarrow> bool" where
  "outside (Dials nickname) = False"
| "outside HangsUp = False"
| "outside (Dispatches a) = False"
| "outside _ = True"

definition change_constraint :: "'p page_env \<Rightarrow> js_error + action option \<Rightarrow> 'p page \<Rightarrow> 'p page" where
  "change_constraint env r p = (case r of
      Inl _ \<Rightarrow> p
    | Inr None \<Rightarrow> p
    | Inr (Some a) \<Rightarrow> on_client (\<lambda>c. snd (disp (pe_client env) a c)) p)"

definition asking_for :: "media_track_params option \<Rightarrow> 'p page \<Rightarrow> 'p page" where
  "asking_for r p = (case r of None \<Rightarrow> p | Some params \<Rightarrow> wait_for (TrackRequest params) p)"

text \<open>The button of the autoplay message and \<open>loadedmetadata\<close> of a video both play the videos of the page.\<close>

definition press_play :: "'p page_env \<Rightarrow> (bool \<times> (err_obj + unit)) list \<Rightarrow> 'p page \<Rightarrow> 'p page" where
  "press_play env videos p =
     wait_for (PlayRequest videos) (on_client (\<lambda>c. snd (disp (pe_client env) (MediaPlay Pending) c)) p)"

definition pick_audio :: "'p page_env \<Rightarrow> device_choice \<Rightarrow> 'p page \<Rightarrow> 'p page" where
  "pick_audio env choice p =
    (let (dd, s, r) = handle_audio_device (pe_store env) choice (pg_audio p, store_of p)
     in asking_for r (on_store (\<lambda>_. s) (p\<lparr>pg_audio := dd\<rparr>)))"

definition pick_video :: "'p page_env \<Rightarrow> device_choice \<Rightarrow> 'p page \<Rightarrow> 'p page" where
  "pick_video env choice p =
    (let (dd, s, r) = handle_video_device (pe_store env) choice (pg_video p, store_of p)
     in asking_for r (on_store (\<lambda>_. s) (p\<lparr>pg_video := dd\<rparr>)))"

definition outside_step :: "'p page_env \<Rightarrow> happening \<Rightarrow> 'p page \<Rightarrow> 'p page" where
  "outside_step env h = on_client (\<lambda>c. case h of
      DialTimesOut d \<Rightarrow> dial_timeout_and_log (pe_client env) d c
    | _ \<Rightarrow> occur (pe_client env) c h)"

fun page_step :: "'p page_env \<Rightarrow> 'p page \<Rightarrow> page_event \<Rightarrow> 'p page" where
  "page_step env p (Outside h) = outside_step env h p"
| "page_step env p ToolbarChat = toggle_chat p"
| "page_step env p CloseChat = handleHideChat p"
| "page_step env p ToolbarRecord = toggle_record p"
| "page_step env p ToastTimer = p\<lparr>pg_toolbar := toast_timer (pg_toolbar p)\<rparr>"
| "page_step env p ToolbarDesktop = handleToggleShareDesktop env p"
| "page_step env p ToolbarHangUp = on_client (\<lambda>c. snd (onHangup (pe_client env) c)) p"
| "page_step env p (ToolbarPassword key) = on_password (save_password key) p"
| "page_step env p (PasswordKey pressed key) = on_password (setPasswordOnEnter pressed key) p"
| "page_step env p EncryptionDialog = p\<lparr>pg_toolbar := toggleEncryptionDialog (pg_toolbar p)\<rparr>"
| "page_step env p (BodyClick tag) = p\<lparr>pg_toolbar := toggleHidden tag (pg_toolbar p)\<rparr>"
| "page_step env p (FullscreenChange enabled full) = p\<lparr>pg_toolbar := fullscreenChange enabled full (pg_toolbar p)\<rparr>"
| "page_step env p (FormNickname value) = p\<lparr>pg_form := handleNicknameChange value (pg_form p)\<rparr>"
| "page_step env p (FormVideo value) = change_constraint env (handleVideoChange value) p"
| "page_step env p (FormAudio value) = change_constraint env (handleAudioChange value) p"
| "page_step env p FormJoin = submit_form env p"
| "page_step env p (Answer i) = request_answered env i p"
| "page_step env p (PickAudio choice) = pick_audio env choice p"
| "page_step env p (PickVideo choice) = pick_video env choice p"
| "page_step env p (InputText value) = p\<lparr>pg_input := value\<rparr>"
| "page_step env p (InputKey key shiftKey now) = input_event env now (handleKeyPress key shiftKey (pg_input p)) p"
| "page_step env p (InputSend now) = input_event env now (submit (pg_input p)) p"
| "page_step env p (InputSmile smile) = p\<lparr>pg_input := handleSmileClick smile (pg_input p)\<rparr>"
| "page_step env p (InputFile now f result) = send_file env now f result p"
| "page_step env p EncoderTimer = encoder_fires env p"
| "page_step env p (TileMinimize u sid) = on_client (\<lambda>c. snd (disp (pe_client env) (MinimizeToggle u sid) c)) p"
| "page_step env p (PlayPressed videos) = press_play env videos p"
| "page_step env p AudioMenu = p\<lparr>pg_audio := toggleOpen (pg_audio p)\<rparr>"
| "page_step env p AudioMenuClosed = p\<lparr>pg_audio := close_dropdown (pg_audio p)\<rparr>"
| "page_step env p VideoMenu = p\<lparr>pg_video := toggleOpen (pg_video p)\<rparr>"
| "page_step env p VideoMenuClosed = p\<lparr>pg_video := close_dropdown (pg_video p)\<rparr>"

text \<open>What can happen: only a button that is shown is pressed.\<close>

fun page_ok :: "'p page \<Rightarrow> page_event \<Rightarrow> bool" where
  "page_ok p (Outside h) \<longleftrightarrow> outside h \<and> can_occur (pg_client p) h"
| "page_ok p FormJoin \<longleftrightarrow> joinEnabled (s_media (store_of p))"
| "page_ok p (Answer i) \<longleftrightarrow> i < length (pg_requests p)"
| "page_ok p ToolbarChat \<longleftrightarrow> dialState (s_media (store_of p)) = DIAL_STATE_IN_CALL"
| "page_ok p ToolbarHangUp \<longleftrightarrow> dialState (s_media (store_of p)) = DIAL_STATE_IN_CALL"
| "page_ok p ToolbarRecord \<longleftrightarrow> dialState (s_media (store_of p)) = DIAL_STATE_IN_CALL"
| "page_ok p ToolbarDesktop \<longleftrightarrow> dialState (s_media (store_of p)) = DIAL_STATE_IN_CALL"
| "page_ok p _ \<longleftrightarrow> True"

section \<open>Invariants of a session\<close>

text \<open>\<open>page_effects\<close>: an invariant of the client also survives what the page does beyond the handlers
  of \<open>Signalling\<close>: a chunk sent to a registered peer, a notification that
  is numbered.\<close>

abbreviation put_store :: "'p store \<Rightarrow> 'p client \<Rightarrow> 'p client" where
  "put_store s c \<equiv> c\<lparr>c_store := s\<rparr>"

locale page_effects = client_session env inv allowed
  for env :: "'p client_env" and inv :: "'p client \<Rightarrow> bool" and allowed :: "action \<Rightarrow> bool" +
  assumes counted_inv: "inv (put_store s c) \<Longrightarrow> inv (put_store (s\<lparr>s_counter := n\<rparr>) c)"
    and send_inv: "inv (put_store s c) \<Longrightarrow> (u, q) \<in> set (s_peers s) \<Longrightarrow>
      inv (put_store (s\<lparr>s_world := snd (peer_call (se_peer (ev_store env)) (Send q chunk) (s_world s))\<rparr>) c)"
begin

lemma opens_inv: "inv (put_store s c) \<Longrightarrow> inv (put_store (s\<lparr>s_world := (s_world s)\<lparr>pw_streams := sw\<rparr>\<rparr>) c)"
  using streams_inv [of "put_store s c" sw] by simp

lemma kept_reducers:
  "inv (put_store s c) \<Longrightarrow> \<not> creates_peer a \<Longrightarrow> \<not> socket_action a \<Longrightarrow> inv (put_store (snd (reducers (ev_store env) a s)) c)"
  using do_inv [of "put_store s c" a] by (simp add: disp_def split_beta)

lemma kept_settled:
  assumes mk: "\<And>a. \<not> creates_peer (mk a)" "\<And>a. \<not> socket_action (mk a)" and s: "inv (put_store s c)"
  shows "inv (put_store (snd (settled (\<lambda>(_, a) s. let (e, s) = reducers (ev_store env) (mk a) s in (map_option err_of e, s)) type r s)) c)"
  using kept_reducers [OF _ mk] s by (auto simp: settled_def split_beta Let_def split: sum.split option.split)

lemma kept_answered:
  assumes mk: "\<And>a. \<not> creates_peer (mk a)" "\<And>a. \<not> socket_action (mk a)" and s: "inv (put_store s c)"
  shows "inv (put_store (snd (answered err_of (ev_store env) type mk f s)) c)"
  using kept_settled [OF mk opens_inv [OF s]] by (simp add: answered_def split_beta Let_def)

lemma kept_audio:
  "inv (put_store s c) \<Longrightarrow> inv (put_store (fst (snd (handle_audio_device (ev_store env) choice (dd, s)))) c)"
  by (simp add: handle_audio_device_def dropdown_track_def enableMediaTrack_def Let_def kept_reducers)

lemma kept_video:
  "inv (put_store s c) \<Longrightarrow> inv (put_store (fst (snd (handle_video_device (ev_store env) choice (dd, s)))) c)"
  by (simp add: handle_video_device_def dropdown_track_def enableMediaTrack_def Let_def kept_reducers)

lemma kept_notify: "inv (put_store s c) \<Longrightarrow> inv (put_store (snd (dispatch_notify (ev_store env) type args s)) c)"
  using noted_inv [of "put_store s c" type args] by (simp add: noted_def notif_def split_beta)

lemma kept_send_to: "inv (put_store s c) \<Longrightarrow> up \<in> set (s_peers s) \<Longrightarrow> inv (put_store (send_to (ev_store env) chunk up s) c)"
proof -
  assume s: "inv (put_store s c)" and up: "up \<in> set (s_peers s)"
  obtain u q where uq: "up = (u, q)" by fastforce
  show ?thesis
    using send_inv [OF s, of u q chunk] counted_inv up
    by (fastforce simp: send_to_def uq split: prod.split option.split)
qed

lemma kept_on_data: "inv (put_store s c) \<Longrightarrow> inv (put_store (on_data (ev_store env) chunk s) c)"
proof -
  assume s: "inv (put_store s c)"
  have "inv (put_store (fold (send_to (ev_store env) chunk) ps s) c)" if "set ps \<subseteq> set (s_peers s)" for ps
    using s that
    by (induction ps arbitrary: s) (auto simp: kept_send_to same_state_peers [OF send_to_state])
  then show ?thesis by (simp add: on_data_def)
qed

lemma kept_encoder_events: "inv (put_store s c) \<Longrightarrow> inv (put_store (fold (on_encoder_event (ev_store env)) evs s) c)"
proof (induction evs arbitrary: s)
  case (Cons ev evs)
  then show ?case by (cases ev) (simp_all add: kept_on_data kept_notify)
qed simp

text \<open>Every event of the page but a password and what the socket sends itself.\<close>

lemma kept_dial_log: "inv c \<Longrightarrow> inv (dial_and_log env nickname c)"
  by (simp add: dial_and_log_def Let_def dial_inv noted_inv)

lemma kept_timeout_log: "inv c \<Longrightarrow> inv (dial_timeout_and_log env d c)"
  by (simp add: dial_timeout_and_log_def dial_timeout_def Let_def run_microtasks_inv settle_dial_inv noted_inv)

lemma kept_onHangup: "inv c \<Longrightarrow> inv (snd (onHangup env c))"
  unfolding onHangup_def by (rule before_inv_at [OF loop_inv]) (auto simp: do_inv hangUp_inv)

lemma kept_outside:
  "inv (pg_client p) \<Longrightarrow> outside h \<Longrightarrow> can_occur (pg_client p) h \<Longrightarrow> \<not> of_socket h \<Longrightarrow> pe_client penv = env \<Longrightarrow>
     inv (pg_client (outside_step penv h p))"
  using occur_inv [of "pg_client p" h]
  by (cases h) (auto simp: outside_step_def on_client_def kept_timeout_log)

lemma kept_camera: "inv (pg_client p) \<Longrightarrow> pe_client penv = env \<Longrightarrow> inv (pg_client (camera_answered penv nickname cs p))"
  using kept_answered [of MediaStreamAction "store_of p" "pg_client p"]
  by (auto simp: camera_answered_def on_client_def on_store_def Let_def split_beta kept_dial_log noted_inv split: option.split)

lemma kept_answer: "inv (pg_client p) \<Longrightarrow> pe_client penv = env \<Longrightarrow> inv (pg_client (request_answered penv i p))"
  by (auto simp: request_answered_def desktop_answered_def devices_answered_def play_answered_def track_answered_def on_client_def on_store_def
      Let_def kept_camera kept_answered split: pending_request.split)

lemma kept_send_message: "inv (pg_client p) \<Longrightarrow> pe_client penv = env \<Longrightarrow> inv (pg_client (send_message penv msg p))"
  using kept_reducers [of "store_of p" "pg_client p"]
  by (simp add: send_message_def message_send_def on_client_def on_store_def Let_def split_beta)

lemma kept_encoder: "inv (pg_client p) \<Longrightarrow> pe_client penv = env \<Longrightarrow> inv (pg_client (encoder_fires penv p))"
  using kept_encoder_events [of "store_of p" "pg_client p"]
  by (auto simp: encoder_fires_def encoder_timer_def on_client_def on_store_def split: option.split bind_splits)

lemma kept_desktop: "inv (pg_client p) \<Longrightarrow> pe_client penv = env \<Longrightarrow> inv (pg_client (handleToggleShareDesktop penv p))"
  by (auto simp: handleToggleShareDesktop_def wait_for_def on_client_def do_inv split: option.split)

lemma kept_page:
  assumes "inv (pg_client p)" and "page_ok p ev" and "pe_client penv = env"
    and "\<And>key. ev \<noteq> ToolbarPassword key" and "\<And>pressed key. ev \<noteq> PasswordKey pressed key"
    and "\<And>h. ev = Outside h \<Longrightarrow> \<not> of_socket h"
  shows "inv (pg_client (page_step penv p ev))"
proof (cases ev)
  case (InputKey key shiftKey now)
  then show ?thesis using assms by (auto simp: input_event_def kept_send_message split: prod.split option.split)
next
  case (InputSend now)
  then show ?thesis using assms by (auto simp: input_event_def kept_send_message split: prod.split option.split)
next
  case (PickAudio choice)
  then show ?thesis using assms kept_audio [of "store_of p" "pg_client p"]
    by (simp add: pick_audio_def asking_for_def wait_for_def on_store_def on_client_def split_beta Let_def split: option.split)
next
  case (PickVideo choice)
  then show ?thesis using assms kept_video [of "store_of p" "pg_client p"]
    by (simp add: pick_video_def asking_for_def wait_for_def on_store_def on_client_def split_beta Let_def split: option.split)
next
  case (FormVideo v)
  then show ?thesis using assms
    by (auto simp: change_constraint_def handleVideoChange_def on_client_def do_inv split: option.split)
next
  case (FormAudio v)
  then show ?thesis using assms
    by (auto simp: change_constraint_def handleAudioChange_def on_client_def do_inv split: option.split)
next
  case ToolbarRecord
  then show ?thesis using assms emit_inv [of "pg_client p"]
    by (simp add: toggle_record_def handleToggleRecord_def Let_def split_beta split: option.split)
qed (use assms in \<open>auto simp: kept_outside toggle_chat_def handleToggleChat_def handleShowChat_def handleHideChat_def
      kept_desktop on_client_def kept_onHangup submit_form_def Let_def do_inv kept_answer wait_for_def send_file_def kept_send_message
      noted_inv kept_encoder press_play_def split: sum.split\<close>)

end

text \<open>An invariant that does not depend on the socket survives those, too.\<close>

locale page_invariant = page_effects env inv "\<lambda>a. \<not> creates_peer a" + client_invariant env inv
  for env :: "'p client_env" and inv :: "'p client \<Rightarrow> bool"
begin

lemma any_page:
  assumes "inv (pg_client p)" and "page_ok p ev" and "pe_client penv = env"
    and "\<And>key. ev \<noteq> ToolbarPassword key" and "\<And>pressed key. ev \<noteq> PasswordKey pressed key"
  shows "inv (pg_client (page_step penv p ev))"
proof (cases "\<exists>h. ev = Outside h \<and> of_socket h")
  case True
  then obtain h where h: "ev = Outside h" "of_socket h" by blast
  then show ?thesis
    using any_occur_inv [of "pg_client p" h] assms(1-3) by (cases h) (simp_all add: outside_step_def on_client_def)
qed (use kept_page [OF assms] in blast)

end

interpretation wf_page: page_invariant env client_wf for env
proof
  fix c :: "'p client" and s :: "'p store" and env :: "'p client_env"
  assume s: "client_wf (put_store s c)"
  show "client_wf (put_store (s\<lparr>s_counter := n\<rparr>) c)" for n
    using s by (simp add: client_wf_def user_of_def)
  show "client_wf (put_store (s\<lparr>s_world := snd (peer_call (se_peer (ev_store env)) (Send q chunk) (s_world s))\<rparr>) c)"
    if "(u, q) \<in> set (s_peers s)" for u q chunk
    using s client_wfD(3) [OF s, of u q] that calls.call [of "{..<length (c_peers c)}" "s_world s" "Send q chunk"]
    by (simp add: client_wf_def user_of_def)
qed

interpretation secret_page: page_invariant env "client_password pw worker" for env pw worker
  by unfold_locales (simp_all add: client_password_def password_is_def peer_call_def)

text \<open>The connections of a whole session of the page, passwords included.\<close>

lemma password_wf: "client_wf (pg_client p) \<Longrightarrow> client_wf (pg_client (on_password f p))"
  by (simp add: on_password_def on_store_def on_client_def split_beta Let_def client_wf_def user_of_def calls_in_def)

lemma page_step_wf:
  assumes "client_wf (pg_client p)" and "page_ok p ev"
  shows "client_wf (pg_client (page_step env p ev))"
proof (cases ev)
  case (ToolbarPassword key)
  then show ?thesis using assms(1) by (simp add: password_wf)
next
  case (PasswordKey pressed key)
  then show ?thesis using assms(1) by (simp add: password_wf)
qed (use wf_page.any_page [OF assms refl, of env] in simp_all)

interpretation page_session: machine "page_step env" page_ok "\<lambda>p. client_wf (pg_client p)" for env
  by unfold_locales (rule page_step_wf)

section \<open>The lock of the toolbar\<close>

definition lock_right :: "'p page \<Rightarrow> bool" where
  "lock_right p \<longleftrightarrow> (let k = pw_codec (s_world (store_of p)) in
     tb_encrypted (pg_toolbar p) \<longleftrightarrow> cd_worker k \<and> last_password k \<notin> {None, Some ''''})"

lemma lock_password: "lock_right p \<Longrightarrow> lock_right (on_password (save_password key) p)"
  by (simp add: lock_right_def on_password_def save_password_def setPassword_def postMessage_def on_store_def on_client_def
      last_password_def split_beta Let_def)

lemma lock_key: "lock_right p \<Longrightarrow> lock_right (on_password (setPasswordOnEnter pressed key) p)"
proof (cases "pressed = ''Enter''")
  case True
  assume "lock_right p"
  then have "lock_right (on_password (save_password key) p)" by (rule lock_password)
  moreover have "setPasswordOnEnter pressed key = save_password key" using True by (simp add: setPasswordOnEnter_def fun_eq_iff)
  ultimately show ?thesis by simp
qed (simp add: on_password_def setPasswordOnEnter_def lock_right_def on_store_def on_client_def Let_def)

text \<open>No other event changes what the toolbar shows.\<close>

lemma toolbar_client [simp]: "pg_toolbar (on_client f p) = pg_toolbar p" "pg_toolbar (on_store g p) = pg_toolbar p"
  by (simp_all add: on_client_def on_store_def)

lemmas toolbar_handlers = outside_step_def toggle_chat_def handleToggleChat_def handleShowChat_def handleHideChat_def
  read_messages_def toggle_record_def record_toast_def toast_timer_def handleToggleShareDesktop_def toggleEncryptionDialog_def
  toggleHidden_def fullscreenChange_def change_constraint_def submit_form_def camera_answered_def request_answered_def wait_for_def asking_for_def
  pick_audio_def pick_video_def press_play_def
  input_event_def send_message_def send_file_def encoder_fires_def Let_def split_beta

lemma lock_other:
  assumes "\<And>key. ev \<noteq> ToolbarPassword key" and "\<And>pressed key. ev \<noteq> PasswordKey pressed key"
  shows "tb_encrypted (pg_toolbar (page_step env p ev)) = tb_encrypted (pg_toolbar p)"
  using assms
  by (cases ev) (auto simp: toolbar_handlers split: option.split sum.split prod.split pending_request.split)

lemma lock_step:
  assumes p: "lock_right p" "page_ok p ev"
  shows "lock_right (page_step env p ev)"
proof -
  let ?k = "pw_codec (s_world (store_of p))"
  have c: "client_password (last_password ?k) (cd_worker ?k) (pg_client p)" by (simp add: client_password_def password_is_def)
  have "lock_right (page_step env p ev)"
    if "\<And>key. ev \<noteq> ToolbarPassword key" "\<And>pressed key. ev \<noteq> PasswordKey pressed key"
    using secret_page.any_page [OF c p(2) refl that, of env] lock_other [OF that, of env p] p(1)
    by (simp add: client_password_def password_is_def lock_right_def Let_def)
  then show ?thesis
    using lock_password [OF p(1)] lock_key [OF p(1)] by (cases ev) simp_all
qed

interpretation lock: machine "page_step env" page_ok lock_right for env
  by unfold_locales (rule lock_step)

text \<open>
  C12. In every session of the page the toolbar shows the closed lock exactly when there is a worker
  for the encryption and the password that was given to it last is not empty.
\<close>

theorem lock_icon_truthful:
  assumes "cd_posted (pw_codec (s_world s)) = []" and "admissible (page_step env) page_ok (first_page env e s) evs"
    and "p = run (page_step env) (first_page env e s) evs" and "k = pw_codec (s_world (store_of p))"
  shows "tb_encrypted (pg_toolbar p) \<longleftrightarrow> cd_worker k \<and> (\<exists>pw. last_password k = Some pw \<and> pw \<noteq> '''')"
proof -
  have "lock_right (first_page env e s)"
    using assms(1) by (simp add: lock_right_def first_page_def new_toolbar_def first_client_def init_def last_password_def
        reducers_quiet)
  from lock.run_inv [OF this assms(2)] show ?thesis by (auto simp: lock_right_def assms(3,4) Let_def)
qed

section \<open>Unread messages\<close>

lemma read_other:
  "ev \<noteq> ToolbarChat \<Longrightarrow> tb_readMessages (pg_toolbar (page_step env p ev)) = tb_readMessages (pg_toolbar p)"
  by (cases ev) (auto simp: toolbar_handlers on_password_def save_password_def setPasswordOnEnter_def
      split: option.split sum.split prod.split pending_request.split)

lemma read_others:
  "ToolbarChat \<notin> set evs \<Longrightarrow> tb_readMessages (pg_toolbar (run (page_step env) p evs)) = tb_readMessages (pg_toolbar p)"
proof (induction evs arbitrary: p)
  case (Cons ev evs)
  then show ?case using read_other [of ev env p] by auto
qed simp

abbreviation messages_of :: "'p page \<Rightarrow> nat" where
  "messages_of p \<equiv> msg_count (s_messages (store_of p))"

abbreviation unread_of :: "'p page \<Rightarrow> int" where
  "unread_of p \<equiv> unreadCount (toolbar_props_of p) (pg_toolbar p)"

text \<open>
  C40. The chat is opened with the button of the toolbar, and messages come or are sent while it is
  open. If it is closed with its own button, all of them are shown as unread; if it is closed with the
  button of the toolbar, none of them is.
\<close>

theorem closed_chat_counts_seen_messages:
  assumes "p1 = toggle_chat p" and "ToolbarChat \<notin> set evs" and "p2 = run (page_step env) p1 evs"
  shows "unread_of (page_step env p2 CloseChat) = int (messages_of p2) - int (messages_of p) \<and>
    unread_of (page_step env p2 ToolbarChat) = 0"
proof -
  have "tb_readMessages (pg_toolbar p1) = messages_of p"
    by (simp add: assms(1) toggle_chat_def handleToggleChat_def handleShowChat_def handleHideChat_def read_messages_def)
  then show ?thesis
    using read_others [OF assms(2), of env p1]
    by (simp add: assms(3) unreadCount_def toolbar_props_of_def toggle_chat_def handleToggleChat_def handleShowChat_def
        handleHideChat_def read_messages_def Let_def)
qed

section \<open>Joining\<close>

lemma camera_granted:
  assumes "mn_getUserMedia nav = Some f" and "\<And>n c. \<exists>ts. f n c = Inr ts"
  obtains l w' where "getMediaStream nav cs w = (Inr (Camera, l), w')"
proof -
  have "\<exists>ts. f (nextStream w) cs = Inr ts" by (rule assms(2))
  then show ?thesis
    using that assms(1)
    by (cases "\<not> audio_wanted (mc_audio cs) \<and> \<not> video_wanted (mc_video cs)")
      (auto simp: getMediaStream_def getUserMedia_def open_stream_def new_stream_def)
qed

lemma stream_granted:
  assumes "reliable (se_peer env)" and "distinct (map snd (s_peers s))" and "\<not> isRecording (s_streams s)"
    and "f (pw_streams (s_world s)) = (Inr (type, l), w')"
    and "answered err_of env name MediaStreamAction f s = (e, s')"
  shows "e = None \<and> s_peers s' = s_peers s \<and> \<not> isRecording (s_streams s') \<and> s_media s' = s_media s \<and> map_of (pw_local (s_world s')) type = Some l"
proof -
  let ?w = "(s_world s)\<lparr>pw_streams := w'\<rparr>"
  obtain w1 where "handleLocalMediaStream (se_peer env) (s_peers s) (Resolved (type, l)) ?w = (None, w1)"
    "pw_local w1 = AList.update type l (pw_local (s_world s))"
    using handleLocalMediaStream_resends [OF assms(1,2), of type l ?w] by auto
  then show ?thesis
    using assms(3-5)
    by (auto simp: answered_def settled_def reducers_def peers_slice_def handleMediaStream_def addLocalStream_def Let_def
        split_beta update_conv')
qed

lemma stream_refused:
  assumes "f (pw_streams (s_world s)) = (Inl err, w')"
    and "answered err_of env name MediaStreamAction f s = (e, s')"
  shows "e = None \<and> s_peers s' = s_peers s \<and> s_media s' = (s_media s)\<lparr>errorText := er_message err\<rparr> \<and>
    pw_local (s_world s') = pw_local (s_world s)"
  using assms
  by (auto simp: answered_def settled_def reducers_def peers_slice_def handleMediaStream_def handleLocalMediaStream_def
      Let_def split_beta)

text \<open>The client can dial: the socket is open, no continuation waits, and the peers take every call.\<close>

definition can_dial :: "'p page_env \<Rightarrow> 'p page \<Rightarrow> bool" where
  "can_dial env p \<longleftrightarrow> reliable (se_peer (pe_store env)) \<and> distinct (map snd (s_peers (store_of p))) \<and>
     \<not> isRecording (s_streams (store_of p)) \<and> c_socket (pg_client p) = Open \<and> c_microtasks (pg_client p) = []"

lemma dial_open_rest:
  assumes "c_socket c = Open" and "c_microtasks c = []"
  shows "c_socket (dial env nickname c) = Open" "s_streams (c_store (dial env nickname c)) = s_streams (c_store c)"
    "s_world (c_store (dial env nickname c)) = s_world (c_store c)"
  using assms
  by (simp_all add: dial_def handshake_def removeEventListeners_def emit_def Let_def run_microtasks_simps reducers_quiet)

lemma camera_yes:
  assumes p: "can_dial env p" and i: "pg_requests p ! i = JoinRequest nickname cs"
    and yes: "getMediaStream (pe_navigator env) cs (pw_streams (s_world (store_of p))) = (Inr (type, l), w')"
    and p': "p' = request_answered env i p"
  shows "can_dial env p'" "mf_error (pg_form p') = Some False" "dial_state_of (pg_client p') = DIAL_STATE_DIALLING"
    "c_out (pg_client p') = c_out (pg_client p) @ [Ready (ev_callId (pe_client env)) nickname nickname]"
    "c_dials (pg_client p') = c_dials (pg_client p) @ [False]"
    "map_of (pw_local (s_world (store_of p'))) type = Some l"
    "pg_requests p' = take i (pg_requests p) @ drop (Suc i) (pg_requests p)"
proof -
  obtain e s where a: "answered (pe_error env) (pe_store env) ''MEDIA_STREAM'' MediaStreamAction
      (getMediaStream (pe_navigator env) cs) (store_of p) = (e, s)" by fastforce
  have s: "e = None" "s_peers s = s_peers (store_of p)" "\<not> isRecording (s_streams s)" "s_media s = s_media (store_of p)"
    "map_of (pw_local (s_world s)) type = Some l"
    using stream_granted [OF _ _ _ yes a] p by (simp_all add: can_dial_def)
  define c where "c = noted (pe_client env) Info [''Dialling...''] (put_store s (pg_client p))"
  have c: "c_socket c = Open" "c_microtasks c = []" using p by (simp_all add: c_def can_dial_def)
  have cs: "s_peers (c_store c) = s_peers s" "s_streams (c_store c) = s_streams s" "s_world (c_store c) = s_world s"
    "c_out c = c_out (pg_client p)" "c_dials c = c_dials (pg_client p)" by (simp_all add: c_def)
  have eq: "p' = p\<lparr>pg_requests := take i (pg_requests p) @ drop (Suc i) (pg_requests p), pg_form := (pg_form p)\<lparr>mf_error := Some False\<rparr>,
      pg_client := dial (pe_client env) nickname c\<rparr>"
    using c(1) by (simp add: p' request_answered_def camera_answered_def i a yes s(1) on_store_def on_client_def dial_and_log_def c_def)
  note d = dial_open [OF c, of "pe_client env" nickname] dial_open_rest [OF c, of "pe_client env" nickname]
  show "can_dial env p'" using p s by (simp add: can_dial_def eq d cs)
  show "mf_error (pg_form p') = Some False" "dial_state_of (pg_client p') = DIAL_STATE_DIALLING"
    "c_out (pg_client p') = c_out (pg_client p) @ [Ready (ev_callId (pe_client env)) nickname nickname]"
    "c_dials (pg_client p') = c_dials (pg_client p) @ [False]"
    "map_of (pw_local (s_world (store_of p'))) type = Some l"
    "pg_requests p' = take i (pg_requests p) @ drop (Suc i) (pg_requests p)"
    using s(5) by (simp_all add: eq d cs)
qed

text \<open>
  C13. Joining waits for the camera. When the browser refuses it, the form shows the error, nothing is
  sent and nobody is dialled. When the browser opens it, the camera is the local stream, one ready
  message with the nickname of the form is sent, and the client is dialling.
\<close>

theorem join_waits_for_camera:
  assumes "can_dial env p" and "pg_requests p ! i = JoinRequest nickname cs" and "p' = request_answered env i p"
  shows "case fst (getMediaStream (pe_navigator env) cs (pw_streams (s_world (store_of p)))) of
      Inl err \<Rightarrow> mf_error (pg_form p') = Some True \<and> errorText (s_media (store_of p')) = er_message err \<and>
        c_out (pg_client p') = c_out (pg_client p) \<and> c_dials (pg_client p') = c_dials (pg_client p) \<and>
        dial_state_of (pg_client p') = dial_state_of (pg_client p)
    | Inr (type, l) \<Rightarrow> mf_error (pg_form p') = Some False \<and> map_of (pw_local (s_world (store_of p'))) type = Some l \<and>
        c_out (pg_client p') = c_out (pg_client p) @ [Ready (ev_callId (pe_client env)) nickname nickname] \<and>
        c_dials (pg_client p') = c_dials (pg_client p) @ [False] \<and> dial_state_of (pg_client p') = DIAL_STATE_DIALLING"
proof -
  obtain r w' where r: "getMediaStream (pe_navigator env) cs (pw_streams (s_world (store_of p))) = (r, w')" by fastforce
  show ?thesis
  proof (cases r)
    case (Inl err)
    obtain e s where a: "answered (pe_error env) (pe_store env) ''MEDIA_STREAM'' MediaStreamAction
      (getMediaStream (pe_navigator env) cs) (store_of p) = (e, s)" by fastforce
    note stream_refused [OF r [unfolded Inl] a]
    then show ?thesis by (simp add: assms(2,3) r Inl request_answered_def camera_answered_def a on_store_def on_client_def)
  next
    case (Inr x)
    then show ?thesis using camera_yes [OF assms(1,2) _ assms(3)] r by (cases x) simp
  qed
qed

lemma submit_form_page:
  "pg_requests (submit_form env p) = pg_requests p @
     [JoinRequest (mf_nickname (pg_form p)) \<lparr>mc_audio = audio (s_media (store_of p)), mc_video = video (s_media (store_of p))\<rparr>]"
  "pg_form (submit_form env p) = pg_form p" "s_media (store_of (submit_form env p)) = s_media (store_of p)"
  "c_out (pg_client (submit_form env p)) = c_out (pg_client p)" "c_dials (pg_client (submit_form env p)) = c_dials (pg_client p)"
  "can_dial env (submit_form env p) = can_dial env p"
  by (simp_all add: submit_form_def wait_for_def on_client_def can_dial_def reducers_def peers_slice_def handleMediaStream_def
      handleLocalMediaStream_def Let_def split_beta)

lemma camera_yes_first:
  assumes "can_dial env p" and "pg_requests p = JoinRequest nickname cs # rest"
    and "mn_getUserMedia (pe_navigator env) = Some f" and "\<forall>n c. \<exists>ts. f n c = Inr ts"
  shows "can_dial env (request_answered env 0 p)" "pg_requests (request_answered env 0 p) = rest"
    "c_out (pg_client (request_answered env 0 p)) = c_out (pg_client p) @ [Ready (ev_callId (pe_client env)) nickname nickname]"
    "c_dials (pg_client (request_answered env 0 p)) = c_dials (pg_client p) @ [False]"
proof -
  obtain l w' where yes: "getMediaStream (pe_navigator env) cs (pw_streams (s_world (store_of p))) = (Inr (Camera, l), w')"
    using camera_granted [OF assms(3), where cs = cs and w = "pw_streams (s_world (store_of p))"] assms(4) by metis
  have "pg_requests p ! 0 = JoinRequest nickname cs" by (simp add: assms(2))
  note y = camera_yes [OF assms(1) this yes refl]
  show "can_dial env (request_answered env 0 p)" by (rule y(1))
  show "pg_requests (request_answered env 0 p) = rest" using y(7) by (simp add: assms(2))
  show "c_out (pg_client (request_answered env 0 p)) = c_out (pg_client p) @ [Ready (ev_callId (pe_client env)) nickname nickname]"
    "c_dials (pg_client (request_answered env 0 p)) = c_dials (pg_client p) @ [False]"
    by (rule y(4) y(5))+
qed

text \<open>
  C32. The button to join stays enabled while the browser asks for the camera: a second press makes a
  second request, and when both are granted the client dials twice and sends two ready messages.
\<close>

theorem join_pressed_twice_dials_twice:
  assumes "can_dial env p" and "pg_requests p = []" and "joinEnabled (s_media (store_of p))"
    and "mn_getUserMedia (pe_navigator env) = Some f" and "\<forall>n c. \<exists>ts. f n c = Inr ts"
    and "p1 = submit_form env p" and "p2 = request_answered env 0 (request_answered env 0 (submit_form env p1))"
    and "ready = Ready (ev_callId (pe_client env)) (mf_nickname (pg_form p)) (mf_nickname (pg_form p))"
  shows "joinEnabled (s_media (store_of p1)) \<and> c_out (pg_client p2) = c_out (pg_client p) @ [ready, ready] \<and>
    c_dials (pg_client p2) = c_dials (pg_client p) @ [False, False]"
proof -
  let ?q = "submit_form env p1" and ?x = "JoinRequest (mf_nickname (pg_form p)) \<lparr>mc_audio = audio (s_media (store_of p)), mc_video = video (s_media (store_of p))\<rparr>"
  have q: "pg_requests ?q = [?x, ?x]" "can_dial env ?q" "c_out (pg_client ?q) = c_out (pg_client p)"
    "c_dials (pg_client ?q) = c_dials (pg_client p)"
    using assms(1,2) by (simp_all add: assms(6) submit_form_page)
  note y = camera_yes_first [OF q(2,1) assms(4,5)]
  show ?thesis
    using camera_yes_first [OF y(1,2) assms(4,5)] y(3,4) q(3,4) assms(3)
    by (simp add: assms(6-8) submit_form_page)
qed

section \<open>Examples\<close>

definition toy_page_env :: "nat page_env" where
  "toy_page_env = \<lparr>pe_client = toy_client_env, pe_navigator = toy_navigator, pe_error = (\<lambda>_. getUserMediaFail),
     pe_localStorage = True, pe_fileReader = True\<rparr>"

definition toy_page :: "nat page" where
  "toy_page = first_page toy_page_env toy_encoder toy_store"

definition toy_open_page :: "nat page" where
  "toy_open_page = toy_page\<lparr>pg_requests := [], pg_client := (pg_client toy_page)\<lparr>c_socket := Open,
     c_store := toy_store\<lparr>s_media := (s_media toy_store)\<lparr>socketConnected := True\<rparr>\<rparr>\<rparr>\<rparr>"

lemma toy_open:
  "can_dial toy_page_env toy_open_page" "pg_requests toy_open_page = []" "joinEnabled (s_media (store_of toy_open_page))"
  "c_dials (pg_client toy_open_page) = []" "c_out (pg_client toy_open_page) = []" "pg_form toy_open_page = pg_form toy_page"
  by (simp_all add: can_dial_def toy_open_page_def toy_page_env_def toy_client_env_def toy_store_defs reliable_def
      joinEnabled_def media_default_def toy_page_def first_page_def first_client_def init_def)

theorem lock_icon_truthful_witness:
  "tb_encrypted (pg_toolbar (run (page_step toy_page_env) toy_page [EncryptionDialog, ToolbarPassword ''secret'']))"
proof -
  let ?p = "run (page_step toy_page_env) toy_page [EncryptionDialog, ToolbarPassword ''secret'']"
  have "cd_posted (pw_codec (s_world toy_store)) = []" by (simp add: toy_store_defs)
  moreover have "admissible (page_step toy_page_env) page_ok toy_page [EncryptionDialog, ToolbarPassword ''secret'']" by simp
  moreover have "cd_worker (pw_codec (s_world (store_of ?p)))" "last_password (pw_codec (s_world (store_of ?p))) = Some ''secret''"
    by (simp_all add: toy_page_def first_page_def first_client_def init_def toy_store_defs on_password_def save_password_def
        setPassword_def postMessage_def on_store_def on_client_def last_password_def Let_def reducers_quiet)
  ultimately show ?thesis
    using lock_icon_truthful [of toy_store toy_page_env toy_encoder "[EncryptionDialog, ToolbarPassword ''secret'']" ?p, OF _ _ _ refl]
    by (simp add: toy_page_def)
qed

theorem join_waits_for_camera_witness:
  "c_out (pg_client (request_answered toy_page_env 0 (submit_form toy_page_env toy_open_page))) =
     [Ready (ev_callId toy_client_env) (mf_nickname (pg_form toy_page)) (mf_nickname (pg_form toy_page))]"
proof -
  have d: "can_dial toy_page_env (submit_form toy_page_env toy_open_page)" by (simp only: submit_form_page toy_open)
  obtain cs where cs: "pg_requests (submit_form toy_page_env toy_open_page) ! 0 = JoinRequest (mf_nickname (pg_form toy_page)) cs"
    by (simp add: submit_form_page toy_open)
  obtain l w' where "getMediaStream toy_navigator cs (pw_streams (s_world (store_of (submit_form toy_page_env toy_open_page)))) =
      (Inr (Camera, l), w')"
    by (rule camera_granted [of toy_navigator "\<lambda>_ _. Inr [toy_track]"]) (simp_all add: toy_navigator_def)
  moreover have "pe_navigator toy_page_env = toy_navigator" "pe_client toy_page_env = toy_client_env"
    by (simp_all add: toy_page_env_def)
  ultimately show ?thesis
    using join_waits_for_camera [OF d cs refl] by (simp add: submit_form_page toy_open)
qed

theorem join_pressed_twice_dials_twice_witness:
  "length (c_dials (pg_client (request_answered toy_page_env 0 (request_answered toy_page_env 0
     (submit_form toy_page_env (submit_form toy_page_env toy_open_page)))))) = 2"
  using join_pressed_twice_dials_twice [of toy_page_env toy_open_page "\<lambda>_ _. Inr [toy_track]", OF toy_open(1-3) _ _ refl refl refl]
  by (simp add: toy_page_env_def toy_navigator_def toy_open)

theorem closed_chat_counts_seen_messages_witness:
  "unread_of (page_step toy_page_env (run (page_step toy_page_env) (toggle_chat toy_page) [InputText ''hi'', InputSend '''']) CloseChat) = 1"
proof -
  have "messages_of (run (page_step toy_page_env) (toggle_chat toy_page) [InputText ''hi'', InputSend '''']) = 1"
    "messages_of toy_page = 0"
    by (simp_all add: toy_page_def first_page_def first_client_def init_def toy_store_defs toggle_chat_def handleToggleChat_def
        handleShowChat_def input_event_def submit_def send_message_def message_send_def on_store_def on_client_def Let_def split_beta
        reducers_def peers_slice_def messages_default_def handleMessage_def sendText_def)
  then show ?thesis
    using closed_chat_counts_seen_messages [of "toggle_chat toy_page" toy_page "[InputText ''hi'', InputSend '''']", OF refl _ refl] by simp
qed

end
