(* ===== verification/Wired.thy ===== *)
theory Wired
  imports Page
begin

text \<open>
  The page and the web socket client together (\<open>ws/index.ts\<close>, \<open>socket.ts\<close> and \<open>init\<close> of
  \<open>actions/CallActions.ts\<close>): what happens to a web socket runs the listeners that the page has
  registered. The page sees the state of the current web socket when it sends.
\<close>

section \<open>Steps\<close>

definition see_socket :: "socket_client \<Rightarrow> 'p page \<Rightarrow> 'p page" where
  "see_socket sc = on_client (\<lambda>c. c\<lparr>c_socket := sockets sc ! ws sc\<rparr>)"

abbreviation deliver :: "'p page_env \<Rightarrow> socket_message \<Rightarrow> 'p page \<Rightarrow> 'p page" where
  "deliver env m p \<equiv> page_step env p (Outside (Receives m))"

text \<open>What happens on the page without the socket.\<close>

fun page_only :: "page_event \<Rightarrow> bool" where
  "page_only (Outside (Receives m)) \<longleftrightarrow> False"
| "page_only (Outside (SocketBecomes state)) \<longleftrightarrow> False"
| "page_only _ \<longleftrightarrow> True"

inductive wired_step :: "'p page_env \<Rightarrow> socket_client \<times> 'p page \<Rightarrow> socket_client \<times> 'p page \<Rightarrow> bool" for env where
  opens: "client_step sc (SocketOpens i) sc' \<Longrightarrow> wired_step env (sc, p) (sc', deliver env ConnectMsg (see_socket sc' p))"
| closes: "client_step sc (SocketCloses i) sc' \<Longrightarrow>
    wired_step env (sc, p) (sc', if connected sc then deliver env DisconnectMsg (see_socket sc' p) else see_socket sc' p)"
| message: "client_step sc (Message i (message_name m)) sc' \<Longrightarrow> wired_step env (sc, p) (sc', deliver env m p)"
| timer: "client_step sc TimerFires sc' \<Longrightarrow> wired_step env (sc, p) (sc', see_socket sc' p)"
| pings: "client_step sc (IntervalFires j) sc' \<Longrightarrow> wired_step env (sc, p) (sc', p)"
| page: "page_ok p ev \<Longrightarrow> page_only ev \<Longrightarrow> wired_step env (sc, p) (sc, page_step env p ev)"

text \<open>The sessions that start when the page is shown and the socket connects for the first time.\<close>

inductive wired :: "'p page_env \<Rightarrow> encoder \<Rightarrow> 'p store \<Rightarrow> socket_client \<times> 'p page \<Rightarrow> bool" for env e s where
  start: "wired env e s (new_client, first_page env e s)"
| step: "wired env e s x \<Longrightarrow> wired_step env x y \<Longrightarrow> wired env e s y"

section \<open>What the store knows of the socket\<close>

definition has_socket :: "socket_state \<Rightarrow> bool \<Rightarrow> 'p client \<Rightarrow> bool" where
  "has_socket x b c \<longleftrightarrow> c_socket c = x \<and> socketConnected (s_media (c_store c)) = b \<and>
     listeners (c_emitter c) ''connect'' = [(OnConnect, False)] \<and>
     listeners (c_emitter c) ''disconnect'' = [(OnDisconnect, False)]"

lemma socketConnected_keeps:
  "\<not> socket_action a \<Longrightarrow> socketConnected (s_media (snd (reducers env a s))) = socketConnected (s_media s)"
  by (cases a) (auto simp: reducers_def Let_def handleEnumerate_def handleMediaStream_def handlePlay_def handleDial_def
      split: prod.split option.split sum.split async_action.split)

lemma has_socket_store:
  "has_socket x b (put_store s c) \<longleftrightarrow> c_socket c = x \<and> socketConnected (s_media s) = b \<and>
     listeners (c_emitter c) ''connect'' = [(OnConnect, False)] \<and> listeners (c_emitter c) ''disconnect'' = [(OnDisconnect, False)]"
  by (simp add: has_socket_def)

interpretation link: page_effects env "has_socket x b" "\<lambda>a. \<not> socket_action a" for env x b
proof
  fix c c' :: "'p client" and env :: "'p client_env"
  show "\<not> socket_action a" if "handler_action a" for a
    using that by (cases a) simp_all
  show "has_socket x b (snd (disp env a c))" if "has_socket x b c" "\<not> socket_action a" for a
    using that by (simp add: has_socket_def socketConnected_keeps)
  show "has_socket x b (snd (on_peer env call c))" if "has_socket x b c" for call
    using that by (simp add: has_socket_def on_peer_def split_beta Let_def)
  show "has_socket x b (snd (disp env (AddPeer u (length (c_peers c))) (c\<lparr>c_peers := c_peers c @ [new_peer u i]\<rparr>)))"
    if "has_socket x b c" for u i
    using that by (simp add: has_socket_def socketConnected_keeps)
  show "has_socket x b c'" if "has_socket x b c" "c_store c' = c_store c" "same_socket c c'"
    using that by (auto simp: has_socket_def socket_events_def)
  show "has_socket x b (decrypt_receiver env r mid u c)" if "has_socket x b c" for r mid u
    using that by (simp add: has_socket_def decrypt_receiver_def Let_def)
qed (simp_all add: has_socket_def)

text \<open>The two messages of the socket.\<close>

lemma connect_seen:
  assumes "has_socket x b c"
  shows "has_socket x True (snd (receive env ConnectMsg c))"
proof -
  have l: "listeners (c_emitter c) ''connect'' = [(OnConnect, False)]" using assms by (simp add: has_socket_def)
  have "has_socket x True (snd (disp env SocketConnected (noted env Warning [''Connected to server socket''] c)))"
    using assms by (simp add: has_socket_def reducers_def peers_slice_def Let_def split_beta)
  then have "has_socket x True (snd (handle_connect env c))"
    unfolding handle_connect_def before_notif
    by (rule link.before_inv_at) (rule link.emit_inv)
  then show ?thesis
    by (cases "handle_connect env c") (auto simp: receive_def call_listener_def l split: option.split intro: link.run_microtasks_inv)
qed

lemma disconnect_seen:
  assumes "has_socket x b c"
  shows "has_socket x False (snd (receive env DisconnectMsg c))"
proof -
  have l: "listeners (c_emitter c) ''disconnect'' = [(OnDisconnect, False)]" using assms by (simp add: has_socket_def)
  have "has_socket x False (snd (handle_disconnect env c))"
    using assms by (simp add: handle_disconnect_def has_socket_def reducers_def peers_slice_def Let_def split_beta)
  then show ?thesis
    by (cases "handle_disconnect env c") (auto simp: receive_def call_listener_def l split: option.split intro: link.run_microtasks_inv)
qed

lemma password_keeps: "has_socket x b (pg_client p) \<Longrightarrow> has_socket x b (pg_client (on_password f p))"
  by (simp add: on_password_def on_store_def on_client_def has_socket_def split_beta Let_def)

lemma page_keeps_socket:
  assumes "has_socket x b (pg_client p)" and "page_ok p ev" and "page_only ev"
  shows "has_socket x b (pg_client (page_step env p ev))"
proof (cases "(\<exists>key. ev = ToolbarPassword key) \<or> (\<exists>pressed key. ev = PasswordKey pressed key)")
  case True
  then show ?thesis using password_keeps [OF assms(1)] by auto
next
  case False
  have "\<not> of_socket h" if "ev = Outside h" for h
    using that assms(2,3) by (cases h) auto
  then show ?thesis using link.kept_page [OF assms(1,2) refl] False by blast
qed

lemma message_keeps_socket:
  assumes "has_socket x b (pg_client p)" and "message_name m \<notin> socket_events"
  shows "has_socket x b (pg_client (deliver env m p))"
  using link.receive_inv [OF assms] by (simp add: outside_step_def on_client_def)

definition wired_inv :: "socket_client \<times> 'p page \<Rightarrow> bool" where
  "wired_inv = (\<lambda>(sc, p). reachable sc \<and> ws sc < length (sockets sc) \<and> has_socket (sockets sc ! ws sc) (connected sc) (pg_client p))"

lemma socket_kept:
  "client_step sc l sc' \<Longrightarrow> ws sc < length (sockets sc) \<Longrightarrow> ws sc' < length (sockets sc')"
  by (erule client_stepE) (auto simp: wsHandleOpen_def wsHandleClose_def wsHandleMessage_def connect_def disconnect_def ping_def client_emit_def
      Let_def split: option.splits)

lemma seen: "has_socket x b (pg_client p) \<Longrightarrow> has_socket (sockets sc ! ws sc) b (pg_client (see_socket sc p))"
  by (simp add: see_socket_def on_client_def has_socket_def)

lemma wired_inv_step:
  assumes inv: "wired_inv (sc, p)" and st: "wired_step env (sc, p) (sc', p')"
  shows "wired_inv (sc', p')"
proof -
  have sc: "reachable sc" "ws sc < length (sockets sc)" "has_socket (sockets sc ! ws sc) (connected sc) (pg_client p)"
    using inv by (simp_all add: wired_inv_def)
  have next_state: "reachable sc' \<and> ws sc' < length (sockets sc')" if "client_step sc l sc'" "l \<noteq> Disconnect" for l
    using sc that socket_kept reachable.step by blast
  show ?thesis
    using st
  proof cases
    case (opens i)
    have "connected sc'" using opens(2) by (auto elim!: client_stepE simp: wsHandleOpen_def Let_def)
    then show ?thesis
      using next_state [OF opens(2)] connect_seen [OF seen [OF sc(3)]]
      by (simp add: wired_inv_def opens(1) outside_step_def on_client_def)
  next
    case (closes i)
    have "\<not> connected sc'" using closes(2) by (auto elim!: client_stepE simp: wsHandleClose_def Let_def split: option.splits if_splits)
    then show ?thesis
      using next_state [OF closes(2)] seen [OF sc(3), of sc'] disconnect_seen [OF seen [OF sc(3)], of sc']
      by (auto simp: wired_inv_def closes(1) outside_step_def on_client_def)
  next
    case (message i m)
    have m: "message_name m \<notin> socket_events" "sockets sc' = sockets sc" "ws sc' = ws sc" "connected sc' = connected sc"
      using message(2) by (auto elim!: client_stepE simp: socket_events_def wsHandleMessage_def)
    then show ?thesis
      using next_state [OF message(2)] message_keeps_socket [OF sc(3) m(1), of env] by (simp add: wired_inv_def message(1))
  next
    case timer
    have "connected sc' = connected sc" using timer(2) by (auto elim!: client_stepE simp: connect_def)
    then show ?thesis using next_state [OF timer(2)] seen [OF sc(3), of sc'] by (simp add: wired_inv_def timer(1))
  next
    case (pings j)
    have "sockets sc' = sockets sc \<and> ws sc' = ws sc \<and> connected sc' = connected sc"
      using pings(2) by (auto elim!: client_stepE simp: ping_def client_emit_def split: if_splits)
    then show ?thesis using next_state [OF pings(2)] sc(3) by (simp add: wired_inv_def pings(1))
  next
    case (page ev)
    then show ?thesis using sc page_keeps_socket [OF sc(3)] by (simp add: wired_inv_def)
  qed
qed

lemma wired_inv_reached:
  assumes "wired env e s x" and "\<not> socketConnected (s_media s)"
  shows "wired_inv x"
  using assms
proof (induction rule: wired.induct)
  case start
  then show ?case
    using reachable.start
    by (simp add: wired_inv_def new_client_def connect_def first_page_def first_client_def init_def has_socket_def
        socketConnected_keeps listeners_def [of "[]"])
next
  case (step x y)
  then show ?case by (cases x; cases y) (auto intro: wired_inv_step)
qed

text \<open>
  C14. In every session, with any number of connections lost and made again, the page and its web
  socket agree: the store says connected exactly when the current web socket is open, and the button
  to join is enabled only then, so that a press of it finds a socket that can send.
\<close>

theorem join_button_means_connected:
  assumes "wired env e s (sc, p)" and "\<not> socketConnected (s_media s)"
  shows "(socketConnected (s_media (store_of p)) \<longleftrightarrow> sockets sc ! ws sc = Open) \<and>
    c_socket (pg_client p) = sockets sc ! ws sc \<and>
    (joinEnabled (s_media (store_of p)) \<longrightarrow> c_socket (pg_client p) = Open)"
proof -
  have inv: "reachable sc" "ws sc < length (sockets sc)" "has_socket (sockets sc ! ws sc) (connected sc) (pg_client p)"
    using wired_inv_reached [OF assms] by (simp_all add: wired_inv_def)
  have "connected sc \<longleftrightarrow> sockets sc ! ws sc = Open"
    using reachable_inv [OF inv(1)] inv(2) by (auto simp: client_inv_def waiting_def using_socket_def)
  then show ?thesis using inv(3) by (auto simp: has_socket_def joinEnabled_def)
qed

theorem join_button_means_connected_witness:
  "\<exists>sc p. wired toy_page_env toy_encoder toy_store (sc, p) \<and> c_socket (pg_client p) = Open \<and> socketConnected (s_media (store_of p))"
proof -
  let ?sc = "wsHandleOpen (new_client\<lparr>sockets := (sockets new_client)[0 := Open]\<rparr>)"
  have "client_step new_client (SocketOpens 0) ?sc"
    by (rule client_step.opens) (simp_all add: new_client_def connect_def)
  then obtain p where p: "wired toy_page_env toy_encoder toy_store (?sc, p)"
    using wired.step [OF wired.start wired_step.opens] by blast
  have "sockets ?sc ! ws ?sc = Open" by (simp add: wsHandleOpen_def new_client_def connect_def Let_def)
  moreover have "\<not> socketConnected (s_media toy_store)" by (simp add: toy_store_def initial_store_def media_default_def)
  ultimately show ?thesis using join_button_means_connected [OF p] p by metis
qed

end
