(* ===== verification/TurnCheck.thy ===== *)
theory TurnCheck
  imports Prelude
begin

text \<open>
  \<open>checkTURNServer\<close> of \<open>debug/index.ts\<close>: a race between a timer and a connection that looks for a
  relay candidate, in the offer or among the candidates that come later. The promises are the fields
  of the state; the first one that is settled decides, as \<open>Promise.race\<close> has it.
\<close>

text \<open>\<open>indexOf\<close>: the first position at which the needle starts, or \<open>-1\<close>.\<close>

fun indexOf_from :: "string \<Rightarrow> int \<Rightarrow> string \<Rightarrow> int" where
  "indexOf_from needle i [] = (if needle = [] then i else -1)"
| "indexOf_from needle i (c # cs) = (if take (length needle) (c # cs) = needle then i else indexOf_from needle (i + 1) cs)"

definition indexOf :: "string \<Rightarrow> string \<Rightarrow> int" where
  "indexOf s needle = indexOf_from needle 0 s"

definition is_relay :: "string \<Rightarrow> bool" where
  "is_relay s \<longleftrightarrow> indexOf s ''typ relay'' > -1"

record turn_check =
  tc_listening :: bool
  tc_result :: "(string + bool) option"

datatype turn_event =
    Offer string
  | OfferFails string
  | Candidate "string option"
  | TimesOut

definition settle_check :: "string + bool \<Rightarrow> turn_check \<Rightarrow> turn_check" where
  "settle_check r t = (if tc_result t = None then t\<lparr>tc_result := Some r\<rparr> else t)"

text \<open>\<open>onicecandidate\<close> is set after the offer; a missing candidate or one without a text is ignored.\<close>

fun turn_step :: "turn_check \<Rightarrow> turn_event \<Rightarrow> turn_check" where
  "turn_step t (Offer sdp) = (if is_relay sdp then settle_check (Inr True) t else t\<lparr>tc_listening := True\<rparr>)"
| "turn_step t (OfferFails err) = settle_check (Inl err) t"
| "turn_step t (Candidate c) =
    (if tc_listening t \<and> (case c of None \<Rightarrow> False | Some s \<Rightarrow> is_relay s) then settle_check (Inr True) t else t)"
| "turn_step t TimesOut = settle_check (Inl ''timed out'') t"

definition checkTURNServer :: turn_check where
  "checkTURNServer = \<lparr>tc_listening = False, tc_result = None\<rparr>"

lemma indexOf_from_found:
  "0 \<le> i \<Longrightarrow> indexOf_from needle i s > -1 \<longleftrightarrow> (\<exists>xs ys. s = xs @ needle @ ys)"
proof (induction needle i s rule: indexOf_from.induct)
  case (2 needle i c cs)
  have "(\<exists>xs ys. c # cs = xs @ needle @ ys) \<longleftrightarrow> take (length needle) (c # cs) = needle \<or> (\<exists>xs ys. cs = xs @ needle @ ys)"
    (is "?l \<longleftrightarrow> ?a \<or> ?r")
  proof
    assume ?l
    then obtain xs ys where e: "c # cs = xs @ needle @ ys" by blast
    show "?a \<or> ?r"
    proof (cases xs)
      case Nil
      then show ?thesis using e by (metis append_Nil append_eq_conv_conj)
    next
      case (Cons x xs')
      then have "cs = xs' @ needle @ ys" using e by simp
      then show ?thesis by blast
    qed
  next
    assume "?a \<or> ?r"
    then show ?l
    proof
      assume a: ?a
      then show ?l by (metis append_Nil append_take_drop_id)
    next
      assume ?r
      then obtain xs ys where "cs = xs @ needle @ ys" by blast
      then have "c # cs = (c # xs) @ needle @ ys" by simp
      then show ?l by blast
    qed
  qed
  then show ?case using 2 by auto
qed auto

lemma is_relay_iff: "is_relay s \<longleftrightarrow> (\<exists>xs ys. s = xs @ ''typ relay'' @ ys)"
  unfolding is_relay_def indexOf_def by (rule indexOf_from_found) simp

text \<open>The first event that decides.\<close>

fun first_outcome :: "bool \<Rightarrow> turn_event list \<Rightarrow> (string + bool) option" where
  "first_outcome listening [] = None"
| "first_outcome listening (Offer sdp # evs) = (if is_relay sdp then Some (Inr True) else first_outcome True evs)"
| "first_outcome listening (OfferFails err # evs) = Some (Inl err)"
| "first_outcome listening (Candidate c # evs) =
    (if listening \<and> (case c of None \<Rightarrow> False | Some s \<Rightarrow> is_relay s) then Some (Inr True) else first_outcome listening evs)"
| "first_outcome listening (TimesOut # evs) = Some (Inl ''timed out'')"

lemma decided_stays: "tc_result t = Some r \<Longrightarrow> tc_result (run turn_step t evs) = Some r"
proof (induction evs arbitrary: t)
  case (Cons ev evs)
  then have "tc_result (turn_step t ev) = Some r" by (cases ev) (auto simp: settle_check_def split: option.split)
  then show ?case using Cons.IH by simp
qed simp

lemma first_event_decides:
  "tc_result t = None \<Longrightarrow> tc_result (run turn_step t evs) = first_outcome (tc_listening t) evs"
proof (induction evs arbitrary: t)
  case (Cons ev evs)
  show ?case
    using Cons by (cases ev) (auto simp: settle_check_def decided_stays)
qed simp

text \<open>The check ends with true or an error and never with false: the first of a relay in the offer, a
  relay candidate after it, a failed offer and the timer decides.\<close>

lemma turn_check_outcome:
  "tc_result (run turn_step checkTURNServer evs) = first_outcome False evs \<and> tc_result (run turn_step checkTURNServer evs) \<noteq> Some (Inr False)"
proof -
  have "first_outcome l evs \<noteq> Some (Inr False)" for l
    by (induction l evs rule: first_outcome.induct) auto
  then show ?thesis by (simp add: first_event_decides checkTURNServer_def)
qed

end
