(* ===== verification/TestPage.thy ===== *)
theory TestPage
  imports Signalling
begin

text \<open>
  Two programs beside the client. \<open>index-simple.tsx\<close> is a test page: it dials when the socket connects,
  makes a connection for every users message and shows the tracks. \<open>initializePeer\<close> of
  \<open>reducers/streams.ts\<close> gives the connection to the recording server its handlers: its first signal is
  posted, and the answer is passed to the connection. Both leave what the connection does by itself to events.
\<close>

section \<open>The test page\<close>

record test_page =
  x_userListeners :: nat
  x_peers :: "bool list"
  x_signals :: "(nat \<times> string) list"
  x_out :: "outgoing list"
  x_added :: "(nat \<times> track) list"
  x_elements :: "track option list"

definition test_start :: test_page where
  "test_start = \<lparr>x_userListeners = 0, x_peers = [], x_signals = [], x_out = [], x_added = [], x_elements = []\<rparr>"

definition test_connect :: "string \<Rightarrow> string \<Rightarrow> test_page \<Rightarrow> test_page" where
  "test_connect callId userId x =
     x\<lparr>x_userListeners := Suc (x_userListeners x), x_out := x_out x @ [Ready callId ''test'' userId]\<rparr>"

definition test_users :: "string \<Rightarrow> string \<Rightarrow> test_page \<Rightarrow> test_page" where
  "test_users userId initiator x = x\<lparr>x_peers := x_peers x @ replicate (x_userListeners x) (initiator = userId)\<rparr>"

text \<open>Every connection has a listener of its own for the signals of the socket.\<close>

definition test_signal :: "string \<Rightarrow> test_page \<Rightarrow> test_page" where
  "test_signal signal x = x\<lparr>x_signals := x_signals x @ map (\<lambda>p. (p, signal)) [0..<length (x_peers x)]\<rparr>"

definition test_peer_signal :: "string \<Rightarrow> string \<Rightarrow> test_page \<Rightarrow> test_page" where
  "test_peer_signal userId signal x = x\<lparr>x_out := x_out x @ [SignalTo userId signal]\<rparr>"

text \<open>The tracks of the camera, or nothing when the browser refuses it. The element of the camera has no
  track of its own.\<close>

definition test_peer_connect :: "nat \<Rightarrow> track list option \<Rightarrow> test_page \<Rightarrow> test_page" where
  "test_peer_connect p stream x = (case stream of
      None \<Rightarrow> x
    | Some ts \<Rightarrow> x\<lparr>x_elements := x_elements x @ [None], x_added := x_added x @ map (\<lambda>t. (p, t)) ts\<rparr>)"

definition test_track :: "track \<Rightarrow> test_page \<Rightarrow> test_page" where
  "test_track t x = x\<lparr>x_elements := x_elements x @ [Some t]\<rparr>"

text \<open>\<open>onmute\<close> removes the element; \<open>removeChild\<close> throws (\<open>None\<close>) when it is gone already.\<close>

definition test_mute :: "track \<Rightarrow> test_page \<Rightarrow> test_page option" where
  "test_mute t x =
    (if Some t \<in> set (x_elements x) then Some (x\<lparr>x_elements := remove1 (Some t) (x_elements x)\<rparr>) else None)"

text \<open>The socket of this page does not reconnect, so it connects once; then there is one connection per
  users message, and a signal goes to all of them.\<close>

lemma test_signal_to_all:
  assumes "x = fold (test_users userId) initiators (test_connect callId userId test_start)"
  shows "x_peers x = map (\<lambda>i. i = userId) initiators" "x_signals (test_signal s x) = map (\<lambda>p. (p, s)) [0..<length initiators]"
proof -
  have "x_peers (fold (test_users userId) is y) = x_peers y @ map (\<lambda>i. i = userId) is \<and>
      x_userListeners (fold (test_users userId) is y) = Suc 0 \<and> x_signals (fold (test_users userId) is y) = x_signals y"
    if "x_userListeners y = Suc 0" for "is" y
    using that
  proof (induction "is" arbitrary: y)
    case (Cons i "is")
    then show ?case using Cons.IH [of "test_users userId i y"] by (simp add: test_users_def)
  qed simp
  from this [of "test_connect callId userId test_start" initiators]
  show "x_peers x = map (\<lambda>i. i = userId) initiators" "x_signals (test_signal s x) = map (\<lambda>p. (p, s)) [0..<length initiators]"
    by (simp_all add: assms test_connect_def test_start_def test_signal_def)
qed

lemma test_track_mute: "test_mute t (test_track t x) = Some y \<Longrightarrow> mset (x_elements y) = mset (x_elements x)"
  by (auto simp: test_mute_def test_track_def)

section \<open>The connection to the recording server\<close>

record recording_peer =
  rp_waiting :: bool
  rp_posts :: "(string \<times> string) list"
  rp_signalled :: "string list"

definition initializePeer :: recording_peer where
  "initializePeer = \<lparr>rp_waiting = True, rp_posts = [], rp_signalled = []\<rparr>"

text \<open>The listener of \<open>signal\<close> is removed before it is called; \<open>btoa (JSON.stringify data)\<close> is a
  parameter.\<close>

definition recording_signal ::
  "(string \<Rightarrow> string) \<Rightarrow> string \<Rightarrow> string \<Rightarrow> string option \<Rightarrow> recording_peer \<Rightarrow> recording_peer"
where
  "recording_signal encode_body roomID userID data rp =
    (if rp_waiting rp
     then (case data of
        None \<Rightarrow> rp\<lparr>rp_waiting := False\<rparr>
      | Some d \<Rightarrow> rp\<lparr>rp_waiting := False,
          rp_posts := rp_posts rp @ [(''/api/sessions/'' @ roomID @ ''/join/'' @ userID, encode_body d)]\<rparr>)
     else rp)"

text \<open>The answer of the server; an exception of \<open>signal\<close> is caught.\<close>

definition recording_answer :: "string \<Rightarrow> recording_peer \<Rightarrow> recording_peer" where
  "recording_answer data rp = rp\<lparr>rp_signalled := rp_signalled rp @ [data]\<rparr>"

lemma recording_posts_first:
  "rp_posts (fold (recording_signal enc room user) ds initializePeer) = (case ds of
      Some d # _ \<Rightarrow> [(''/api/sessions/'' @ room @ ''/join/'' @ user, enc d)]
    | _ \<Rightarrow> [])"
proof -
  have "rp_posts (fold (recording_signal enc room user) ds rp) = rp_posts rp" if "\<not> rp_waiting rp" for ds rp
    using that by (induction ds arbitrary: rp) (simp_all add: recording_signal_def)
  then show ?thesis
    by (cases ds) (auto simp: initializePeer_def recording_signal_def split: option.split)
qed

end
