(* ===== verification/Spec2Isabelle.thy ===== *)
theory Spec2Isabelle
  imports Decoder InsertableStreams Streams Peers SocketClient Media Room Store Messaging Signalling Calls
    MediaRequests Videos Controls Page Wired TurnCheck TestPage
begin

text \<open>
  A model of the browser client of MeeTiNG (\<open>src/src/client\<close>), a video conference program. A page
  opens a web socket to the server, dials a room, makes one WebRTC connection per user, sends the
  tracks of the camera and the desktop over it, encrypts them end to end if there is a password, and
  exchanges chat messages in chunks over a data channel. All state is in one Redux store; thunks and
  event handlers dispatch actions to it; React components show it.

  \<^bold>\<open>Theories, parts and their source.\<close> Each theory has its data, its operations with the names of the code
  where HOL allows it, and its lemmas; a text block in front of each says what it holds.

  \<^item> \<open>Prelude\<close>: bitwise operators on 32 bits, typed arrays with their range errors, objects as
    association lists in insertion order, loops that stop at an exception; the locales \<open>js_record\<close> (a
    dictionary) and \<open>machine\<close> (a state machine with an invariant), which the others interpret.
  \<^item> \<open>Header\<close>, \<open>Encoder\<close>, \<open>Decoder\<close> (\<open>codec/\<close>): the 16 bytes of a chunk, the worker that cuts a message
    into chunks with its promises and events, and the reassembly. Integers have the width of the code:
    message identifiers wrap at 65535, header fields at 16 and 31 bits.
  \<^item> \<open>Async\<close> (\<open>async/\<close>): pending, resolved and rejected actions.
  \<^item> \<open>SocketEvent\<close>, \<open>SocketClient\<close> (\<open>SocketEvent.ts\<close>, \<open>emitter/\<close>, \<open>ws/\<close>): payloads, event emitters, the
    socket with its reconnection.
  \<^item> \<open>InsertableStreams\<close> (\<open>insertable-streams/\<close>): the encryption worker with its contexts and key
    derivations that end in any order, frames, and the codec that posts to the worker.
  \<^item> \<open>Streams\<close>, \<open>Peers\<close>, \<open>Media\<close>, \<open>Room\<close> (\<open>reducers/\<close>): the reducers; browser streams are a heap, so that
    aliasing between the store and the connections is explicit. \<open>Store\<close> is \<open>reducers/index.ts\<close> with the
    actions: it sends each action to every slice in the order of the code, exceptions included.
  \<^item> \<open>Messaging\<close> (\<open>messaging.ts\<close>, \<open>ChatActions.ts\<close>): the middleware that sends chat messages, and the
    receiver.
  \<^item> \<open>Effects\<close>, \<open>Signalling\<close>, \<open>Calls\<close> (\<open>PeerActions.ts\<close>, \<open>SocketActions.ts\<close>, \<open>CallActions.ts\<close>): the
    handlers of connections and socket, dialling with its promise and timer, and sessions of the client
    under every order of events.
  \<^item> \<open>MediaRequests\<close> (\<open>MediaActions.ts\<close>): requests for cameras, screens and devices; what the browser
    answers is the parameter \<open>media_navigator\<close>.
  \<^item> \<open>Json\<close>: \<open>JSON.stringify\<close> and a recursive-descent parser for \<open>JSON.parse\<close>, which inverts it on values without
    numbers; the form and the menus of devices use them.
  \<^item> \<open>Html\<close>, \<open>Videos\<close>, \<open>Controls\<close> (\<open>components/\<close>): the trees the components render and the handlers of their
    own state: video tiles, notifications, chat, toolbar, the form to join, menus of devices, the input.
  \<^item> \<open>Page\<close> (\<open>App.tsx\<close>, \<open>containers/App.tsx\<close>, \<open>handleSubmit\<close> of \<open>Media.tsx\<close>): client, encoder and
    components together, under what the user does, the browser answers and the network brings. \<open>Wired\<close>
    puts the page and the web socket client together, with connections that are lost and made again.
  \<^item> \<open>TurnCheck\<close> (\<open>debug/\<close>), \<open>TestPage\<close> (\<open>index-simple.tsx\<close>, the recording connection of \<open>reducers/streams.ts\<close>):
    the check of a relay server, the test page, the handlers of the connection to the recording server.

  \<^bold>\<open>Interfaces.\<close> \<open>world_invariant\<close> (\<open>Effects\<close>) lists what an invariant of the browser objects has to
  survive, and gives that every reducer keeps it; it is interpreted for calls on peers that exist and
  for the password of the worker. \<open>client_effects\<close>, \<open>client_session\<close> and \<open>client_invariant\<close> (\<open>Calls\<close>) do the same
  for the handlers of the client, each extending the one before by further laws, \<open>page_effects\<close> and
  \<open>page_invariant\<close> (\<open>Page\<close>) for the events of the page; \<open>Wired\<close> interprets the former for what the store knows of
  the socket. \<open>media_request\<close>
  (\<open>MediaRequests\<close>) states what a request may do to the streams; its four interpretations are the four
  kinds of request. \<open>header_codec\<close> (\<open>Header\<close>) is what the decoder relies on of the header.
  Sessions of the encoder, the encryption worker, the reducers, the store, the client and the page are
  interpretations of \<open>machine\<close>, each with its invariant.

  \<^bold>\<open>What is shown.\<close> Messages survive the trip from the input of one user to the chat of another, with
  the chunks in any order; the worker always ends (its loop is a partial function into \<open>option\<close>, shown
  to return for every payload); identifiers do not repeat within 65535 messages. Frames that are
  encrypted with one password decrypt to themselves, no frame leaves unencrypted while there is a
  password, and no key of an old password is used. The streams of the store and the tracks of the
  heap agree after every action, the reducers of metadata refine a specification by sets, every peer
  is sent the tracks of the current local streams, hanging up and removing a peer leave nothing behind,
  requests for local devices never touch remote streams, and listing the devices leaves none of them open. A users message creates the missing
  connections, a dial is settled once, and in every session each connection belongs to its user. On
  the page, joining waits for the camera, the button to join is enabled only while the web socket is open, the
  lock in the toolbar tells whether a password is set, the video tiles are one per stream, and every option of
  the form dispatches the constraint it stands for and is then the one the form shows.
  Where the code does not do what it means to, the behaviour is proved as it is: a password that is set
  again or cleared, the timer of an earlier dial, listeners that pile up, the close event of an old
  connection, a socket that does not disconnect, recordings of several streams, failed sends without a
  notification, a menu of devices that returns to the wrong device or is overtaken by a late answer, joining twice, messages that count
  as unread after they were seen.

  \<^bold>\<open>Parameters.\<close> The browser and the packages are arguments: AES and key derivation, text codecs and JSON
  of chat messages, \<open>simple-peer\<close> (calls that may throw and events), media devices, stream identifiers and
  object URLs, whether there are workers, WebRTC, local storage, a file reader. What a theorem needs of
  them is a hypothesis (for example that decryption inverts encryption, or that calls on peers do not
  throw), and each such theorem has a concrete instance next to it.

  \<^bold>\<open>Choices.\<close> Strings are lists of 8-bit characters, where JavaScript has UTF-16. Keys of objects keep the
  order of insertion, also integer-like ones, and the keys of \<open>Object.prototype\<close> are not special. A promise
  settles in a step of its own where the order matters (dialling, key derivation, every request of the page
  for a device or to play the videos). A socket that is closing counts as open until its close event, and
  the server sends no message named \<open>connect\<close> or \<open>disconnect\<close>, the events the client emits itself. The peers that
  several hang-ups destroy after a second wait in one list and are destroyed together. A connection to the recording
  server can always be created; adding a stream to it may throw. A text of JSON with characters beyond eight bits is
  refused, and the form dispatches nothing for a text that is no constraint, which no option has. The handlers
  \<open>onmute\<close> and \<open>onunmute\<close> of a track are part of the browser objects, so that stopping a stream removes them.
  \<open>fire\<close> and the definitions above it return \<open>None\<close> when the worker does not return,
  which \<open>Encoder\<close> excludes.

  \<^bold>\<open>Not modelled.\<close> The server (\<open>src/server\<close>, in Go) is another program: its messages are arbitrary inputs.
  Action creators that only build an action are the constructors of \<open>action\<close>. When React renders, scrolling,
  focus, full screen and the sizes of the grid (\<open>componentDidUpdate\<close> of \<open>Videos.tsx\<close>, floating point) have no
  effect on the state; \<open>Alerts.tsx\<close> and \<open>Message.tsx\<close> wrap one element; \<open>constants.ts\<close>, \<open>window.ts\<close> and
  \<open>textcodec.ts\<close> are constants and re-exports.
\<close>

end
